(* ===== verification/Prelude.thy ===== *)
theory Prelude
  imports Main "HOL-Library.Sublist"
begin

text \<open>
  Shared vocabulary of the development: Rust strings as lists of Unicode scalar values, the part
  of the standard string API the modelled crates use (\<open>trim\<close>, \<open>strip_prefix\<close>, \<open>split\<close>,
  \<open>lines\<close>, \<open>join\<close>, ASCII case folding), results as sums with \<open>Inl\<close> for the error, and
  the list lemmas that the component theories share.  A Rust \<open>String\<close> or \<open>&str\<close> is a
  \<open>str\<close>; its \<open>len()\<close> in bytes is \<open>utf8_len\<close>.
\<close>

named_theorems str_simps \<open>equations that evaluate the string API\<close>
named_theorems model_defs \<open>definitions unfolded together in component proofs\<close>

subsection \<open>Strings\<close>

type_synonym uchar = int
type_synonym str = "uchar list"

text \<open>An ASCII literal of the source, e.g. \<open>lit ''*** Begin Patch''\<close>.\<close>

definition lit :: "string \<Rightarrow> str" where
  "lit s = map of_char s"

definition nl :: uchar where
  "nl = 10"

definition cr :: uchar where
  "cr = 13"

text \<open>Unicode \<open>White_Space\<close>, the predicate behind \<open>char::is_whitespace\<close>, \<open>trim\<close>,
  \<open>trim_start\<close> and \<open>trim_end\<close>.\<close>

definition is_ws :: "uchar \<Rightarrow> bool" where
  "is_ws c \<longleftrightarrow> (9 \<le> c \<and> c \<le> 13) \<or> c = 32 \<or> c = 133 \<or> c = 160 \<or> c = 5760 \<or>
     (8192 \<le> c \<and> c \<le> 8202) \<or> c = 8232 \<or> c = 8233 \<or> c = 8239 \<or> c = 8287 \<or> c = 12288"

definition trim_start :: "str \<Rightarrow> str" where
  "trim_start s = dropWhile is_ws s"

definition trim_end :: "str \<Rightarrow> str" where
  "trim_end s = rev (dropWhile is_ws (rev s))"

definition trim :: "str \<Rightarrow> str" where
  "trim s = trim_end (trim_start s)"

fun strip_prefix :: "'a list \<Rightarrow> 'a list \<Rightarrow> 'a list option" where
  "strip_prefix [] s = Some s"
| "strip_prefix (p # ps) [] = None"
| "strip_prefix (p # ps) (c # s) = (if p = c then strip_prefix ps s else None)"

definition starts_with :: "'a list \<Rightarrow> 'a list \<Rightarrow> bool" where
  "starts_with p s \<longleftrightarrow> strip_prefix p s \<noteq> None"

definition strip_suffix :: "'a list \<Rightarrow> 'a list \<Rightarrow> 'a list option" where
  "strip_suffix p s = map_option rev (strip_prefix (rev p) (rev s))"

definition ends_with :: "'a list \<Rightarrow> 'a list \<Rightarrow> bool" where
  "ends_with p s \<longleftrightarrow> strip_suffix p s \<noteq> None"

text \<open>\<open>s.contains(p)\<close> and \<open>s.find(p)\<close> for a string pattern (position in characters).\<close>

fun find_sub :: "'a list \<Rightarrow> 'a list \<Rightarrow> nat option" where
  "find_sub p [] = (if p = [] then Some 0 else None)"
| "find_sub p (c # s) =
     (if starts_with p (c # s) then Some 0 else map_option Suc (find_sub p s))"

definition contains :: "'a list \<Rightarrow> 'a list \<Rightarrow> bool" where
  "contains p s \<longleftrightarrow> find_sub p s \<noteq> None"

text \<open>\<open>s.split(c)\<close> for one separator character: always at least one piece.\<close>

fun split_on :: "'a \<Rightarrow> 'a list \<Rightarrow> 'a list list" where
  "split_on c [] = [[]]"
| "split_on c (x # xs) =
     (if x = c then [] # split_on c xs
      else (case split_on c xs of [] \<Rightarrow> [[x]] | y # ys \<Rightarrow> (x # y) # ys))"

text \<open>\<open>s.split_once(c)\<close> and \<open>s.rsplit_once(c)\<close> for one separator character.\<close>

fun split_once :: "'a \<Rightarrow> 'a list \<Rightarrow> ('a list \<times> 'a list) option" where
  "split_once c [] = None"
| "split_once c (x # xs) =
     (if x = c then Some ([], xs)
      else (case split_once c xs of None \<Rightarrow> None | Some (a, b) \<Rightarrow> Some (x # a, b)))"

definition rsplit_once :: "'a \<Rightarrow> 'a list \<Rightarrow> ('a list \<times> 'a list) option" where
  "rsplit_once c s =
     (case split_once c (rev s) of None \<Rightarrow> None | Some (a, b) \<Rightarrow> Some (rev b, rev a))"

text \<open>\<open>str::lines\<close>: pieces terminated by a newline, each without its \<open>"\n"\<close> and without a
  \<open>"\r"\<close> right before it; a last piece without newline is kept as it is, an empty last piece
  is dropped.\<close>

definition strip_cr :: "str \<Rightarrow> str" where
  "strip_cr s = (case strip_suffix [cr] s of None \<Rightarrow> s | Some t \<Rightarrow> t)"

fun lines_of_pieces :: "str list \<Rightarrow> str list" where
  "lines_of_pieces [] = []"
| "lines_of_pieces [p] = (if p = [] then [] else [p])"
| "lines_of_pieces (p # ps) = strip_cr p # lines_of_pieces ps"

definition str_lines :: "str \<Rightarrow> str list" where
  "str_lines s = lines_of_pieces (split_on nl s)"

fun join :: "'a list \<Rightarrow> 'a list list \<Rightarrow> 'a list" where
  "join sep [] = []"
| "join sep [s] = s"
| "join sep (s # ss) = s @ sep @ join sep ss"

definition to_ascii_lower_char :: "uchar \<Rightarrow> uchar" where
  "to_ascii_lower_char c = (if 65 \<le> c \<and> c \<le> 90 then c + 32 else c)"

definition to_ascii_lowercase :: "str \<Rightarrow> str" where
  "to_ascii_lowercase s = map to_ascii_lower_char s"

definition eq_ignore_ascii_case :: "str \<Rightarrow> str \<Rightarrow> bool" where
  "eq_ignore_ascii_case a b \<longleftrightarrow> to_ascii_lowercase a = to_ascii_lowercase b"

definition is_ascii_digit :: "uchar \<Rightarrow> bool" where
  "is_ascii_digit c \<longleftrightarrow> 48 \<le> c \<and> c \<le> 57"

text \<open>Bytes of the UTF-8 encoding: \<open>char::len_utf8\<close> and \<open>str::len\<close>.\<close>

definition len_utf8 :: "uchar \<Rightarrow> nat" where
  "len_utf8 c = (if c < 128 then 1 else if c < 2048 then 2 else if c < 65536 then 3 else 4)"

definition utf8_len :: "str \<Rightarrow> nat" where
  "utf8_len s = sum_list (map len_utf8 s)"

text \<open>The decimal form of a number, as \<open>Display\<close> prints it.\<close>

fun nat_digits :: "nat \<Rightarrow> str" where
  "nat_digits n = (if n < 10 then [48 + int n] else nat_digits (n div 10) @ [48 + int (n mod 10)])"

declare nat_digits.simps [simp del]

subsection \<open>Results\<close>

text \<open>The \<open>?\<close> operator: continue with the value, or return the error.\<close>

definition and_then :: "'e + 'a \<Rightarrow> ('a \<Rightarrow> 'e + 'b) \<Rightarrow> 'e + 'b" where
  "and_then r f = (case r of Inl e \<Rightarrow> Inl e | Inr x \<Rightarrow> f x)"

lemma and_then_simps [simp]:
  "and_then (Inl e) f = Inl e"
  "and_then (Inr x) f = f x"
  by (simp_all add: and_then_def)

lemma and_then_eq_Inr: "and_then r f = Inr y \<longleftrightarrow> (\<exists>x. r = Inr x \<and> f x = Inr y)"
  by (cases r) auto

definition is_ok :: "'e + 'a \<Rightarrow> bool" where
  "is_ok r = (case r of Inl _ \<Rightarrow> False | Inr _ \<Rightarrow> True)"

lemma is_ok_simps [simp]: "\<not> is_ok (Inl e)" "is_ok (Inr x)"
  by (simp_all add: is_ok_def)

lemma is_ok_iff: "is_ok r \<longleftrightarrow> (\<exists>x. r = Inr x)"
  by (cases r) auto

text \<open>\<open>v.last()\<close> and \<open>v.first()\<close>.\<close>

definition last_opt :: "'a list \<Rightarrow> 'a option" where
  "last_opt xs = (if xs = [] then None else Some (last xs))"

definition first_opt :: "'a list \<Rightarrow> 'a option" where
  "first_opt xs = (case xs of [] \<Rightarrow> None | x # _ \<Rightarrow> Some x)"

lemma last_opt_simps [simp]:
  "last_opt [] = None"
  "last_opt (xs @ [x]) = Some x"
  by (simp_all add: last_opt_def)

lemma last_opt_Some: "last_opt xs = Some x \<longleftrightarrow> (\<exists>ys. xs = ys @ [x])"
  by (cases xs rule: rev_cases) auto

lemma last_opt_None [simp]: "last_opt xs = None \<longleftrightarrow> xs = []"
  by (simp add: last_opt_def)

lemma first_opt_simps [simp]:
  "first_opt [] = None"
  "first_opt (x # xs) = Some x"
  by (simp_all add: first_opt_def)

subsection \<open>Lemmas on the string API\<close>

lemma lit_simps [str_simps]:
  "lit [] = []"
  "lit (c # s) = of_char c # lit s"
  by (simp_all add: lit_def)

lemma lit_append: "lit (a @ b) = lit a @ lit b"
  by (simp add: lit_def)

lemma length_lit [simp]: "length (lit s) = length s"
  by (simp add: lit_def)

lemma lit_eq_Nil [simp]: "lit s = [] \<longleftrightarrow> s = []"
  by (simp add: lit_def)

lemma strip_prefix_Some: "strip_prefix p s = Some t \<longleftrightarrow> s = p @ t"
  by (induction p s rule: strip_prefix.induct) auto

lemma strip_prefix_append [simp]: "strip_prefix p (p @ t) = Some t"
  by (simp add: strip_prefix_Some)

lemma starts_with_iff: "starts_with p s \<longleftrightarrow> (\<exists>t. s = p @ t)"
  by (auto simp: starts_with_def strip_prefix_Some)

lemma starts_with_append [simp]: "starts_with p (p @ t)"
  by (auto simp: starts_with_iff)

lemma strip_suffix_Some: "strip_suffix p s = Some t \<longleftrightarrow> s = t @ p"
proof -
  have "strip_suffix p s = Some t \<longleftrightarrow> strip_prefix (rev p) (rev s) = Some (rev t)"
    by (auto simp: strip_suffix_def)
  also have "\<dots> \<longleftrightarrow> rev s = rev p @ rev t"
    by (simp add: strip_prefix_Some)
  also have "\<dots> \<longleftrightarrow> s = t @ p"
    by (metis rev_append rev_rev_ident)
  finally show ?thesis .
qed

lemma ends_with_iff: "ends_with p s \<longleftrightarrow> (\<exists>t. s = t @ p)"
  by (auto simp: ends_with_def strip_suffix_Some)

lemma find_sub_None: "find_sub p s = None \<longleftrightarrow> \<not> sublist p s"
  by (induction p s rule: find_sub.induct)
    (auto simp: starts_with_iff sublist_Cons_right prefix_def)

lemma contains_iff: "contains p s \<longleftrightarrow> sublist p s"
  by (simp add: contains_def find_sub_None)

lemma split_on_not_Nil [simp]: "split_on c s \<noteq> []"
  by (induction s) (auto split: list.splits)

lemma split_on_no_sep: "c \<notin> set s \<Longrightarrow> split_on c s = [s]"
  by (induction s) auto

lemma split_on_append_sep:
  "c \<notin> set a \<Longrightarrow> split_on c (a @ c # b) = a # split_on c b"
  by (induction a) auto

lemma split_on_append: "split_on c (a @ c # b) = split_on c a @ split_on c b"
  by (induction a) (auto split: list.splits)

lemma set_split_on: "p \<in> set (split_on c s) \<Longrightarrow> c \<notin> set p"
  by (induction s arbitrary: p) (fastforce split: if_splits list.splits)+

lemma join_Cons: "ss \<noteq> [] \<Longrightarrow> join sep (s # ss) = s @ sep @ join sep ss"
  by (cases ss) auto

lemma join_snoc: "ss \<noteq> [] \<Longrightarrow> join sep (ss @ [s]) = join sep ss @ sep @ s"
proof (induction ss)
  case (Cons a ss)
  then show ?case by (cases "ss = []") (auto simp: join_Cons)
qed simp

lemma join_Cons_char: "join sep ((x # s) # ss) = x # join sep (s # ss)"
  by (cases ss) auto

lemma join_split_on: "join [c] (split_on c s) = s"
  by (induction s) (auto simp: join_Cons join_Cons_char split: list.splits)

lemma split_on_join:
  assumes "ss \<noteq> []" and "\<And>s. s \<in> set ss \<Longrightarrow> c \<notin> set s"
  shows "split_on c (join [c] ss) = ss"
  using assms
proof (induction ss)
  case (Cons s ss)
  then show ?case
    by (cases "ss = []") (auto simp: split_on_no_sep join_Cons split_on_append_sep)
qed simp

lemma split_once_None: "split_once c s = None \<longleftrightarrow> c \<notin> set s"
  by (induction s) (auto split: option.splits)

lemma split_once_Some: "split_once c s = Some (a, b) \<longleftrightarrow> s = a @ c # b \<and> c \<notin> set a"
proof (induction s arbitrary: a)
  case (Cons x s)
  show ?case
  proof (cases "x = c")
    case True
    then show ?thesis by (cases a) auto
  next
    case False
    then have "split_once c (x # s) = Some (a, b) \<longleftrightarrow>
        (\<exists>a'. a = x # a' \<and> split_once c s = Some (a', b))"
      by (auto split: option.splits)
    also have "\<dots> \<longleftrightarrow> (\<exists>a'. a = x # a' \<and> s = a' @ c # b \<and> c \<notin> set a')"
      by (simp add: Cons.IH)
    also have "\<dots> \<longleftrightarrow> x # s = a @ c # b \<and> c \<notin> set a"
      using False by (cases a) auto
    finally show ?thesis .
  qed
qed auto

lemma rsplit_once_Some: "rsplit_once c s = Some (a, b) \<longleftrightarrow> s = a @ c # b \<and> c \<notin> set b"
proof -
  have "rsplit_once c s = Some (a, b) \<longleftrightarrow> split_once c (rev s) = Some (rev b, rev a)"
    by (auto simp: rsplit_once_def split: option.splits)
  also have "\<dots> \<longleftrightarrow> rev s = rev b @ c # rev a \<and> c \<notin> set b"
    by (simp add: split_once_Some)
  also have "\<dots> \<longleftrightarrow> s = a @ c # b \<and> c \<notin> set b"
    by (auto simp: rev_swap)
  finally show ?thesis .
qed

subsection \<open>Trimming\<close>

lemma trim_simps [simp]: "trim [] = []" "trim_start [] = []" "trim_end [] = []"
  by (simp_all add: trim_def trim_start_def trim_end_def)

lemma trim_end_snoc [simp]: "\<not> is_ws c \<Longrightarrow> trim_end (s @ [c]) = s @ [c]"
  by (simp add: trim_end_def)

lemma trim_end_snoc_ws [simp]: "is_ws c \<Longrightarrow> trim_end (s @ [c]) = trim_end s"
  by (simp add: trim_end_def)

lemma trim_start_Cons [simp]: "\<not> is_ws c \<Longrightarrow> trim_start (c # s) = c # s"
  by (simp add: trim_start_def)

lemma trim_end_id: "s = [] \<or> \<not> is_ws (last s) \<Longrightarrow> trim_end s = s"
  by (cases s rule: rev_cases) auto

lemma trim_end_no_trailing: "trim_end s = [] \<or> \<not> is_ws (last (trim_end s))"
proof (induction s rule: rev_induct)
  case (snoc c s)
  then show ?case by (cases "is_ws c") auto
qed simp

lemma trim_end_idem [simp]: "trim_end (trim_end s) = trim_end s"
  by (rule trim_end_id) (rule trim_end_no_trailing)

lemma trim_end_prefix: "\<exists>w. s = trim_end s @ w \<and> list_all is_ws w"
proof (induction s rule: rev_induct)
  case (snoc c s)
  then obtain w where "s = trim_end s @ w" "list_all is_ws w" by blast
  then show ?case by (cases "is_ws c") (auto intro!: exI [of _ "w @ [c]"])
qed simp

lemma trim_id:
  assumes "s = [] \<or> (\<not> is_ws (hd s) \<and> \<not> is_ws (last s))"
  shows "trim s = s"
proof (cases s)
  case (Cons c t)
  with assms have "\<not> is_ws c" and "\<not> is_ws (last s)" by auto
  with Cons show ?thesis by (simp add: trim_def trim_end_id)
qed simp

lemma dropWhile_trim_end: "dropWhile is_ws (trim_end s) = trim_end (dropWhile is_ws s)"
proof (induction s rule: rev_induct)
  case (snoc c s)
  show ?case
  proof (cases "is_ws c")
    case True
    then show ?thesis
      using snoc by (cases "dropWhile is_ws s = []")
        (auto simp: dropWhile_append simp flip: dropWhile_eq_Nil_conv)
  next
    case False
    then show ?thesis
      using trim_end_snoc [OF False, of "[]"] by (auto simp: dropWhile_append)
  qed
qed simp

lemma trim_trim_end [simp]: "trim (trim_end s) = trim s"
  by (simp add: trim_def trim_start_def dropWhile_trim_end)

lemma trim_end_eq_imp_trim_eq: "trim_end s = trim_end t \<Longrightarrow> trim s = trim t"
  by (metis trim_trim_end)

lemma trim_start_ends:
  assumes "s \<noteq> []" "\<not> is_ws (last s)"
  shows "trim_start s \<noteq> [] \<and> last (trim_start s) = last s"
  using assms
proof (induction s)
  case (Cons c s)
  then show ?case by (cases "s = []") (auto simp: trim_start_def)
qed simp

subsection \<open>Lines\<close>

lemma strip_cr_no_cr: "s = [] \<or> last s \<noteq> cr \<Longrightarrow> strip_cr s = s"
proof -
  assume a: "s = [] \<or> last s \<noteq> cr"
  have "strip_suffix [cr] s = None"
  proof (rule ccontr)
    assume "strip_suffix [cr] s \<noteq> None"
    then obtain t where "s = t @ [cr]" by (auto simp: strip_suffix_Some)
    with a show False by simp
  qed
  then show ?thesis by (simp add: strip_cr_def)
qed

lemma lines_of_pieces_Cons:
  "ps \<noteq> [] \<Longrightarrow> lines_of_pieces (p # ps) = strip_cr p # lines_of_pieces ps"
  by (cases ps) auto

lemma lines_of_pieces_plain:
  assumes "ss \<noteq> []" "last ss \<noteq> []" "\<And>s. s \<in> set ss \<Longrightarrow> s = [] \<or> last s \<noteq> cr"
  shows "lines_of_pieces ss = ss"
  using assms
proof (induction ss)
  case (Cons s ss)
  show ?case
  proof (cases "ss = []")
    case True
    with Cons.prems show ?thesis by simp
  next
    case False
    with Cons show ?thesis by (simp add: lines_of_pieces_Cons strip_cr_no_cr)
  qed
qed simp

text \<open>A text put together from lines that hold neither line terminator splits into them again.\<close>

lemma str_lines_join:
  assumes "ss \<noteq> []" "last ss \<noteq> []"
    and "\<And>s. s \<in> set ss \<Longrightarrow> nl \<notin> set s"
    and "\<And>s. s \<in> set ss \<Longrightarrow> s = [] \<or> last s \<noteq> cr"
  shows "str_lines (join [nl] ss) = ss"
  using assms by (simp add: str_lines_def split_on_join lines_of_pieces_plain)

subsection \<open>Generic list lemmas\<close>

lemma take_drop_split: "take n xs @ take m (drop n xs) @ drop (n + m) xs = xs"
  by (metis add.commute append_take_drop_id drop_drop)

lemma list_all_iff_nth: "list_all P xs \<longleftrightarrow> (\<forall>i < length xs. P (xs ! i))"
  by (auto simp: list_all_length)

end
