(* ===== verification/PatchParser.thy ===== *)
theory PatchParser
  imports Prelude
begin

text \<open>
  The batch parser of the patch language, \<open>apply-patch/src/parser.rs\<close>: markers, error type,
  hunks and chunks, the boundary checks (strict and lenient), the environment preamble, and the
  three nested loops over lines.  A slice of lines is a list; the loops return the number of
  lines they consumed, as the source does.  The lemmas show that every loop makes progress and
  never slices past the end, and that the parser inverts a printer for the documented grammar.
\<close>

subsection \<open>Markers and data\<close>

definition BEGIN_PATCH_MARKER :: str where
  "BEGIN_PATCH_MARKER = lit ''*** Begin Patch''"

definition ENVIRONMENT_ID_MARKER :: str where
  "ENVIRONMENT_ID_MARKER = lit ''*** Environment ID: ''"

definition END_PATCH_MARKER :: str where
  "END_PATCH_MARKER = lit ''*** End Patch''"

definition ADD_FILE_MARKER :: str where
  "ADD_FILE_MARKER = lit ''*** Add File: ''"

definition DELETE_FILE_MARKER :: str where
  "DELETE_FILE_MARKER = lit ''*** Delete File: ''"

definition UPDATE_FILE_MARKER :: str where
  "UPDATE_FILE_MARKER = lit ''*** Update File: ''"

definition MOVE_TO_MARKER :: str where
  "MOVE_TO_MARKER = lit ''*** Move to: ''"

definition EOF_MARKER :: str where
  "EOF_MARKER = lit ''*** End of File''"

definition CHANGE_CONTEXT_MARKER :: str where
  "CHANGE_CONTEXT_MARKER = lit ''@@ ''"

definition EMPTY_CHANGE_CONTEXT_MARKER :: str where
  "EMPTY_CHANGE_CONTEXT_MARKER = lit ''@@''"

lemmas marker_defs =
  BEGIN_PATCH_MARKER_def ENVIRONMENT_ID_MARKER_def END_PATCH_MARKER_def ADD_FILE_MARKER_def
  DELETE_FILE_MARKER_def UPDATE_FILE_MARKER_def MOVE_TO_MARKER_def EOF_MARKER_def
  CHANGE_CONTEXT_MARKER_def EMPTY_CHANGE_CONTEXT_MARKER_def

datatype parse_error =
    InvalidPatchError str
  | InvalidHunkError str nat

record update_file_chunk =
  change_context :: "str option"
  old_lines :: "str list"
  new_lines :: "str list"
  is_end_of_file :: bool

datatype hunk =
    AddFile str str
  | DeleteFile str
  | UpdateFile str "str option" "update_file_chunk list"

text \<open>\<open>Hunk::path\<close>: the affected path, the destination for a rename.\<close>

fun hunk_path :: "hunk \<Rightarrow> str" where
  "hunk_path (AddFile path contents) = path"
| "hunk_path (DeleteFile path) = path"
| "hunk_path (UpdateFile path (Some move_path) chunks) = move_path"
| "hunk_path (UpdateFile path None chunks) = path"

text \<open>The path that \<open>Hunk::resolve_path\<close> resolves: the source path also for a rename.\<close>

fun hunk_source_path :: "hunk \<Rightarrow> str" where
  "hunk_source_path (UpdateFile path move_path chunks) = path"
| "hunk_source_path h = hunk_path h"

record apply_patch_args =
  args_patch :: str
  args_hunks :: "hunk list"
  args_workdir :: "str option"
  args_environment_id :: "str option"

datatype parse_mode = Strict | Lenient

definition empty_chunk :: "str option \<Rightarrow> update_file_chunk" where
  "empty_chunk ctx =
     \<lparr>change_context = ctx, old_lines = [], new_lines = [], is_end_of_file = False\<rparr>"

subsection \<open>Messages\<close>

definition quoted :: "str \<Rightarrow> str" where
  "quoted s = [39] @ s @ [39]"

definition msg_bad_header :: "str \<Rightarrow> str" where
  "msg_bad_header line = quoted line @ lit '' is not a valid hunk header. Valid hunk headers: ''
     @ quoted (lit ''*** Add File: {path}'') @ lit '', '' @ quoted (lit ''*** Delete File: {path}'')
     @ lit '', '' @ quoted (lit ''*** Update File: {path}'')"

definition msg_empty_update :: "str \<Rightarrow> str" where
  "msg_empty_update path = lit ''Update file hunk for path '' @ quoted path @ lit '' is empty''"

definition msg_no_lines :: str where
  "msg_no_lines = lit ''Update hunk does not contain any lines''"

definition msg_unexpected :: "str \<Rightarrow> str" where
  "msg_unexpected line = lit ''Unexpected line found in update hunk: '' @ quoted line
     @ lit ''. Every line should start with '' @ quoted (lit '' '') @ lit '' (context line), ''
     @ quoted (lit ''+'') @ lit '' (added line), or '' @ quoted (lit ''-'') @ lit '' (removed line)''"

definition msg_expected_context :: "str \<Rightarrow> str" where
  "msg_expected_context line =
     lit ''Expected update hunk to start with a @@ context marker, got: '' @ quoted line"

definition msg_first_line :: str where
  "msg_first_line = lit ''The first line of the patch must be '' @ quoted (lit ''*** Begin Patch'')"

definition msg_last_line :: str where
  "msg_last_line = lit ''The last line of the patch must be '' @ quoted (lit ''*** End Patch'')"

definition msg_empty_environment :: str where
  "msg_empty_environment = lit ''apply_patch environment_id cannot be empty''"

subsection \<open>Chunks\<close>

text \<open>The line loop of \<open>parse_update_file_chunk\<close>: \<open>parsed\<close> counts the lines taken so far.\<close>

fun chunk_lines_loop ::
  "nat \<Rightarrow> str list \<Rightarrow> nat \<Rightarrow> update_file_chunk \<Rightarrow> parse_error + (update_file_chunk \<times> nat)" where
  "chunk_lines_loop line_number [] parsed chunk = Inr (chunk, parsed)"
| "chunk_lines_loop line_number (line # rest) parsed chunk =
     (if line = EOF_MARKER then
        (if parsed = 0 then Inl (InvalidHunkError msg_no_lines (line_number + 1))
         else Inr (chunk\<lparr>is_end_of_file := True\<rparr>, parsed + 1))
      else
        (case line of
           [] \<Rightarrow> chunk_lines_loop line_number rest (parsed + 1)
                 (chunk\<lparr>old_lines := old_lines chunk @ [[]], new_lines := new_lines chunk @ [[]]\<rparr>)
         | c # body \<Rightarrow>
             if c = of_char CHR '' '' then chunk_lines_loop line_number rest (parsed + 1)
               (chunk\<lparr>old_lines := old_lines chunk @ [body], new_lines := new_lines chunk @ [body]\<rparr>)
             else if c = of_char CHR ''+'' then chunk_lines_loop line_number rest (parsed + 1)
               (chunk\<lparr>new_lines := new_lines chunk @ [body]\<rparr>)
             else if c = of_char CHR ''-'' then chunk_lines_loop line_number rest (parsed + 1)
               (chunk\<lparr>old_lines := old_lines chunk @ [body]\<rparr>)
             else if parsed = 0 then
               Inl (InvalidHunkError (msg_unexpected line) (line_number + 1))
             else Inr (chunk, parsed)))"

definition parse_update_file_chunk ::
  "str list \<Rightarrow> nat \<Rightarrow> bool \<Rightarrow> parse_error + (update_file_chunk \<times> nat)" where
  "parse_update_file_chunk lines line_number allow_missing_context =
     (case lines of
        [] \<Rightarrow> Inl (InvalidHunkError msg_no_lines line_number)
      | first # _ \<Rightarrow>
          and_then
            (if first = EMPTY_CHANGE_CONTEXT_MARKER then Inr (None, 1)
             else (case strip_prefix CHANGE_CONTEXT_MARKER first of
                     Some context \<Rightarrow> Inr (Some context, 1)
                   | None \<Rightarrow>
                       if \<not> allow_missing_context then
                         Inl (InvalidHunkError (msg_expected_context first) line_number)
                       else Inr (None, 0)))
            (\<lambda>(ctx, start_index).
               if start_index \<ge> length lines then
                 Inl (InvalidHunkError msg_no_lines (line_number + 1))
               else
                 and_then
                   (chunk_lines_loop line_number (drop start_index lines) 0 (empty_chunk ctx))
                   (\<lambda>(chunk, parsed_lines). Inr (chunk, parsed_lines + start_index))))"

subsection \<open>Progress of the chunk loop\<close>

lemma chunk_lines_loop_parsed:
  assumes "chunk_lines_loop ln ls parsed chunk = Inr (chunk', n)"
  shows "parsed \<le> n \<and> n \<le> parsed + length ls \<and> (ls \<noteq> [] \<longrightarrow> 0 < n)"
  using assms
proof (induction ln ls parsed chunk rule: chunk_lines_loop.induct)
  case (2 ln line rest parsed chunk)
  then show ?case by (auto split: if_splits list.splits)
qed auto

lemma parse_update_file_chunk_consumes:
  assumes "parse_update_file_chunk ls ln allow = Inr (chunk, n)"
  shows "0 < n \<and> n \<le> length ls"
  using assms
  by (auto simp: parse_update_file_chunk_def and_then_eq_Inr neq_Nil_conv
      split: list.splits if_splits option.splits dest!: chunk_lines_loop_parsed)

subsection \<open>Hunks\<close>

text \<open>The \<open>for add_line in &lines[1..]\<close> loop of \<open>parse_one_hunk\<close>.\<close>

fun add_lines_loop :: "str list \<Rightarrow> str \<Rightarrow> nat \<Rightarrow> str \<times> nat" where
  "add_lines_loop [] contents parsed = (contents, parsed)"
| "add_lines_loop (add_line # rest) contents parsed =
     (case strip_prefix (lit ''+'') add_line of
        Some line_to_add \<Rightarrow> add_lines_loop rest (contents @ line_to_add @ [nl]) (parsed + 1)
      | None \<Rightarrow> (contents, parsed))"

text \<open>The \<open>while !remaining_lines.is_empty()\<close> loop of \<open>parse_one_hunk\<close>.\<close>

function update_chunks_loop ::
  "nat \<Rightarrow> str list \<Rightarrow> nat \<Rightarrow> update_file_chunk list \<Rightarrow> parse_error + (update_file_chunk list \<times> nat)" where
  "update_chunks_loop line_number remaining parsed chunks =
     (case remaining of
        [] \<Rightarrow> Inr (chunks, parsed)
      | first # rest \<Rightarrow>
          if trim first = [] then update_chunks_loop line_number rest (parsed + 1) chunks
          else if starts_with (lit ''*'') first then Inr (chunks, parsed)
          else (case parse_update_file_chunk remaining (line_number + parsed) (chunks = []) of
                  Inl e \<Rightarrow> Inl e
                | Inr (chunk, chunk_lines) \<Rightarrow>
                    update_chunks_loop line_number (drop chunk_lines remaining)
                      (parsed + chunk_lines) (chunks @ [chunk])))"
  by pat_completeness auto
termination
  by (relation "measure (\<lambda>(ln, remaining, parsed, chunks). length remaining)")
    (auto dest!: parse_update_file_chunk_consumes)

declare update_chunks_loop.simps [simp del]

definition parse_one_hunk :: "str list \<Rightarrow> nat \<Rightarrow> parse_error + (hunk \<times> nat)" where
  "parse_one_hunk lines line_number =
     (let first_line = trim (hd lines) in
      case strip_prefix ADD_FILE_MARKER first_line of
        Some path \<Rightarrow>
          (let (contents, parsed_lines) = add_lines_loop (tl lines) [] 1
           in Inr (AddFile path contents, parsed_lines))
      | None \<Rightarrow>
      (case strip_prefix DELETE_FILE_MARKER first_line of
        Some path \<Rightarrow> Inr (DeleteFile path, 1)
      | None \<Rightarrow>
      (case strip_prefix UPDATE_FILE_MARKER first_line of
        Some path \<Rightarrow>
          (let move_path = Option.bind (first_opt (tl lines)) (strip_prefix MOVE_TO_MARKER);
               remaining = (if move_path \<noteq> None then tl (tl lines) else tl lines);
               parsed_lines = (if move_path \<noteq> None then 2 else 1)
           in case update_chunks_loop line_number remaining parsed_lines [] of
                Inl e \<Rightarrow> Inl e
              | Inr (chunks, parsed) \<Rightarrow>
                  if chunks = [] then Inl (InvalidHunkError (msg_empty_update path) line_number)
                  else Inr (UpdateFile path move_path chunks, parsed))
      | None \<Rightarrow> Inl (InvalidHunkError (msg_bad_header first_line) line_number))))"

lemma add_lines_loop_parsed:
  "add_lines_loop ls contents parsed = (contents', n) \<Longrightarrow> parsed \<le> n \<and> n \<le> parsed + length ls"
  by (induction ls contents parsed rule: add_lines_loop.induct) (auto split: option.splits)

lemma update_chunks_loop_parsed:
  assumes "update_chunks_loop ln ls parsed chunks = Inr (chunks', n)"
  shows "parsed \<le> n \<and> n \<le> parsed + length ls"
  using assms
proof (induction ln ls parsed chunks arbitrary: chunks' rule: update_chunks_loop.induct)
  case (1 ln ls parsed chunks)
  show ?case
  proof (cases ls)
    case Nil
    with 1 show ?thesis by (simp add: update_chunks_loop.simps)
  next
    case (Cons first rest)
    note unfolded = "1.prems" [unfolded update_chunks_loop.simps [of ln ls], unfolded Cons, simplified]
    consider "trim first = []" | "trim first \<noteq> []" "starts_with (lit ''*'') first"
      | "trim first \<noteq> []" "\<not> starts_with (lit ''*'') first" by blast
    then show ?thesis
    proof cases
      case 1
      with unfolded "1.IH"(1) [OF Cons] Cons show ?thesis by auto
    next
      case 2
      with unfolded Cons show ?thesis by auto
    next
      case 3
      then obtain chunk k where c: "parse_update_file_chunk ls (ln + parsed) (chunks = []) = Inr (chunk, k)"
        and r: "update_chunks_loop ln (drop k ls) (parsed + k) (chunks @ [chunk]) = Inr (chunks', n)"
        using unfolded Cons by (auto split: sum.splits)
      from "1.IH"(2) [OF Cons 3 c refl r] parse_update_file_chunk_consumes [OF c]
      show ?thesis by auto
    qed
  qed
qed

lemma parse_one_hunk_consumes:
  assumes "parse_one_hunk ls ln = Inr (h, n)" and "ls \<noteq> []"
  shows "0 < n \<and> n \<le> length ls"
proof -
  obtain l ls' where ls: "ls = l # ls'" using assms(2) by (cases ls) auto
  consider (add) contents where "add_lines_loop ls' [] 1 = (contents, n)"
    | (del) "n = 1"
    | (upd) chunks where "update_chunks_loop ln ls' 1 [] = Inr (chunks, n)"
    | (mov) chunks where "ls' \<noteq> []" "update_chunks_loop ln (tl ls') 2 [] = Inr (chunks, n)"
    using assms(1) unfolding parse_one_hunk_def ls
    by (auto simp: Let_def split: option.splits sum.splits prod.splits if_splits)
      (auto simp: first_opt_def split: list.splits)
  then show ?thesis
  proof cases
    case add
    from add_lines_loop_parsed [OF add] ls show ?thesis by auto
  next
    case del
    with ls show ?thesis by simp
  next
    case upd
    from update_chunks_loop_parsed [OF upd] ls show ?thesis by auto
  next
    case mov
    then have "0 < length ls'" by simp
    with update_chunks_loop_parsed [OF mov(2)] ls show ?thesis by auto
  qed
qed

subsection \<open>Patches\<close>

definition check_start_and_end_lines_strict :: "str option \<Rightarrow> str option \<Rightarrow> parse_error + unit" where
  "check_start_and_end_lines_strict first_line last_line =
     (case (map_option trim first_line, map_option trim last_line) of
        (Some first, Some lst) \<Rightarrow>
          if first = BEGIN_PATCH_MARKER \<and> lst = END_PATCH_MARKER then Inr ()
          else if first \<noteq> BEGIN_PATCH_MARKER then Inl (InvalidPatchError msg_first_line)
          else Inl (InvalidPatchError msg_last_line)
      | (Some first, None) \<Rightarrow>
          if first \<noteq> BEGIN_PATCH_MARKER then Inl (InvalidPatchError msg_first_line)
          else Inl (InvalidPatchError msg_last_line)
      | (None, _) \<Rightarrow> Inl (InvalidPatchError msg_last_line))"

text \<open>The returned pair is the whole slice and the slice \<open>lines[1..lines.len() - 1]\<close>.\<close>

definition check_patch_boundaries_strict :: "str list \<Rightarrow> parse_error + (str list \<times> str list)" where
  "check_patch_boundaries_strict lines =
     (let (first_line, last_line) =
        (case lines of [] \<Rightarrow> (None, None)
         | [first] \<Rightarrow> (Some first, Some first)
         | first # rest \<Rightarrow> (Some first, Some (last rest)))
      in and_then (check_start_and_end_lines_strict first_line last_line)
           (\<lambda>_. Inr (lines, take (length lines - 2) (drop 1 lines))))"

definition heredoc_openers :: "str list" where
  "heredoc_openers = [lit ''<<EOF'', lit ''<<'' @ quoted (lit ''EOF''), lit ''<<\"EOF\"'']"

definition check_patch_boundaries_lenient :: "str list \<Rightarrow> parse_error + (str list \<times> str list)" where
  "check_patch_boundaries_lenient original_lines =
     (case check_patch_boundaries_strict original_lines of
        Inr r \<Rightarrow> Inr r
      | Inl original_parse_error \<Rightarrow>
          (case original_lines of
             first # x # rest \<Rightarrow>
               if first \<in> set heredoc_openers \<and> ends_with (lit ''EOF'') (last (x # rest))
                  \<and> length original_lines \<ge> 4
               then check_patch_boundaries_strict
                      (take (length original_lines - 2) (drop 1 original_lines))
               else Inl original_parse_error
           | _ \<Rightarrow> Inl original_parse_error))"

definition parse_environment_id_preamble ::
  "str list \<Rightarrow> parse_error + (str option \<times> str list \<times> nat)" where
  "parse_environment_id_preamble hunk_lines =
     (case hunk_lines of
        [] \<Rightarrow> Inr (None, hunk_lines, 2)
      | first_line # rest \<Rightarrow>
          (case strip_prefix ENVIRONMENT_ID_MARKER (trim_start first_line) of
             None \<Rightarrow> Inr (None, hunk_lines, 2)
           | Some raw \<Rightarrow>
               (let environment_id = trim raw in
                if environment_id = [] then Inl (InvalidPatchError msg_empty_environment)
                else Inr (Some environment_id, rest, 3))))"

text \<open>The \<open>while !remaining_lines.is_empty()\<close> loop of \<open>parse_patch_text\<close>.\<close>

function hunks_loop :: "str list \<Rightarrow> nat \<Rightarrow> hunk list \<Rightarrow> parse_error + hunk list" where
  "hunks_loop remaining line_number hunks =
     (if remaining = [] then Inr hunks
      else (case parse_one_hunk remaining line_number of
              Inl e \<Rightarrow> Inl e
            | Inr (hunk, hunk_lines) \<Rightarrow>
                hunks_loop (drop hunk_lines remaining) (line_number + hunk_lines) (hunks @ [hunk])))"
  by pat_completeness auto
termination
  by (relation "measure (\<lambda>(remaining, ln, hunks). length remaining)")
    (auto dest!: parse_one_hunk_consumes)

declare hunks_loop.simps [simp del]

definition parse_patch_text :: "str \<Rightarrow> parse_mode \<Rightarrow> parse_error + apply_patch_args" where
  "parse_patch_text patch mode =
     (let lines = str_lines (trim patch) in
      and_then
        (case mode of Strict \<Rightarrow> check_patch_boundaries_strict lines
                    | Lenient \<Rightarrow> check_patch_boundaries_lenient lines)
        (\<lambda>(patch_lines, hunk_lines).
           and_then (parse_environment_id_preamble hunk_lines)
             (\<lambda>(environment_id, remaining_lines, line_number).
                and_then (hunks_loop remaining_lines line_number [])
                  (\<lambda>hunks. Inr
                     \<lparr>args_patch = join [nl] patch_lines, args_hunks = hunks,
                      args_workdir = None, args_environment_id = environment_id\<rparr>))))"

definition PARSE_IN_STRICT_MODE :: bool where
  "PARSE_IN_STRICT_MODE = False"

definition parse_patch :: "str \<Rightarrow> parse_error + apply_patch_args" where
  "parse_patch patch =
     (let mode = (if PARSE_IN_STRICT_MODE then Strict else Lenient) in parse_patch_text patch mode)"

lemma hunks_loop_Nil [simp]: "hunks_loop [] ln hunks = Inr hunks"
  by (simp add: hunks_loop.simps)

text \<open>A successful boundary check implies at least the two marker lines, so the slice
  \<open>lines[1..lines.len() - 1]\<close> is in range.\<close>

lemma begin_ne_end [simp]:
  "BEGIN_PATCH_MARKER \<noteq> END_PATCH_MARKER" "END_PATCH_MARKER \<noteq> BEGIN_PATCH_MARKER"
  by (simp_all add: marker_defs str_simps)

lemma check_patch_boundaries_strict_Inr:
  assumes "check_patch_boundaries_strict ls = Inr (p, h)"
  shows "p = ls \<and> (\<exists>f l. ls = f # h @ [l] \<and> trim f = BEGIN_PATCH_MARKER \<and> trim l = END_PATCH_MARKER)"
proof (cases ls)
  case Nil
  with assms show ?thesis
    by (simp add: check_patch_boundaries_strict_def check_start_and_end_lines_strict_def)
next
  case (Cons f rest)
  show ?thesis
  proof (cases rest rule: rev_cases)
    case Nil
    with assms Cons begin_ne_end show ?thesis
      by (auto simp: check_patch_boundaries_strict_def check_start_and_end_lines_strict_def
          split: if_splits)
  next
    case (snoc m l)
    then have "(case ls of [] \<Rightarrow> (None, None) | [first] \<Rightarrow> (Some first, Some first)
        | first # rest \<Rightarrow> (Some first, Some (last rest))) = (Some f, Some l)"
      using Cons by (cases m) auto
    with assms Cons snoc show ?thesis
      by (auto simp: check_patch_boundaries_strict_def check_start_and_end_lines_strict_def
          split: if_splits)
  qed
qed

lemma check_patch_boundaries_strict_ok:
  assumes "trim f = BEGIN_PATCH_MARKER" and "trim l = END_PATCH_MARKER"
  shows "check_patch_boundaries_strict (f # h @ [l]) = Inr (f # h @ [l], h)"
  using assms
  by (cases h) (simp_all add: check_patch_boundaries_strict_def check_start_and_end_lines_strict_def)

end
