(* ===== verification/PatchGrammar.thy ===== *)
theory PatchGrammar
  imports PatchParser
begin

text \<open>
  The grammar documented at the head of \<open>apply-patch/src/parser.rs\<close> as a syntax tree with a
  printer, independent of the parser: a patch is a list of add, delete and update hunks; an update
  hunk holds an optional move and one or more changes; a change has an optional context line, one
  or more context, added and removed lines, and an optional end-of-file mark.  \<open>denote_hunk\<close> is
  the \<open>Hunk\<close> value a syntax tree stands for.  The main result is that the parser maps the printed
  text of every well-formed syntax tree to its denotation.
\<close>

subsection \<open>Syntax trees, printing and meaning\<close>

datatype diff_line = Ctx str | Added str | Removed str

record change =
  chg_context :: "str option"
  chg_lines :: "diff_line list"
  chg_eof :: bool

datatype hunk_syntax =
    SAdd str "str list"
  | SDelete str
  | SUpdate str "str option" "change list"

fun print_diff_line :: "diff_line \<Rightarrow> str" where
  "print_diff_line (Ctx s) = lit '' '' @ s"
| "print_diff_line (Added s) = lit ''+'' @ s"
| "print_diff_line (Removed s) = lit ''-'' @ s"

definition print_ctx_line :: "str option \<Rightarrow> str" where
  "print_ctx_line ctx =
     (case ctx of None \<Rightarrow> EMPTY_CHANGE_CONTEXT_MARKER | Some s \<Rightarrow> CHANGE_CONTEXT_MARKER @ s)"

definition print_change :: "change \<Rightarrow> str list" where
  "print_change c = print_ctx_line (chg_context c) # map print_diff_line (chg_lines c)
     @ (if chg_eof c then [EOF_MARKER] else [])"

fun print_hunk :: "hunk_syntax \<Rightarrow> str list" where
  "print_hunk (SAdd path ls) = (ADD_FILE_MARKER @ path) # map (\<lambda>l. lit ''+'' @ l) ls"
| "print_hunk (SDelete path) = [DELETE_FILE_MARKER @ path]"
| "print_hunk (SUpdate path mv changes) =
     (UPDATE_FILE_MARKER @ path)
     # (case mv of None \<Rightarrow> [] | Some p \<Rightarrow> [MOVE_TO_MARKER @ p])
     @ concat (map print_change changes)"

definition print_patch_lines :: "hunk_syntax list \<Rightarrow> str list" where
  "print_patch_lines hs =
     BEGIN_PATCH_MARKER # concat (map print_hunk hs) @ [END_PATCH_MARKER]"

definition print_patch :: "hunk_syntax list \<Rightarrow> str" where
  "print_patch hs = join [nl] (print_patch_lines hs)"

fun old_side :: "diff_line \<Rightarrow> str list" where
  "old_side (Ctx s) = [s]"
| "old_side (Added s) = []"
| "old_side (Removed s) = [s]"

fun new_side :: "diff_line \<Rightarrow> str list" where
  "new_side (Ctx s) = [s]"
| "new_side (Added s) = [s]"
| "new_side (Removed s) = []"

definition denote_change :: "change \<Rightarrow> update_file_chunk" where
  "denote_change c =
     \<lparr>change_context = chg_context c, old_lines = concat (map old_side (chg_lines c)),
      new_lines = concat (map new_side (chg_lines c)), is_end_of_file = chg_eof c\<rparr>"

fun denote_hunk :: "hunk_syntax \<Rightarrow> hunk" where
  "denote_hunk (SAdd path ls) = AddFile path (concat (map (\<lambda>l. l @ [nl]) ls))"
| "denote_hunk (SDelete path) = DeleteFile path"
| "denote_hunk (SUpdate path mv changes) = UpdateFile path mv (map denote_change changes)"

subsection \<open>Well-formed syntax trees\<close>

text \<open>A printable line holds no line terminator; a path survives \<open>trim\<close>.\<close>

definition plain :: "str \<Rightarrow> bool" where
  "plain s \<longleftrightarrow> nl \<notin> set s \<and> (s = [] \<or> last s \<noteq> cr)"

definition plain_path :: "str \<Rightarrow> bool" where
  "plain_path s \<longleftrightarrow> plain s \<and> s \<noteq> [] \<and> \<not> is_ws (last s)"

fun diff_text :: "diff_line \<Rightarrow> str" where
  "diff_text (Ctx s) = s"
| "diff_text (Added s) = s"
| "diff_text (Removed s) = s"

text \<open>A context, like a path, may not end in white space: the streaming parser trims it.\<close>

definition wf_change :: "change \<Rightarrow> bool" where
  "wf_change c \<longleftrightarrow> chg_lines c \<noteq> [] \<and> list_all (plain \<circ> diff_text) (chg_lines c) \<and>
     (case chg_context c of None \<Rightarrow> True | Some s \<Rightarrow> plain_path s)"

fun wf_hunk :: "hunk_syntax \<Rightarrow> bool" where
  "wf_hunk (SAdd path ls) = (plain_path path \<and> list_all plain ls)"
| "wf_hunk (SDelete path) = plain_path path"
| "wf_hunk (SUpdate path mv changes) =
     (plain_path path \<and> (case mv of None \<Rightarrow> True | Some p \<Rightarrow> plain_path p) \<and>
      changes \<noteq> [] \<and> list_all wf_change changes)"

subsection \<open>Marker lines survive trimming\<close>

lemma is_ws_ascii [simp]:
  "\<not> is_ws 42" "\<not> is_ws 43" "\<not> is_ws 45" "\<not> is_ws 64" "is_ws 32" "\<not> is_ws 101" "\<not> is_ws 104"
  by (simp_all add: is_ws_def)

lemma trim_marked:
  assumes "m \<noteq> []" "\<not> is_ws (hd m)" "s \<noteq> []" "\<not> is_ws (last s)"
  shows "trim (m @ s) = m @ s" and "trim_end (m @ s) = m @ s"
  using assms by (auto intro!: trim_id trim_end_id)

lemma hd_markers [simp]:
  "hd ADD_FILE_MARKER = 42" "hd DELETE_FILE_MARKER = 42" "hd UPDATE_FILE_MARKER = 42"
  "hd MOVE_TO_MARKER = 42" "hd EOF_MARKER = 42" "hd CHANGE_CONTEXT_MARKER = 64"
  "hd EMPTY_CHANGE_CONTEXT_MARKER = 64" "hd BEGIN_PATCH_MARKER = 42" "hd END_PATCH_MARKER = 42"
  by (simp_all add: marker_defs str_simps)

lemma markers_not_Nil [simp]:
  "ADD_FILE_MARKER \<noteq> []" "DELETE_FILE_MARKER \<noteq> []" "UPDATE_FILE_MARKER \<noteq> []"
  "MOVE_TO_MARKER \<noteq> []" "EOF_MARKER \<noteq> []" "CHANGE_CONTEXT_MARKER \<noteq> []"
  "EMPTY_CHANGE_CONTEXT_MARKER \<noteq> []" "BEGIN_PATCH_MARKER \<noteq> []" "END_PATCH_MARKER \<noteq> []"
  by (simp_all add: marker_defs)

lemma trim_fixed_markers [simp]:
  "trim BEGIN_PATCH_MARKER = BEGIN_PATCH_MARKER" "trim END_PATCH_MARKER = END_PATCH_MARKER"
  "trim_end EOF_MARKER = EOF_MARKER" "trim_end END_PATCH_MARKER = END_PATCH_MARKER"
  "trim_end EMPTY_CHANGE_CONTEXT_MARKER = EMPTY_CHANGE_CONTEXT_MARKER"
  by (rule trim_id trim_end_id, simp add: marker_defs str_simps is_ws_def)+

lemma marker_prefix_clash:
  "strip_prefix ADD_FILE_MARKER (DELETE_FILE_MARKER @ s) = None"
  "strip_prefix ADD_FILE_MARKER (UPDATE_FILE_MARKER @ s) = None"
  "strip_prefix DELETE_FILE_MARKER (UPDATE_FILE_MARKER @ s) = None"
  "strip_prefix MOVE_TO_MARKER (CHANGE_CONTEXT_MARKER @ s) = None"
  "strip_prefix MOVE_TO_MARKER EMPTY_CHANGE_CONTEXT_MARKER = None"
  "strip_prefix CHANGE_CONTEXT_MARKER EMPTY_CHANGE_CONTEXT_MARKER = None"
  by (simp_all add: marker_defs str_simps)

lemma trim_header [simp]:
  assumes "plain_path p"
  shows "trim (ADD_FILE_MARKER @ p) = ADD_FILE_MARKER @ p"
    and "trim (DELETE_FILE_MARKER @ p) = DELETE_FILE_MARKER @ p"
    and "trim (UPDATE_FILE_MARKER @ p) = UPDATE_FILE_MARKER @ p"
  using assms by (simp_all add: trim_marked plain_path_def)

subsection \<open>Chunks\<close>

text \<open>A line at which a change ends: the next change or the next hunk header.\<close>

definition stops_change :: "str list \<Rightarrow> bool" where
  "stops_change rest \<longleftrightarrow> (case rest of [] \<Rightarrow> True | l # _ \<Rightarrow> l \<noteq> EOF_MARKER \<and> l \<noteq> [] \<and> hd l \<in> {42, 64})"

lemma print_diff_line_ne_EOF [simp]: "print_diff_line d \<noteq> EOF_MARKER"
  by (cases d) (simp_all add: marker_defs str_simps)

lemma chunk_lines_loop_diff:
  "chunk_lines_loop ln (print_diff_line d # rest) parsed chunk =
   chunk_lines_loop ln rest (parsed + 1)
     (chunk\<lparr>old_lines := old_lines chunk @ old_side d, new_lines := new_lines chunk @ new_side d\<rparr>)"
  using print_diff_line_ne_EOF [of d] by (cases d) (simp_all add: str_simps)

lemma chunk_lines_loop_stop:
  assumes "stops_change rest" and "0 < parsed"
  shows "chunk_lines_loop ln rest parsed chunk = Inr (chunk, parsed)"
proof (cases rest)
  case (Cons l ls)
  with assms obtain c b where "l = c # b" "c \<in> {42, 64}" "l \<noteq> EOF_MARKER"
    by (cases l) (auto simp: stops_change_def)
  with assms(2) Cons show ?thesis by auto
qed simp

lemma chunk_lines_loop_print:
  assumes "stops_change rest" and "0 < parsed + length ds"
  shows "chunk_lines_loop ln (map print_diff_line ds @ (if eof then [EOF_MARKER] else []) @ rest) parsed chunk
    = Inr (chunk\<lparr>old_lines := old_lines chunk @ concat (map old_side ds),
                 new_lines := new_lines chunk @ concat (map new_side ds),
                 is_end_of_file := (eof \<or> is_end_of_file chunk)\<rparr>,
           parsed + length ds + (if eof then 1 else 0))"
  using assms(2)
proof (induction ds arbitrary: parsed chunk)
  case Nil
  then show ?case
    using chunk_lines_loop_stop [OF assms(1)] by simp
next
  case (Cons d ds)
  show ?case
    using Cons.IH [of "parsed + 1"] chunk_lines_loop_diff by simp
qed

lemma parse_update_file_chunk_print:
  assumes "wf_change c" and "stops_change rest"
  shows "parse_update_file_chunk (print_change c @ rest) ln allow
    = Inr (denote_change c, length (print_change c))"
proof -
  have ne: "chg_lines c \<noteq> []" using assms(1) by (simp add: wf_change_def)
  have ctx: "(if print_ctx_line (chg_context c) = EMPTY_CHANGE_CONTEXT_MARKER then Inr (None, 1)
     else case strip_prefix CHANGE_CONTEXT_MARKER (print_ctx_line (chg_context c)) of
            Some context \<Rightarrow> Inr (Some context, 1)
          | None \<Rightarrow> if \<not> allow then Inl (InvalidHunkError (msg_expected_context x) ln) else Inr (None, 0))
     = Inr (chg_context c, 1 :: nat)" for x
    by (cases "chg_context c")
      (auto simp: print_ctx_line_def marker_defs str_simps)
  have loop: "chunk_lines_loop ln (map print_diff_line (chg_lines c) @
        (if chg_eof c then [EOF_MARKER] else []) @ rest) 0 (empty_chunk (chg_context c))
     = Inr (denote_change c, length (print_change c) - 1)"
    using ne by (subst chunk_lines_loop_print [OF assms(2)])
      (simp_all add: empty_chunk_def denote_change_def print_change_def)
  show ?thesis
    using ne ctx loop unfolding parse_update_file_chunk_def print_change_def
    by simp
qed

subsection \<open>Update hunks\<close>

text \<open>What may follow a hunk: nothing, or the header line of the next hunk.\<close>

definition stops_hunk :: "str list \<Rightarrow> bool" where
  "stops_hunk rest \<longleftrightarrow> (case rest of [] \<Rightarrow> True
     | l # _ \<Rightarrow> l \<noteq> [] \<and> hd l = 42 \<and> l \<noteq> EOF_MARKER)"

lemma stops_hunk_change: "stops_hunk rest \<Longrightarrow> stops_change rest"
  by (auto simp: stops_hunk_def stops_change_def split: list.splits)

lemma print_ctx_line_head:
  "print_ctx_line ctx \<noteq> []" "hd (print_ctx_line ctx) = 64" "print_ctx_line ctx \<noteq> EOF_MARKER"
  by (cases ctx; simp add: print_ctx_line_def marker_defs str_simps)+

lemma stops_change_changes:
  assumes "stops_hunk rest"
  shows "stops_change (concat (map print_change cs) @ rest)"
  using assms stops_hunk_change [OF assms] print_ctx_line_head
  by (cases cs) (auto simp: stops_change_def print_change_def)

lemma trim_ne_Nil: "l \<noteq> [] \<Longrightarrow> \<not> is_ws (hd l) \<Longrightarrow> trim l \<noteq> []"
proof -
  assume "l \<noteq> []" "\<not> is_ws (hd l)"
  then obtain c t where l: "l = c # t" "\<not> is_ws c" by (cases l) auto
  obtain w where "l = trim_end l @ w" "list_all is_ws w"
    using trim_end_prefix by blast
  with l have "trim_end l \<noteq> []" by (auto simp: list_all_iff)
  with l show ?thesis by (simp add: trim_def)
qed

lemma update_chunks_loop_stop:
  assumes "stops_hunk rest"
  shows "update_chunks_loop ln rest parsed chunks = Inr (chunks, parsed)"
proof (cases rest)
  case (Cons l ls)
  with assms obtain t where l: "l = 42 # t" by (cases l) (auto simp: stops_hunk_def)
  have "trim l \<noteq> []" using trim_ne_Nil [of l] l by simp
  with l Cons show ?thesis
    by (subst update_chunks_loop.simps) (simp add: starts_with_iff str_simps)
qed (simp add: update_chunks_loop.simps)

lemma update_chunks_loop_print:
  assumes "list_all wf_change cs" and "stops_hunk rest"
  shows "update_chunks_loop ln (concat (map print_change cs) @ rest) parsed chunks
    = Inr (chunks @ map denote_change cs, parsed + length (concat (map print_change cs)))"
  using assms(1)
proof (induction cs arbitrary: parsed chunks)
  case Nil
  then show ?case using update_chunks_loop_stop [OF assms(2)] by simp
next
  case (Cons c cs)
  let ?more = "concat (map print_change cs) @ rest"
  obtain l ls where first: "print_change c = l # ls" "l = print_ctx_line (chg_context c)"
    by (simp add: print_change_def)
  have l: "trim l \<noteq> []" "\<not> starts_with (lit ''*'') l"
    using print_ctx_line_head [of "chg_context c"] trim_ne_Nil [of l] first(2)
    by (auto simp: starts_with_iff str_simps)
  have "parse_update_file_chunk (print_change c @ ?more) (ln + parsed) (chunks = [])
      = Inr (denote_change c, length (print_change c))"
    using Cons.prems parse_update_file_chunk_print [OF _ stops_change_changes [OF assms(2)]] by simp
  then have "update_chunks_loop ln (print_change c @ ?more) parsed chunks =
      update_chunks_loop ln ?more (parsed + length (print_change c)) (chunks @ [denote_change c])"
    using l first by (subst update_chunks_loop.simps) simp
  then show ?case using Cons by (simp add: add.assoc)
qed

lemma add_lines_loop_print:
  assumes "stops_hunk rest"
  shows "add_lines_loop (map (\<lambda>l. lit ''+'' @ l) ls @ rest) contents parsed =
    (contents @ concat (map (\<lambda>l. l @ [nl]) ls), parsed + length ls)"
proof (induction ls arbitrary: contents parsed)
  case Nil
  show ?case
    using assms by (cases rest) (auto simp: stops_hunk_def str_simps neq_Nil_conv)
next
  case (Cons l ls)
  then show ?case by simp
qed

lemma parse_one_hunk_print:
  assumes "wf_hunk h" and "stops_hunk rest"
  shows "parse_one_hunk (print_hunk h @ rest) ln = Inr (denote_hunk h, length (print_hunk h))"
proof (cases h)
  case (SAdd path ls)
  with assms show ?thesis
    by (simp add: parse_one_hunk_def Let_def add_lines_loop_print)
next
  case (SDelete path)
  with assms show ?thesis
    by (simp add: parse_one_hunk_def Let_def marker_prefix_clash)
next
  case (SUpdate path mv changes)
  then obtain c cs where cs: "changes = c # cs" using assms(1) by (cases changes) auto
  have mv: "Option.bind (first_opt ((case mv of None \<Rightarrow> [] | Some p \<Rightarrow> [MOVE_TO_MARKER @ p])
      @ concat (map print_change changes) @ rest)) (strip_prefix MOVE_TO_MARKER) = mv"
    by (cases mv; cases "chg_context c")
      (simp_all add: cs print_change_def print_ctx_line_def marker_prefix_clash)
  have wf: "list_all wf_change changes" using assms(1) SUpdate by simp
  show ?thesis
    using assms SUpdate cs mv update_chunks_loop_print [OF wf assms(2), of ln _ "[]"]
    by (cases mv) (simp_all add: parse_one_hunk_def Let_def marker_prefix_clash)
qed

subsection \<open>Whole patches\<close>

lemma stops_hunk_hunks: "stops_hunk (concat (map print_hunk hs))"
proof (cases hs)
  case (Cons h hs)
  then show ?thesis
    by (cases h) (simp_all add: stops_hunk_def marker_defs str_simps)
qed (simp add: stops_hunk_def)

lemma print_hunk_not_Nil [simp]: "print_hunk h \<noteq> []"
  by (cases h) auto

lemma hunks_loop_print:
  assumes "list_all wf_hunk hs"
  shows "hunks_loop (concat (map print_hunk hs)) ln hunks = Inr (hunks @ map denote_hunk hs)"
  using assms
proof (induction hs arbitrary: ln hunks)
  case (Cons h hs)
  let ?rest = "concat (map print_hunk hs)"
  have "parse_one_hunk (print_hunk h @ ?rest) ln = Inr (denote_hunk h, length (print_hunk h))"
    using Cons.prems parse_one_hunk_print [OF _ stops_hunk_hunks] by simp
  then have "hunks_loop (print_hunk h @ ?rest) ln hunks =
      hunks_loop ?rest (ln + length (print_hunk h)) (hunks @ [denote_hunk h])"
    by (subst hunks_loop.simps) simp
  with Cons show ?case by simp
qed simp

lemma plain_append: "plain s \<Longrightarrow> nl \<notin> set m \<Longrightarrow> (s = [] \<longrightarrow> m = [] \<or> last m \<noteq> cr) \<Longrightarrow> plain (m @ s)"
  by (auto simp: plain_def last_append)

lemma plain_markers [simp]:
  "plain BEGIN_PATCH_MARKER" "plain END_PATCH_MARKER" "plain EOF_MARKER"
  "plain EMPTY_CHANGE_CONTEXT_MARKER"
  by (simp_all add: plain_def marker_defs str_simps nl_def cr_def)

lemma plain_marked [simp]:
  assumes "plain s"
  shows "plain (ADD_FILE_MARKER @ s)" "plain (DELETE_FILE_MARKER @ s)"
    "plain (UPDATE_FILE_MARKER @ s)" "plain (MOVE_TO_MARKER @ s)"
    "plain (CHANGE_CONTEXT_MARKER @ s)" "plain (lit ''+'' @ s)" "plain (lit '' '' @ s)"
    "plain (lit ''-'' @ s)"
  by (rule plain_append [OF assms]; simp add: marker_defs str_simps nl_def cr_def)+

lemma plain_print_diff_line: "plain (diff_text d) \<Longrightarrow> plain (print_diff_line d)"
  by (cases d) simp_all

lemma plain_print_change:
  assumes "wf_change c" and "l \<in> set (print_change c)"
  shows "plain l"
  using assms
  by (auto simp: print_change_def wf_change_def print_ctx_line_def plain_path_def list_all_iff
      plain_print_diff_line split: option.splits if_splits)

lemma plain_print_hunk:
  assumes "wf_hunk h" and "l \<in> set (print_hunk h)"
  shows "plain l"
  using assms
proof (cases h)
  case (SUpdate path mv changes)
  with assms show ?thesis
    by (auto simp: plain_path_def list_all_iff dest: plain_print_change split: option.splits)
qed (auto simp: plain_path_def list_all_iff)

lemma plain_print_patch_lines:
  assumes "list_all wf_hunk hs" and "l \<in> set (print_patch_lines hs)"
  shows "plain l"
  using assms by (auto simp: print_patch_lines_def list_all_iff dest: plain_print_hunk)

lemma str_lines_print_patch:
  assumes "list_all wf_hunk hs"
  shows "str_lines (print_patch hs) = print_patch_lines hs"
  unfolding print_patch_def
proof (rule str_lines_join)
  show "print_patch_lines hs \<noteq> []" "last (print_patch_lines hs) \<noteq> []"
    by (simp_all add: print_patch_lines_def)
qed (use plain_print_patch_lines [OF assms] in \<open>auto simp: plain_def\<close>)

lemma trim_print_patch: "trim (print_patch hs) = print_patch hs"
proof (rule trim_id)
  let ?ls = "BEGIN_PATCH_MARKER # concat (map print_hunk hs)"
  have eq: "print_patch hs = join [nl] ?ls @ [nl] @ END_PATCH_MARKER"
    unfolding print_patch_def print_patch_lines_def using join_snoc [of ?ls] by simp
  have "hd (join [nl] ?ls) = 42" "join [nl] ?ls \<noteq> []"
    by (cases "concat (map print_hunk hs)"; simp)+
  moreover have "last END_PATCH_MARKER = 104" by (simp add: marker_defs str_simps)
  ultimately show "print_patch hs = [] \<or> \<not> is_ws (hd (print_patch hs)) \<and> \<not> is_ws (last (print_patch hs))"
    by (simp add: eq)
qed

lemma check_boundaries_print:
  "check_patch_boundaries_strict (print_patch_lines hs) =
     Inr (print_patch_lines hs, concat (map print_hunk hs))"
  unfolding print_patch_lines_def by (rule check_patch_boundaries_strict_ok) simp_all

lemma no_preamble_print:
  "parse_environment_id_preamble (concat (map print_hunk hs)) = Inr (None, concat (map print_hunk hs), 2)"
proof (cases hs)
  case (Cons h hs')
  show ?thesis
    by (cases h) (simp_all add: Cons parse_environment_id_preamble_def marker_defs str_simps)
qed (simp add: parse_environment_id_preamble_def)

lemma parse_patch_print:
  assumes "list_all wf_hunk hs"
  shows "parse_patch (print_patch hs) =
    Inr \<lparr>args_patch = print_patch hs, args_hunks = map denote_hunk hs,
         args_workdir = None, args_environment_id = None\<rparr>"
  using assms
  by (simp add: parse_patch_def PARSE_IN_STRICT_MODE_def parse_patch_text_def Let_def
      trim_print_patch str_lines_print_patch check_patch_boundaries_lenient_def
      check_boundaries_print no_preamble_print hunks_loop_print print_patch_def [symmetric])

subsection \<open>Properties\<close>

text \<open>C4. The parser accepts the documented grammar: the text printed for any list of well-formed
  hunks parses to exactly the hunks it stands for, with the text itself kept as the patch.\<close>

theorem parse_patch_round_trip:
  assumes "list_all wf_hunk hs"
  shows "parse_patch (print_patch hs) =
    Inr \<lparr>args_patch = print_patch hs, args_hunks = map denote_hunk hs,
         args_workdir = None, args_environment_id = None\<rparr>"
  by (rule parse_patch_print [OF assms])

theorem parse_patch_round_trip_witness:
  "parse_patch (print_patch [SAdd (lit ''n'') [lit ''x''],
     SUpdate (lit ''f'') (Some (lit ''g''))
       [\<lparr>chg_context = Some (lit ''fn''), chg_lines = [Ctx (lit ''a''), Removed (lit ''b''), Added []], chg_eof = True\<rparr>]]) =
   Inr \<lparr>args_patch = print_patch [SAdd (lit ''n'') [lit ''x''],
     SUpdate (lit ''f'') (Some (lit ''g''))
       [\<lparr>chg_context = Some (lit ''fn''), chg_lines = [Ctx (lit ''a''), Removed (lit ''b''), Added []], chg_eof = True\<rparr>]],
     args_hunks = map denote_hunk [SAdd (lit ''n'') [lit ''x''],
     SUpdate (lit ''f'') (Some (lit ''g''))
       [\<lparr>chg_context = Some (lit ''fn''), chg_lines = [Ctx (lit ''a''), Removed (lit ''b''), Added []], chg_eof = True\<rparr>]],
     args_workdir = None, args_environment_id = None\<rparr>"
  by (rule parse_patch_round_trip)
    (simp add: plain_path_def plain_def wf_change_def is_ws_def str_simps nl_def cr_def)

end
