(* ===== verification/SeekSequence.thy ===== *)
theory SeekSequence
  imports Prelude
begin

text \<open>
  The fuzzy line search of the patch applier, \<open>apply-patch/src/seek_sequence.rs\<close>: four passes
  of decreasing strictness over the same range of start indices.  The lemmas characterise what a
  returned index guarantees, when nothing is found, and which pass wins.
\<close>

subsection \<open>The routine\<close>

definition normalise_char :: "uchar \<Rightarrow> uchar" where
  "normalise_char c =
     (if c \<in> {0x2010, 0x2011, 0x2012, 0x2013, 0x2014, 0x2015, 0x2212} then 45
      else if c \<in> {0x2018, 0x2019, 0x201A, 0x201B} then 39
      else if c \<in> {0x201C, 0x201D, 0x201E, 0x201F} then 34
      else if c \<in> {0x00A0, 0x2002, 0x2003, 0x2004, 0x2005, 0x2006, 0x2007, 0x2008, 0x2009,
                   0x200A, 0x202F, 0x205F, 0x3000} then 32
      else c)"

definition normalise :: "str \<Rightarrow> str" where
  "normalise s = map normalise_char (trim s)"

text \<open>One candidate position: the pattern's lines against the file's lines from \<open>i\<close> on, both
  seen through \<open>f\<close>.  The first pass compares the slices themselves.\<close>

definition lines_match :: "(str \<Rightarrow> str) \<Rightarrow> str list \<Rightarrow> str list \<Rightarrow> nat \<Rightarrow> bool" where
  "lines_match f file pattern i =
     list_all (\<lambda>(p_idx, pat). f (file ! (i + p_idx)) = f pat) (enumerate 0 pattern)"

definition exact_match :: "str list \<Rightarrow> str list \<Rightarrow> nat \<Rightarrow> bool" where
  "exact_match file pattern i = (take (length pattern) (drop i file) = pattern)"

definition seek_sequence :: "str list \<Rightarrow> str list \<Rightarrow> nat \<Rightarrow> bool \<Rightarrow> nat option" where
  "seek_sequence file pattern start eof =
     (if pattern = [] then Some start
      else if length pattern > length file then None
      else
        let search_start =
              (if eof \<and> length file \<ge> length pattern then length file - length pattern else start);
            range = [search_start ..< Suc (length file - length pattern)]
        in case find (exact_match file pattern) range of Some i \<Rightarrow> Some i | None \<Rightarrow>
           (case find (lines_match trim_end file pattern) range of Some i \<Rightarrow> Some i | None \<Rightarrow>
           (case find (lines_match trim file pattern) range of Some i \<Rightarrow> Some i | None \<Rightarrow>
            find (lines_match normalise file pattern) range)))"

subsection \<open>Levels of matching\<close>

lemma lines_match_iff:
  "lines_match f file pattern i \<longleftrightarrow> (\<forall>k < length pattern. f (file ! (i + k)) = f (pattern ! k))"
  by (simp add: lines_match_def list_all_length nth_enumerate_eq)

lemma exact_match_iff:
  assumes "i + length pattern \<le> length file"
  shows "exact_match file pattern i \<longleftrightarrow> lines_match id file pattern i"
proof -
  have "exact_match file pattern i \<longleftrightarrow>
      (\<forall>k < length pattern. take (length pattern) (drop i file) ! k = pattern ! k)"
    using assms by (simp add: exact_match_def list_eq_iff_nth_eq)
  with assms show ?thesis by (simp add: lines_match_iff)
qed

lemma normalise_of_trim: "trim s = trim t \<Longrightarrow> normalise s = normalise t"
  by (simp add: normalise_def)

lemma lines_match_trim_end_normalise:
  "lines_match trim_end file pattern i \<Longrightarrow> lines_match normalise file pattern i"
  by (auto simp: lines_match_iff intro: normalise_of_trim trim_end_eq_imp_trim_eq)

lemma lines_match_trim_normalise:
  "lines_match trim file pattern i \<Longrightarrow> lines_match normalise file pattern i"
  by (auto simp: lines_match_iff intro: normalise_of_trim)

lemma lines_match_id_normalise:
  "lines_match id file pattern i \<Longrightarrow> lines_match normalise file pattern i"
  by (simp add: lines_match_iff)

subsection \<open>Least-index search\<close>

lemma find_upt_Some:
  "find P [a..<b] = Some i \<longleftrightarrow> a \<le> i \<and> i < b \<and> P i \<and> (\<forall>j. a \<le> j \<and> j < i \<longrightarrow> \<not> P j)"
  (is "?l \<longleftrightarrow> ?r")
proof
  assume ?l
  then obtain k where k: "k < b - a" "P (a + k)" "i = a + k" "\<And>m. m < k \<Longrightarrow> \<not> P (a + m)"
    by (auto simp: find_Some_iff)
  have "\<not> P j" if "a \<le> j" "j < i" for j
    using k(4) [of "j - a"] k(3) that by auto
  with k show ?r by auto
next
  assume ?r
  then show ?l
    unfolding find_Some_iff by (intro exI [of _ "i - a"]) auto
qed

lemma find_upt_None: "find P [a..<b] = None \<longleftrightarrow> (\<forall>i. a \<le> i \<and> i < b \<longrightarrow> \<not> P i)"
  by (auto simp: find_None_iff)

lemma seek_sequence_Nil [simp]: "seek_sequence file [] start eof = Some start"
  by (simp add: seek_sequence_def)

lemma seek_sequence_too_long: "length file < length pattern \<Longrightarrow> seek_sequence file pattern start eof = None"
  by (auto simp: seek_sequence_def)

text \<open>The four passes over an explicit range.\<close>

definition search_from :: "str list \<Rightarrow> str list \<Rightarrow> nat \<Rightarrow> bool \<Rightarrow> nat" where
  "search_from file pattern start eof = (if eof then length file - length pattern else start)"

lemma seek_sequence_eq_Some:
  assumes "pattern \<noteq> []" and "length pattern \<le> length file"
    and "seek_sequence file pattern start eof = Some i"
  shows "search_from file pattern start eof \<le> i \<and> i \<le> length file - length pattern \<and>
    (exact_match file pattern i \<or> lines_match trim_end file pattern i \<or>
     lines_match trim file pattern i \<or> lines_match normalise file pattern i)"
proof -
  define hi where "hi = Suc (length file - length pattern)"
  have "search_from file pattern start eof \<le> i \<and> i < hi \<and>
    (exact_match file pattern i \<or> lines_match trim_end file pattern i \<or>
     lines_match trim file pattern i \<or> lines_match normalise file pattern i)"
    using assms unfolding seek_sequence_def Let_def search_from_def [symmetric] hi_def [symmetric]
    by (auto simp: find_upt_Some search_from_def split: option.splits)
  then show ?thesis by (simp add: hi_def less_Suc_eq_le)
qed

lemma seek_sequence_eq_None:
  assumes "length pattern \<le> length file"
    and "seek_sequence file pattern start eof = None"
    and "search_from file pattern start eof \<le> i" "i \<le> length file - length pattern"
  shows "\<not> lines_match normalise file pattern i"
proof -
  define hi where "hi = Suc (length file - length pattern)"
  have "i < hi" using assms by (simp add: hi_def)
  with assms show ?thesis
    unfolding seek_sequence_def Let_def search_from_def [symmetric] hi_def [symmetric]
    by (auto simp: find_upt_None search_from_def split: option.splits if_splits)
qed

text \<open>What a returned index guarantees: it lies in the searched range, the whole pattern fits
  before the end of the file, and every pattern line equals its file line after normalisation.\<close>

lemma seek_sequence_sound:
  assumes "seek_sequence file pattern start eof = Some i" and "pattern \<noteq> []"
  shows "i + length pattern \<le> length file"
    and "lines_match normalise file pattern i"
    and "eof \<Longrightarrow> i = length file - length pattern"
    and "\<not> eof \<Longrightarrow> start \<le> i"
proof -
  have len: "length pattern \<le> length file"
    using assms seek_sequence_too_long by (metis linorder_not_less option.distinct(1))
  note r = seek_sequence_eq_Some [OF assms(2) len assms(1)]
  with len show le: "i + length pattern \<le> length file" by auto
  show "lines_match normalise file pattern i"
    using r exact_match_iff [OF le] lines_match_id_normalise lines_match_trim_end_normalise
      lines_match_trim_normalise by blast
  show "eof \<Longrightarrow> i = length file - length pattern" and "\<not> eof \<Longrightarrow> start \<le> i"
    using r by (auto simp: search_from_def)
qed

lemma seek_sequence_bound:
  assumes "seek_sequence file pattern start eof = Some i" and "start \<le> length file"
  shows "i + length pattern \<le> length file"
  using assms seek_sequence_sound(1) [OF assms(1)] by (cases "pattern = []") auto

lemma seek_sequence_ge_start:
  assumes "seek_sequence file pattern start False = Some i"
  shows "start \<le> i"
  using assms seek_sequence_sound(4) [OF assms] by (cases "pattern = []") auto

subsection \<open>Properties\<close>



text \<open>An exact occurrence always wins: when the pattern occurs literally in the searched range,
  the result is the first literal occurrence, whatever looser matches precede it.\<close>

theorem seek_sequence_prefers_exact:
  assumes "exact_match file pattern k" and "pattern \<noteq> []"
    and "search_from file pattern start eof \<le> k" and "k + length pattern \<le> length file"
  shows "\<exists>i \<le> k. seek_sequence file pattern start eof = Some i \<and> exact_match file pattern i \<and>
    (\<forall>j. search_from file pattern start eof \<le> j \<longrightarrow> j < i \<longrightarrow> \<not> exact_match file pattern j)"
proof -
  define hi where "hi = Suc (length file - length pattern)"
  have k: "k < hi" using assms by (simp add: hi_def)
  obtain i where i: "find (exact_match file pattern) [search_from file pattern start eof ..< hi] = Some i"
    using find_upt_None [of "exact_match file pattern"] assms(1,3) k by fastforce
  then have "seek_sequence file pattern start eof = Some i"
    using assms(2,4) unfolding seek_sequence_def Let_def search_from_def [symmetric] hi_def [symmetric]
    by (simp add: search_from_def)
  with i assms(1,3) k show ?thesis by (auto simp: find_upt_Some not_le_imp_less intro!: exI [of _ i] leI)
qed

theorem seek_sequence_prefers_exact_witness:
  "\<exists>i \<le> 1. seek_sequence [lit '' b'', lit ''b''] [lit ''b''] 0 False = Some i \<and>
    exact_match [lit '' b'', lit ''b''] [lit ''b''] i \<and>
    (\<forall>j. search_from [lit '' b'', lit ''b''] [lit ''b''] 0 False \<le> j \<longrightarrow> j < i \<longrightarrow>
      \<not> exact_match [lit '' b'', lit ''b''] [lit ''b''] j)"
  by (rule seek_sequence_prefers_exact) (simp_all add: exact_match_def search_from_def)

text \<open>With the end-of-file flag only the last position of the file is tried: when the pattern
  does not match the file's final lines nothing is found, even if it occurs earlier.\<close>

theorem seek_sequence_eof_no_fallback:
  assumes "pattern \<noteq> []" and "length pattern \<le> length file"
    and "\<not> lines_match normalise file pattern (length file - length pattern)"
  shows "seek_sequence file pattern start True = None"
  using assms seek_sequence_sound(2,3) [of "file" pattern start True]
  by (cases "seek_sequence file pattern start True") auto

theorem seek_sequence_eof_no_fallback_witness:
  "seek_sequence [lit ''a'', lit ''b''] [lit ''a''] 0 True = None"
  by (rule seek_sequence_eof_no_fallback)
    (simp_all add: lines_match_def normalise_def normalise_char_def trim_def trim_end_def trim_start_def
      is_ws_def str_simps enumerate_eq_zip)

end
