(* ===== verification/PatchReplace.thy ===== *)
theory PatchReplace
  imports PatchParser SeekSequence
begin

text \<open>
  How an update hunk turns the lines of a file into new lines, \<open>apply-patch/src/lib.rs\<close>:
  \<open>compute_replacements\<close> locates every chunk, \<open>apply_replacements\<close> edits the vector of lines
  back to front, and \<open>derive_new_contents_from_chunks\<close> wraps both between splitting and joining
  the file's text.  The specification is \<open>splice\<close>, which copies the file left to right and
  puts each replacement in its place.  The lemmas show that the vector edits never index out of
  range and that they compute \<open>splice\<close> whenever the replacements are ordered and disjoint, and
  for which chunks the located replacements are.
\<close>

type_synonym replacement = "nat \<times> nat \<times> str list"

subsection \<open>Locating the chunks\<close>

definition msg_context_missing :: "str \<Rightarrow> str \<Rightarrow> str" where
  "msg_context_missing ctx path = lit ''Failed to find context '' @ quoted ctx @ lit '' in '' @ path"

definition msg_lines_missing :: "str list \<Rightarrow> str \<Rightarrow> str" where
  "msg_lines_missing old path =
     lit ''Failed to find expected lines in '' @ path @ lit '':'' @ [nl] @ join [nl] old"

definition seek_context ::
  "str list \<Rightarrow> str \<Rightarrow> str option \<Rightarrow> nat \<Rightarrow> str + nat" where
  "seek_context original_lines path ctx line_index =
     (case ctx of
        None \<Rightarrow> Inr line_index
      | Some ctx_line \<Rightarrow>
          (case seek_sequence original_lines [ctx_line] line_index False of
             Some idx \<Rightarrow> Inr (idx + 1)
           | None \<Rightarrow> Inl (msg_context_missing ctx_line path)))"

definition insertion_index :: "str list \<Rightarrow> nat" where
  "insertion_index original_lines =
     (if last_opt original_lines = Some [] then length original_lines - 1
      else length original_lines)"

text \<open>The search for a chunk's old lines, with the retry that drops a trailing empty line from
  the pattern (and from the new lines): the pattern used, the new lines used, and the position.\<close>

definition locate_old_lines ::
  "str list \<Rightarrow> update_file_chunk \<Rightarrow> nat \<Rightarrow> str list \<times> str list \<times> nat option" where
  "locate_old_lines original_lines chunk line_index =
     (let pattern = old_lines chunk;
          new_slice = new_lines chunk;
          found = seek_sequence original_lines pattern line_index (is_end_of_file chunk)
      in if found = None \<and> last_opt pattern = Some [] then
           (let pattern' = butlast pattern;
                new_slice' = (if last_opt new_slice = Some [] then butlast new_slice else new_slice)
            in (pattern', new_slice',
                seek_sequence original_lines pattern' line_index (is_end_of_file chunk)))
         else (pattern, new_slice, found))"

fun replacements_loop ::
  "str list \<Rightarrow> str \<Rightarrow> update_file_chunk list \<Rightarrow> nat \<Rightarrow> replacement list \<Rightarrow> str + replacement list" where
  "replacements_loop original_lines path [] line_index replacements = Inr replacements"
| "replacements_loop original_lines path (chunk # chunks) line_index replacements =
     (case seek_context original_lines path (change_context chunk) line_index of
        Inl e \<Rightarrow> Inl e
      | Inr line_index \<Rightarrow>
          if old_lines chunk = [] then
            replacements_loop original_lines path chunks line_index
              (replacements @ [(insertion_index original_lines, 0, new_lines chunk)])
          else
            (case locate_old_lines original_lines chunk line_index of
               (pattern, new_slice, Some start_idx) \<Rightarrow>
                 replacements_loop original_lines path chunks (start_idx + length pattern)
                   (replacements @ [(start_idx, length pattern, new_slice)])
             | (pattern, new_slice, None) \<Rightarrow>
                 Inl (msg_lines_missing (old_lines chunk) path)))"

text \<open>\<open>compute_replacements\<close>; the error is the text of \<open>ApplyPatchError::ComputeReplacements\<close>.
  \<open>sort_by_key\<close> is the stable \<open>sort_key\<close>.\<close>

definition compute_replacements ::
  "str list \<Rightarrow> str \<Rightarrow> update_file_chunk list \<Rightarrow> str + replacement list" where
  "compute_replacements original_lines path chunks =
     and_then (replacements_loop original_lines path chunks 0 [])
       (\<lambda>replacements. Inr (sort_key fst replacements))"

subsection \<open>Editing the vector\<close>

text \<open>\<open>Vec::remove\<close> under its guard, repeated; \<open>Vec::insert\<close> panics (\<open>None\<close>) when the index
  is beyond the length.\<close>

fun remove_lines :: "str list \<Rightarrow> nat \<Rightarrow> nat \<Rightarrow> str list" where
  "remove_lines lines start_idx 0 = lines"
| "remove_lines lines start_idx (Suc old_len) =
     remove_lines
       (if start_idx < length lines then take start_idx lines @ drop (Suc start_idx) lines else lines)
       start_idx old_len"

definition vec_insert :: "nat \<Rightarrow> 'a \<Rightarrow> 'a list \<Rightarrow> 'a list option" where
  "vec_insert i x xs = (if i \<le> length xs then Some (take i xs @ x # drop i xs) else None)"

fun insert_lines :: "str list \<Rightarrow> nat \<Rightarrow> str list \<Rightarrow> str list option" where
  "insert_lines lines idx [] = Some lines"
| "insert_lines lines idx (new_line # segment) =
     (case vec_insert idx new_line lines of
        None \<Rightarrow> None
      | Some lines' \<Rightarrow> insert_lines lines' (Suc idx) segment)"

fun apply_reversed :: "str list \<Rightarrow> replacement list \<Rightarrow> str list option" where
  "apply_reversed lines [] = Some lines"
| "apply_reversed lines ((start_idx, old_len, new_segment) # rest) =
     (case insert_lines (remove_lines lines start_idx old_len) start_idx new_segment of
        None \<Rightarrow> None
      | Some lines' \<Rightarrow> apply_reversed lines' rest)"

definition apply_replacements :: "str list \<Rightarrow> replacement list \<Rightarrow> str list option" where
  "apply_replacements lines replacements = apply_reversed lines (rev replacements)"

subsection \<open>The file's text\<close>

datatype derive_error = ComputeReplacements str | ApplyPanic

definition split_file_lines :: "str \<Rightarrow> str list" where
  "split_file_lines original_contents =
     (let original_lines = split_on nl original_contents
      in if last_opt original_lines = Some [] then butlast original_lines else original_lines)"

definition join_file_lines :: "str list \<Rightarrow> str" where
  "join_file_lines edited =
     (let edited' = (if last_opt edited \<noteq> Some [] then edited @ [[]] else edited)
      in join [nl] edited')"

text \<open>\<open>derive_new_contents_from_chunks\<close> after the file was read.\<close>

definition derive_new_contents :: "str \<Rightarrow> str \<Rightarrow> update_file_chunk list \<Rightarrow> derive_error + str" where
  "derive_new_contents path original_contents chunks =
     (let original_lines = split_file_lines original_contents in
      case compute_replacements original_lines path chunks of
        Inl e \<Rightarrow> Inl (ComputeReplacements e)
      | Inr replacements \<Rightarrow>
          (case apply_replacements original_lines replacements of
             None \<Rightarrow> Inl ApplyPanic
           | Some edited \<Rightarrow> Inr (join_file_lines edited)))"

subsection \<open>Editing is splicing\<close>

lemma remove_lines_eq:
  assumes "s \<le> length ls"
  shows "remove_lines ls s n = take s ls @ drop (s + n) ls"
  using assms
proof (induction n arbitrary: ls)
  case (Suc n)
  then show ?case
    by (cases "s < length ls") (auto simp: min_def add.commute)
qed simp

lemma insert_lines_eq:
  assumes "i \<le> length ls"
  shows "insert_lines ls i seg = Some (take i ls @ seg @ drop i ls)"
  using assms
proof (induction seg arbitrary: ls i)
  case (Cons l seg)
  then show ?case by (auto simp: vec_insert_def min_def)
qed simp

text \<open>One replacement as a whole.\<close>

definition replace_at :: "nat \<Rightarrow> nat \<Rightarrow> 'a list \<Rightarrow> 'a list \<Rightarrow> 'a list" where
  "replace_at s n new ls = take s ls @ new @ drop (s + n) ls"

lemma apply_reversed_Cons:
  assumes "s \<le> length ls"
  shows "apply_reversed ls ((s, n, new) # rest) = apply_reversed (replace_at s n new ls) rest"
  using assms by (simp add: remove_lines_eq insert_lines_eq replace_at_def)

lemma length_replace_at_ge: "s \<le> length ls \<Longrightarrow> s \<le> length (replace_at s n new ls)"
  by (simp add: replace_at_def)

lemma apply_reversed_total:
  assumes "sorted_wrt (\<ge>) (map fst reps)" and "\<And>r. r \<in> set reps \<Longrightarrow> fst r \<le> length ls"
  shows "\<exists>res. apply_reversed ls reps = Some res"
  using assms
proof (induction reps arbitrary: ls)
  case (Cons r reps)
  obtain s n new where r: "r = (s, n, new)" by (cases r)
  with Cons.prems have s: "s \<le> length ls" by force
  have "\<exists>res. apply_reversed (replace_at s n new ls) reps = Some res"
  proof (rule Cons.IH)
    show "sorted_wrt (\<ge>) (map fst reps)" using Cons.prems by simp
    show "fst q \<le> length (replace_at s n new ls)" if "q \<in> set reps" for q
      using Cons.prems(1) that r length_replace_at_ge [OF s, of n new] by fastforce
  qed
  with s r show ?case by (simp only: apply_reversed_Cons)
qed simp

text \<open>Left-to-right specification: \<open>pos\<close> is the number of lines copied or replaced so far.\<close>

fun splice :: "nat \<Rightarrow> str list \<Rightarrow> replacement list \<Rightarrow> str list" where
  "splice pos file [] = drop pos file"
| "splice pos file ((s, n, new) # reps) =
     take (s - pos) (drop pos file) @ new @ splice (s + n) file reps"

fun rep_end :: "replacement \<Rightarrow> nat" where
  "rep_end (s, n, new) = s + n"

definition disjoint_reps :: "replacement list \<Rightarrow> bool" where
  "disjoint_reps = sorted_wrt (\<lambda>r q. rep_end r \<le> fst q)"

lemma splice_shift:
  assumes "pos \<le> p" "p \<le> length file" "\<And>r. r \<in> set reps \<Longrightarrow> p \<le> fst r"
  shows "splice pos file reps = take (p - pos) (drop pos file) @ splice p file reps"
proof (cases reps)
  case Nil
  with assms show ?thesis
    using append_take_drop_id [of "p - pos" "drop pos file"] by simp
next
  case (Cons r reps')
  obtain s n new where r: "r = (s, n, new)" by (cases r)
  with Cons assms have "p \<le> s" by force
  then have "take (s - pos) (drop pos file) = take (p - pos) (drop pos file) @ take (s - p) (drop p file)"
    using assms take_add [of "p - pos" "s - p" "drop pos file"] by simp
  with Cons r show ?thesis by simp
qed

text \<open>Applying the last replacement first leaves the text before it, and so all the earlier
  replacements, untouched.\<close>

lemma splice_replace_last:
  assumes "disjoint_reps (reps @ [(s, n, new)])" "s \<le> length file" "pos \<le> s"
    and "\<And>r. r \<in> set reps \<Longrightarrow> pos \<le> fst r"
  shows "splice pos (replace_at s n new file) reps = splice pos file (reps @ [(s, n, new)])"
  using assms
proof (induction reps arbitrary: pos)
  case Nil
  then show ?case
    by (simp add: replace_at_def drop_take)
next
  case (Cons r reps)
  obtain s' n' new' where r: "r = (s', n', new')" by (cases r)
  have e: "s' + n' \<le> s" "pos \<le> s'"
    using Cons.prems(1) Cons.prems(4) [of r] r by (auto simp: disjoint_reps_def)
  have IH: "splice (s' + n') (replace_at s n new file) reps = splice (s' + n') file (reps @ [(s, n, new)])"
    by (rule Cons.IH) (use Cons.prems r e in \<open>auto simp: disjoint_reps_def\<close>)
  have "take (s' - pos) (drop pos (replace_at s n new file)) = take (s' - pos) (drop pos file)"
    using e Cons.prems by (simp add: replace_at_def drop_take min_def)
  with IH r show ?case by simp
qed

lemma apply_replacements_splice:
  assumes "disjoint_reps reps" and "\<And>r. r \<in> set reps \<Longrightarrow> fst r \<le> length ls"
  shows "apply_replacements ls reps = Some (splice 0 ls reps)"
  using assms
proof (induction reps arbitrary: ls rule: rev_induct)
  case Nil
  then show ?case by (simp add: apply_replacements_def)
next
  case (snoc r reps)
  obtain s n new where r: "r = (s, n, new)" by (cases r)
  have s: "s \<le> length ls" using snoc.prems r by force
  have d: "disjoint_reps reps" using snoc.prems by (simp add: disjoint_reps_def sorted_wrt_append)
  have b: "fst q \<le> length (replace_at s n new ls)" if "q \<in> set reps" for q
  proof -
    have "rep_end q \<le> s" using snoc.prems(1) that r by (simp add: disjoint_reps_def sorted_wrt_append)
    then show ?thesis using length_replace_at_ge [OF s, of n new] by (cases q) simp
  qed
  have "apply_replacements ls (reps @ [r]) = apply_replacements (replace_at s n new ls) reps"
    unfolding apply_replacements_def using apply_reversed_Cons [OF s] by (simp add: r)
  also have "\<dots> = Some (splice 0 (replace_at s n new ls) reps)"
    by (rule snoc.IH [OF d b])
  also have "\<dots> = Some (splice 0 ls (reps @ [r]))"
    using splice_replace_last [of reps s n new ls 0] snoc.prems(1) s r by simp
  finally show ?case .
qed

subsection \<open>Where the chunks are found\<close>

text \<open>A replacement that was located by searching: its region lies in the file and its old lines
  agree with the file's lines there after normalisation.\<close>

definition located :: "str list \<Rightarrow> update_file_chunk \<Rightarrow> replacement \<Rightarrow> bool" where
  "located file chunk r = (case r of (s, n, new) \<Rightarrow>
     s + n \<le> length file \<and>
     (\<exists>pattern. n = length pattern \<and> lines_match normalise file pattern s \<and>
        (pattern = old_lines chunk \<and> new = new_lines chunk \<or>
         old_lines chunk = pattern @ [[]] \<and>
         new = (if last_opt (new_lines chunk) = Some [] then butlast (new_lines chunk)
                else new_lines chunk))))"

lemma lines_match_Nil [simp]: "lines_match f file [] i"
  by (simp add: lines_match_def)

lemma seek_context_bounds:
  assumes "seek_context file path ctx i = Inr j" and "i \<le> length file"
  shows "i \<le> j \<and> j \<le> length file"
proof (cases ctx)
  case (Some line)
  with assms(1) obtain idx where "seek_sequence file [line] i False = Some idx" "j = idx + 1"
    by (auto simp: seek_context_def split: option.splits)
  with seek_sequence_sound(1,4) [of "file" "[line]" i False idx] show ?thesis by simp
qed (use assms in \<open>simp add: seek_context_def\<close>)

lemma locate_old_lines_sound:
  assumes "locate_old_lines file chunk i = (pattern, new, Some s)" and "i \<le> length file"
  shows "located file chunk (s, length pattern, new)"
    and "\<not> is_end_of_file chunk \<Longrightarrow> i \<le> s"
proof -
  have found: "seek_sequence file pattern i (is_end_of_file chunk) = Some s"
    and pat: "pattern = old_lines chunk \<and> new = new_lines chunk \<or> old_lines chunk = pattern @ [[]] \<and>
         new = (if last_opt (new_lines chunk) = Some [] then butlast (new_lines chunk)
                else new_lines chunk)"
    using assms by (auto simp: locate_old_lines_def Let_def last_opt_Some split: if_splits)
  show "located file chunk (s, length pattern, new)"
    using seek_sequence_bound [OF found assms(2)] pat seek_sequence_sound(2) [OF found]
    by (cases "pattern = []") (auto simp: located_def)
  show "\<not> is_end_of_file chunk \<Longrightarrow> i \<le> s"
    using found seek_sequence_ge_start by simp
qed

text \<open>Every replacement of the loop is a located one or an insertion at the end of the file; in
  either case its start is a legal index.\<close>

definition pure_addition :: "str list \<Rightarrow> update_file_chunk \<Rightarrow> replacement \<Rightarrow> bool" where
  "pure_addition file chunk r \<longleftrightarrow>
     old_lines chunk = [] \<and> r = (insertion_index file, 0, new_lines chunk)"

lemma insertion_index_le [simp]: "insertion_index file \<le> length file"
  by (simp add: insertion_index_def)

lemma replacements_loop_explained:
  assumes "replacements_loop file path chunks i acc = Inr reps" and "i \<le> length file"
  shows "\<exists>more. reps = acc @ more \<and>
    list_all2 (\<lambda>chunk r. located file chunk r \<or> pure_addition file chunk r) chunks more"
  using assms
proof (induction chunks arbitrary: i acc)
  case (Cons chunk chunks)
  then obtain j where j: "seek_context file path (change_context chunk) i = Inr j"
    by (auto split: sum.splits)
  with Cons.prems(2) have jl: "j \<le> length file" using seek_context_bounds by blast
  show ?case
  proof (cases "old_lines chunk = []")
    case True
    with Cons.prems j have "replacements_loop file path chunks j
        (acc @ [(insertion_index file, 0, new_lines chunk)]) = Inr reps" by simp
    from Cons.IH [OF this jl] True show ?thesis by (auto simp: pure_addition_def)
  next
    case False
    then obtain pattern new s where
      l: "locate_old_lines file chunk j = (pattern, new, Some s)" and
      r: "replacements_loop file path chunks (s + length pattern) (acc @ [(s, length pattern, new)]) = Inr reps"
      using Cons.prems(1) j by (auto split: prod.splits option.splits)
    note loc = locate_old_lines_sound(1) [OF l jl]
    then have "s + length pattern \<le> length file" by (simp add: located_def)
    from Cons.IH [OF r this] loc show ?thesis by auto
  qed
qed simp

lemma explained_start_le:
  "located file chunk r \<or> pure_addition file chunk r \<Longrightarrow> fst r \<le> length file"
  by (cases r) (auto simp: located_def pure_addition_def)

lemma compute_replacements_explained:
  assumes "compute_replacements file path chunks = Inr reps"
  obtains found where "reps = sort_key fst found"
    and "replacements_loop file path chunks 0 [] = Inr found"
    and "list_all2 (\<lambda>chunk r. located file chunk r \<or> pure_addition file chunk r) chunks found"
  using assms replacements_loop_explained [of "file" path chunks 0 "[]"]
  by (auto simp: compute_replacements_def and_then_eq_Inr)

lemma compute_replacements_start_le:
  assumes "compute_replacements file path chunks = Inr reps" and "r \<in> set reps"
  shows "fst r \<le> length file"
proof -
  from assms(1) obtain found where f: "reps = sort_key fst found"
    "list_all2 (\<lambda>chunk r. located file chunk r \<or> pure_addition file chunk r) chunks found"
    by (rule compute_replacements_explained)
  with assms(2) obtain chunk where "located file chunk r \<or> pure_addition file chunk r"
    by (fastforce simp: list_all2_conv_all_nth in_set_conv_nth)
  then show ?thesis by (rule explained_start_le)
qed

text \<open>The edit of a computed replacement list never panics.\<close>

lemma apply_computed_total:
  assumes "compute_replacements file path chunks = Inr reps"
  shows "\<exists>res. apply_replacements file reps = Some res"
proof -
  from assms obtain found where reps: "reps = sort_key fst found"
    by (rule compute_replacements_explained)
  have "sorted (map fst reps)" by (simp add: reps)
  then have "sorted_wrt (\<ge>) (map fst (rev reps))" by (simp add: sorted_wrt_rev flip: rev_map)
  then show ?thesis
    unfolding apply_replacements_def
    by (rule apply_reversed_total) (use compute_replacements_start_le [OF assms] in simp)
qed

subsection \<open>When the located replacements are disjoint\<close>

text \<open>Chunks that are searched for from the current line on, and additions that really go behind
  the last line.\<close>

definition forward_chunks :: "str list \<Rightarrow> update_file_chunk list \<Rightarrow> bool" where
  "forward_chunks file chunks \<longleftrightarrow> (\<forall>c \<in> set chunks. \<not> is_end_of_file c \<and>
     (old_lines c = [] \<longrightarrow> last_opt file \<noteq> Some []))"

definition compatible :: "replacement \<Rightarrow> replacement \<Rightarrow> bool" where
  "compatible r q \<longleftrightarrow> rep_end r \<le> fst q \<or> (rep_end q \<le> fst r \<and> fst q < fst r)"

lemma rep_end_ge [simp]: "fst r \<le> rep_end r"
  by (cases r) simp

lemma sort_key_disjoint:
  assumes "sorted_wrt compatible reps"
  shows "disjoint_reps (sort_key fst reps)"
  using assms
proof (induction reps)
  case (Cons r reps)
  have ins: "disjoint_reps (insort_key fst r qs)"
    if "disjoint_reps qs" "sorted (map fst qs)" "\<And>q. q \<in> set qs \<Longrightarrow> compatible r q" for qs
    using that
  proof (induction qs)
    case (Cons q qs)
    show ?case
    proof (cases "fst r \<le> fst q")
      case True
      have "rep_end r \<le> fst p" if "p \<in> set (q # qs)" for p
      proof -
        have "fst r \<le> fst p" using Cons.prems(2) True that by auto
        with Cons.prems(3) [OF that] show ?thesis by (auto simp: compatible_def)
      qed
      with True Cons.prems show ?thesis by (simp add: disjoint_reps_def)
    next
      case False
      have "rep_end q \<le> fst r"
        using Cons.prems(3) [of q] False rep_end_ge [of r] by (auto simp: compatible_def)
      with False Cons show ?thesis by (simp add: disjoint_reps_def set_insort_key)
    qed
  qed (simp add: disjoint_reps_def)
  show ?case using Cons ins [of "sort_key fst reps"] by simp
qed (simp add: disjoint_reps_def)

lemma replacements_loop_compatible:
  assumes "replacements_loop file path chunks i acc = Inr reps"
    and "i \<le> length file" "forward_chunks file chunks" "sorted_wrt compatible acc"
    and "\<And>r. r \<in> set acc \<Longrightarrow> rep_end r \<le> i \<or> (fst r = length file \<and> rep_end r = length file)"
  shows "sorted_wrt compatible reps"
  using assms
proof (induction chunks arbitrary: i acc)
  case (Cons chunk chunks)
  then obtain j where j: "seek_context file path (change_context chunk) i = Inr j"
    by (auto split: sum.splits)
  with Cons.prems(2) have jb: "i \<le> j" "j \<le> length file" using seek_context_bounds by blast+
  have fw: "forward_chunks file chunks" "\<not> is_end_of_file chunk"
    using Cons.prems(3) by (auto simp: forward_chunks_def)
  show ?case
  proof (cases "old_lines chunk = []")
    case True
    then have idx: "insertion_index file = length file"
      using Cons.prems(3) by (auto simp: forward_chunks_def insertion_index_def)
    let ?r = "(length file, 0 :: nat, new_lines chunk)"
    have "compatible q ?r" if "q \<in> set acc" for q
      using Cons.prems(2) Cons.prems(5) [OF that] by (auto simp: compatible_def)
    then have "sorted_wrt compatible (acc @ [?r])"
      using Cons.prems(4) by (simp add: sorted_wrt_append)
    moreover have "rep_end r \<le> j \<or> (fst r = length file \<and> rep_end r = length file)" if "r \<in> set (acc @ [?r])" for r
      using Cons.prems(5) [of r] that jb(1) by auto
    moreover have "replacements_loop file path chunks j (acc @ [?r]) = Inr reps"
      using Cons.prems(1) True j idx by simp
    ultimately show ?thesis
      by (intro Cons.IH [OF _ jb(2) fw(1)])
  next
    case False
    then obtain pattern new s where
      l: "locate_old_lines file chunk j = (pattern, new, Some s)" and
      r: "replacements_loop file path chunks (s + length pattern) (acc @ [(s, length pattern, new)]) = Inr reps"
      using Cons.prems(1) j by (auto split: prod.splits option.splits)
    have s: "s + length pattern \<le> length file" "j \<le> s"
      using locate_old_lines_sound [OF l jb(2)] fw(2) by (auto simp: located_def)
    let ?r = "(s, length pattern, new)"
    have comp: "compatible q ?r" if "q \<in> set acc" for q
      using Cons.prems(5) [OF that] s jb by (cases q) (auto simp: compatible_def)
    then have "sorted_wrt compatible (acc @ [?r])"
      using Cons.prems(4) by (simp add: sorted_wrt_append)
    moreover have "rep_end q \<le> s + length pattern \<or> (fst q = length file \<and> rep_end q = length file)"
      if "q \<in> set (acc @ [?r])" for q
      using Cons.prems(5) [of q] that s jb by auto
    ultimately show ?thesis by (rule Cons.IH [OF r s(1) fw(1)])
  qed
qed simp

lemma compute_replacements_disjoint:
  assumes "compute_replacements file path chunks = Inr reps" and "forward_chunks file chunks"
  shows "disjoint_reps reps"
proof -
  from assms(1) obtain found where f: "reps = sort_key fst found"
    "replacements_loop file path chunks 0 [] = Inr found"
    by (rule compute_replacements_explained)
  have "sorted_wrt compatible found"
    by (rule replacements_loop_compatible [OF f(2) _ assms(2)]) simp_all
  then show ?thesis by (simp add: f sort_key_disjoint)
qed

subsection \<open>Edit scripts\<close>

text \<open>A diff seen as a script: keep some lines, replace some, and so on, then keep the tail.  The
  side condition is that each old block is met first, literally, where the script means it.\<close>

type_synonym edit = "str list \<times> str list \<times> str list"

fun script_old :: "edit list \<Rightarrow> str list \<Rightarrow> str list" where
  "script_old [] rest = rest"
| "script_old ((keep, old, new) # es) rest = keep @ old @ script_old es rest"

fun script_new :: "edit list \<Rightarrow> str list \<Rightarrow> str list" where
  "script_new [] rest = rest"
| "script_new ((keep, old, new) # es) rest = keep @ new @ script_new es rest"

fun first_occurrences :: "edit list \<Rightarrow> str list \<Rightarrow> bool" where
  "first_occurrences [] rest = True"
| "first_occurrences ((keep, old, new) # es) rest =
     (old \<noteq> [] \<and> list_all (\<lambda>j. \<not> exact_match (keep @ old @ script_old es rest) old j) [0..<length keep] \<and>
      first_occurrences es rest)"

definition script_chunk :: "edit \<Rightarrow> update_file_chunk" where
  "script_chunk e = (case e of (keep, old, new) \<Rightarrow>
     \<lparr>change_context = None, old_lines = old, new_lines = new, is_end_of_file = False\<rparr>)"

fun script_reps :: "nat \<Rightarrow> edit list \<Rightarrow> replacement list" where
  "script_reps pos [] = []"
| "script_reps pos ((keep, old, new) # es) =
     (pos + length keep, length old, new) # script_reps (pos + length keep + length old) es"

lemma exact_match_shift: "exact_match (pre @ file) pattern (length pre + j) = exact_match file pattern j"
  by (simp add: exact_match_def)

lemma seek_first_occurrence:
  assumes "old \<noteq> []" and "list_all (\<lambda>j. \<not> exact_match (keep @ old @ rest) old j) [0..<length keep]"
  shows "seek_sequence (done @ keep @ old @ rest) old (length done) False = Some (length done + length keep)"
proof -
  let ?file = "done @ keep @ old @ rest"
  define hi where "hi = Suc (length ?file - length old)"
  have "find (exact_match ?file old) [length done ..< hi] = Some (length done + length keep)"
  proof (subst find_upt_Some, intro conjI allI impI)
    show "length done + length keep < hi" by (simp add: hi_def)
    show "exact_match ?file old (length done + length keep)"
      by (simp add: exact_match_def)
    fix j assume j: "length done \<le> j \<and> j < length done + length keep"
    then have "\<not> exact_match (keep @ old @ rest) old (j - length done)"
      using assms(2) by (auto simp: list_all_iff)
    with j exact_match_shift [of "done" "keep @ old @ rest" old "j - length done"]
    show "\<not> exact_match ?file old j" by simp
  qed simp
  with assms(1) show ?thesis by (simp add: seek_sequence_def Let_def hi_def del: upt_Suc)
qed

lemma replacements_loop_script:
  assumes "first_occurrences es rest"
  shows "replacements_loop (done @ script_old es rest) path (map script_chunk es) (length done) acc =
    Inr (acc @ script_reps (length done) es)"
  using assms
proof (induction es arbitrary: "done" acc)
  case (Cons e es)
  obtain keep old new where e: "e = (keep, old, new)" by (cases e)
  with Cons.prems have first: "old \<noteq> []" "first_occurrences es rest"
    "list_all (\<lambda>j. \<not> exact_match (keep @ old @ script_old es rest) old j) [0..<length keep]" by auto
  have loc: "locate_old_lines (done @ keep @ old @ script_old es rest) (script_chunk e) (length done) =
      (old, new, Some (length done + length keep))"
    using seek_first_occurrence [OF first(1,3)] by (simp add: locate_old_lines_def script_chunk_def e)
  have "replacements_loop (done @ script_old (e # es) rest) path (map script_chunk (e # es)) (length done) acc
      = replacements_loop ((done @ keep @ old) @ script_old es rest) path (map script_chunk es)
          (length (done @ keep @ old)) (acc @ [(length done + length keep, length old, new)])"
    using loc first(1) by (simp add: seek_context_def e script_chunk_def add.assoc)
  also have "\<dots> = Inr (acc @ script_reps (length done) (e # es))"
    by (subst Cons.IH [OF first(2)]) (simp add: e add.assoc)
  finally show ?case .
qed simp

lemma script_reps_ge: "r \<in> set (script_reps pos es) \<Longrightarrow> pos \<le> fst r"
  by (induction pos es rule: script_reps.induct) (auto dest: meta_spec)

lemma script_reps_bounded:
  "r \<in> set (script_reps pos es) \<Longrightarrow> fst r \<le> pos + length (script_old es rest)"
  by (induction pos es rule: script_reps.induct) auto

lemma script_reps_sorted: "sorted (map fst (script_reps pos es))" "disjoint_reps (script_reps pos es)"
  by (induction pos es rule: script_reps.induct)
    (auto simp: disjoint_reps_def dest!: script_reps_ge)

lemma splice_script:
  "splice (length done) (done @ script_old es rest) (script_reps (length done) es) = script_new es rest"
proof (induction es arbitrary: "done")
  case (Cons e es)
  obtain keep old new where e: "e = (keep, old, new)" by (cases e)
  show ?case
    using Cons.IH [of "done @ keep @ old"] by (simp add: e add.assoc)
qed simp

lemma compute_replacements_script:
  assumes "first_occurrences es rest"
  shows "compute_replacements (script_old es rest) path (map script_chunk es) = Inr (script_reps 0 es)"
  using replacements_loop_script [OF assms, of "[]" path "[]"] script_reps_sorted(1) [of 0 es]
  by (simp add: compute_replacements_def and_then_def sort_key_id_if_sorted sorted_map)

definition text_lines :: "str list \<Rightarrow> bool" where
  "text_lines ls \<longleftrightarrow> list_all (\<lambda>l. nl \<notin> set l) ls \<and> last_opt ls \<noteq> Some []"

lemma split_join_file_lines:
  assumes "text_lines ls"
  shows "split_file_lines (join_file_lines ls) = ls"
proof -
  have "split_on nl (join [nl] (ls @ [[]])) = ls @ [[]]"
    by (rule split_on_join) (use assms in \<open>auto simp: text_lines_def list_all_iff\<close>)
  with assms show ?thesis
    by (simp add: split_file_lines_def join_file_lines_def text_lines_def last_opt_def)
qed

subsection \<open>Properties\<close>

text \<open>C3. A diff applies as meant: for a file whose text is the old side of an edit script, each old
  block of which is met first where the script means it, the chunks of the script turn the file into
  the text of the new side.\<close>

theorem derive_new_contents_script:
  assumes "first_occurrences es rest" and "text_lines (script_old es rest)"
  shows "derive_new_contents path (join_file_lines (script_old es rest)) (map script_chunk es) =
    Inr (join_file_lines (script_new es rest))"
proof -
  have "apply_replacements (script_old es rest) (script_reps 0 es) =
      Some (splice 0 (script_old es rest) (script_reps 0 es))"
    by (rule apply_replacements_splice [OF script_reps_sorted(2)])
      (use script_reps_bounded [of _ 0 es rest] in simp)
  moreover have "splice 0 (script_old es rest) (script_reps 0 es) = script_new es rest"
    using splice_script [of "[]"] by simp
  ultimately show ?thesis
    by (simp add: derive_new_contents_def split_join_file_lines [OF assms(2)]
        compute_replacements_script [OF assms(1)])
qed

theorem derive_new_contents_script_witness:
  "derive_new_contents (lit ''f'') (join_file_lines (script_old [([lit ''a''], [lit ''b''], [lit ''c''])] [lit ''d'']))
     (map script_chunk [([lit ''a''], [lit ''b''], [lit ''c''])]) =
   Inr (join_file_lines (script_new [([lit ''a''], [lit ''b''], [lit ''c''])] [lit ''d'']))"
  by (rule derive_new_contents_script)
    (simp_all add: exact_match_def text_lines_def last_opt_def str_simps nl_def)




text \<open>An addition can be lost: after a file whose last line is blank, an addition-only chunk is
  inserted in front of that line, and a chunk that replaces the blank line then deletes the inserted
  text; the patch is accepted and the added line \<open>x\<close> is not in the result.\<close>

theorem pure_addition_lost:
  "derive_new_contents (lit ''f'') (lit ''a'' @ [nl] @ lit ''b'' @ [nl, nl])
     [\<lparr>change_context = None, old_lines = [lit ''b'', []], new_lines = [lit ''c''], is_end_of_file = False\<rparr>,
      \<lparr>change_context = None, old_lines = [], new_lines = [lit ''x''], is_end_of_file = False\<rparr>] =
   Inr (lit ''a'' @ [nl] @ lit ''c'' @ [nl])"
  by code_simp

text \<open>An end-of-file chunk can undo an earlier chunk: it is searched at the end of the file even
  when an earlier chunk already replaced those lines; the patch is accepted and the line \<open>y\<close> of the
  second chunk is not in the result.\<close>

theorem eof_chunk_overlap_lost:
  "derive_new_contents (lit ''f'') (lit ''a'' @ [nl] @ lit ''b'' @ [nl])
     [\<lparr>change_context = None, old_lines = [lit ''a'', lit ''b''], new_lines = [lit ''x''], is_end_of_file = False\<rparr>,
      \<lparr>change_context = None, old_lines = [lit ''b''], new_lines = [lit ''y''], is_end_of_file = True\<rparr>] =
   Inr (lit ''x'' @ [nl])"
  by code_simp

end
