(* ===== verification/PatchStreaming.thy ===== *)
theory PatchStreaming
  imports PatchGrammar
begin

text \<open>
  The incremental parser that previews a patch while the model is still producing it,
  \<open>apply-patch/src/streaming_parser.rs\<close>: a line buffer, a mode, the hunks so far and a line
  counter.  Methods that take \<open>&mut self\<close> and return a \<open>Result\<close> become functions to a new
  state and a result.  Shown here: feeding a text in pieces is feeding it at once, the mode always
  agrees with the last hunk, only complete update hunks survive \<open>finish\<close>, and on every printed
  patch the result is the one the batch parser computes.
\<close>

subsection \<open>State\<close>

datatype parser_mode =
    NotStarted
  | StartedPatch
  | InAddFile
  | InDeleteFile
  | InUpdateFile nat
  | EndedPatch

record streaming_patch_parser =
  line_buffer :: str
  sp_mode :: parser_mode
  sp_hunks :: "hunk list"
  sp_line_number :: nat

definition parser_default :: streaming_patch_parser where
  "parser_default = \<lparr>line_buffer = [], sp_mode = NotStarted, sp_hunks = [], sp_line_number = 0\<rparr>"

definition is_environment_id_preamble_line :: "str \<Rightarrow> bool" where
  "is_environment_id_preamble_line line = starts_with ENVIRONMENT_ID_MARKER line"

subsection \<open>Hunk headers and the end of the patch\<close>

definition chunk_is_empty :: "update_file_chunk \<Rightarrow> bool" where
  "chunk_is_empty chunk \<longleftrightarrow> old_lines chunk = [] \<and> new_lines chunk = []"

definition last_chunk_is_empty :: "update_file_chunk list \<Rightarrow> bool" where
  "last_chunk_is_empty chunks =
     (case last_opt chunks of None \<Rightarrow> False | Some chunk \<Rightarrow> chunk_is_empty chunk)"

definition ensure_update_hunk_is_not_empty ::
  "streaming_patch_parser \<Rightarrow> str \<Rightarrow> parse_error + unit" where
  "ensure_update_hunk_is_not_empty p line =
     (case last_opt (sp_hunks p) of
        Some (UpdateFile path move_path chunks) \<Rightarrow>
          (case (chunks, sp_mode p) of
             ([], InUpdateFile hunk_line_number) \<Rightarrow>
               Inl (InvalidHunkError (msg_empty_update path) hunk_line_number)
           | _ \<Rightarrow>
               if last_chunk_is_empty chunks then
                 (if line = END_PATCH_MARKER then
                    Inl (InvalidHunkError msg_no_lines (sp_line_number p))
                  else Inl (InvalidHunkError (msg_unexpected line) (sp_line_number p)))
               else Inr ())
      | _ \<Rightarrow> Inr ())"

definition push_hunk :: "hunk \<Rightarrow> parser_mode \<Rightarrow> streaming_patch_parser \<Rightarrow> streaming_patch_parser" where
  "push_hunk h mode p = p\<lparr>sp_hunks := sp_hunks p @ [h], sp_mode := mode\<rparr>"

definition handle_hunk_headers_and_end_patch ::
  "streaming_patch_parser \<Rightarrow> str \<Rightarrow> streaming_patch_parser \<times> (parse_error + bool)" where
  "handle_hunk_headers_and_end_patch p trimmed =
     (if trimmed = END_PATCH_MARKER then
        (case ensure_update_hunk_is_not_empty p trimmed of
           Inl e \<Rightarrow> (p, Inl e)
         | Inr _ \<Rightarrow> (p\<lparr>sp_mode := EndedPatch\<rparr>, Inr True))
      else
      (case strip_prefix ADD_FILE_MARKER trimmed of
         Some path \<Rightarrow>
           (case ensure_update_hunk_is_not_empty p trimmed of
              Inl e \<Rightarrow> (p, Inl e)
            | Inr _ \<Rightarrow> (push_hunk (AddFile path []) InAddFile p, Inr True))
       | None \<Rightarrow>
      (case strip_prefix DELETE_FILE_MARKER trimmed of
         Some path \<Rightarrow>
           (case ensure_update_hunk_is_not_empty p trimmed of
              Inl e \<Rightarrow> (p, Inl e)
            | Inr _ \<Rightarrow> (push_hunk (DeleteFile path) InDeleteFile p, Inr True))
       | None \<Rightarrow>
      (case strip_prefix UPDATE_FILE_MARKER trimmed of
         Some path \<Rightarrow>
           (case ensure_update_hunk_is_not_empty p trimmed of
              Inl e \<Rightarrow> (p, Inl e)
            | Inr _ \<Rightarrow> (push_hunk (UpdateFile path None []) (InUpdateFile (sp_line_number p)) p, Inr True))
       | None \<Rightarrow> (p, Inr False)))))"

subsection \<open>Lines of an update hunk\<close>

text \<open>\<open>chunks.last_mut()\<close>, after a chunk without context was pushed if there was none.\<close>

definition update_last :: "('a \<Rightarrow> 'a) \<Rightarrow> 'a list \<Rightarrow> 'a list" where
  "update_last f xs = (if xs = [] then [] else butlast xs @ [f (last xs)])"

definition with_last_chunk ::
  "(update_file_chunk \<Rightarrow> update_file_chunk) \<Rightarrow> update_file_chunk list \<Rightarrow> update_file_chunk list" where
  "with_last_chunk f chunks = update_last f (if chunks = [] then [empty_chunk None] else chunks)"

definition push_old :: "str \<Rightarrow> update_file_chunk \<Rightarrow> update_file_chunk" where
  "push_old l chunk = chunk\<lparr>old_lines := old_lines chunk @ [l]\<rparr>"

definition push_new :: "str \<Rightarrow> update_file_chunk \<Rightarrow> update_file_chunk" where
  "push_new l chunk = chunk\<lparr>new_lines := new_lines chunk @ [l]\<rparr>"

text \<open>The body of the \<open>UpdateFile\<close> arm of \<open>process_line\<close> once the line is no header: the new
  move path and chunks of the last hunk, or the error.\<close>

definition update_hunk_line ::
  "nat \<Rightarrow> str \<Rightarrow> str option \<Rightarrow> update_file_chunk list \<Rightarrow>
     parse_error + (str option \<times> update_file_chunk list)" where
  "update_hunk_line line_number line move_path chunks =
     (let update_line = trim_end line in
      case (if chunks = [] \<and> move_path = None then strip_prefix MOVE_TO_MARKER update_line else None) of
        Some move_to_path \<Rightarrow> Inr (Some move_to_path, chunks)
      | None \<Rightarrow>
      if (update_line = EMPTY_CHANGE_CONTEXT_MARKER \<or> starts_with CHANGE_CONTEXT_MARKER update_line)
         \<and> last_chunk_is_empty chunks
      then Inl (InvalidHunkError (msg_unexpected line) line_number)
      else if update_line = EMPTY_CHANGE_CONTEXT_MARKER
      then Inr (move_path, chunks @ [empty_chunk None])
      else (case strip_prefix CHANGE_CONTEXT_MARKER update_line of
        Some ctx \<Rightarrow> Inr (move_path, chunks @ [empty_chunk (Some ctx)])
      | None \<Rightarrow>
      if update_line = EOF_MARKER then
        (if last_chunk_is_empty chunks then Inl (InvalidHunkError msg_no_lines line_number)
         else Inr (move_path, update_last (\<lambda>chunk. chunk\<lparr>is_end_of_file := True\<rparr>) chunks))
      else if line = [] then Inr (move_path, with_last_chunk (push_new [] \<circ> push_old []) chunks)
      else (case strip_prefix (lit '' '') line of
        Some l \<Rightarrow> Inr (move_path, with_last_chunk (push_new l \<circ> push_old l) chunks)
      | None \<Rightarrow>
      (case strip_prefix (lit ''+'') line of
        Some l \<Rightarrow> Inr (move_path, with_last_chunk (push_new l) chunks)
      | None \<Rightarrow>
      (case strip_prefix (lit ''-'') line of
        Some l \<Rightarrow> Inr (move_path, with_last_chunk (push_old l) chunks)
      | None \<Rightarrow>
      if chunks \<noteq> [] \<and> \<not> last_chunk_is_empty chunks
      then Inl (InvalidHunkError (msg_expected_context line) line_number)
      else Inl (InvalidHunkError (msg_unexpected line) line_number))))))"

definition process_line :: "streaming_patch_parser \<Rightarrow> str \<Rightarrow> streaming_patch_parser \<times> (parse_error + unit)" where
  "process_line p line =
     (let trimmed = trim line;
          bad_header = Inl (InvalidHunkError (msg_bad_header trimmed) (sp_line_number p))
      in case sp_mode p of
        NotStarted \<Rightarrow>
          if trimmed = BEGIN_PATCH_MARKER then (p\<lparr>sp_mode := StartedPatch\<rparr>, Inr ())
          else (p, Inl (InvalidPatchError msg_first_line))
      | StartedPatch \<Rightarrow>
          if is_environment_id_preamble_line line then (p, Inr ())
          else (case handle_hunk_headers_and_end_patch p trimmed of
                  (p', Inl e) \<Rightarrow> (p', Inl e)
                | (p', Inr True) \<Rightarrow> (p', Inr ())
                | (p', Inr False) \<Rightarrow> (p', bad_header))
      | InAddFile \<Rightarrow>
          (case handle_hunk_headers_and_end_patch p trimmed of
             (p', Inl e) \<Rightarrow> (p', Inl e)
           | (p', Inr True) \<Rightarrow> (p', Inr ())
           | (p', Inr False) \<Rightarrow>
               (case (strip_prefix (lit ''+'') line, last_opt (sp_hunks p')) of
                  (Some line_to_add, Some (AddFile path contents)) \<Rightarrow>
                    (p'\<lparr>sp_hunks := butlast (sp_hunks p') @ [AddFile path (contents @ line_to_add @ [nl])]\<rparr>, Inr ())
                | _ \<Rightarrow> (p', bad_header)))
      | InDeleteFile \<Rightarrow>
          (case handle_hunk_headers_and_end_patch p trimmed of
             (p', Inl e) \<Rightarrow> (p', Inl e)
           | (p', Inr True) \<Rightarrow> (p', Inr ())
           | (p', Inr False) \<Rightarrow> (p', bad_header))
      | InUpdateFile hunk_line_number \<Rightarrow>
          (case handle_hunk_headers_and_end_patch p (trim_end line) of
             (p', Inl e) \<Rightarrow> (p', Inl e)
           | (p', Inr True) \<Rightarrow> (p', Inr ())
           | (p', Inr False) \<Rightarrow>
               (case last_opt (sp_hunks p') of
                  Some (UpdateFile path move_path chunks) \<Rightarrow>
                    (case update_hunk_line (sp_line_number p') line move_path chunks of
                       Inl e \<Rightarrow> (p', Inl e)
                     | Inr (move_path', chunks') \<Rightarrow>
                         (p'\<lparr>sp_hunks := butlast (sp_hunks p') @ [UpdateFile path move_path' chunks'],
                             sp_mode := InUpdateFile hunk_line_number\<rparr>, Inr ()))
                | _ \<Rightarrow> (p', Inl (InvalidHunkError (msg_unexpected line) (sp_line_number p')))))
      | EndedPatch \<Rightarrow> (p, Inr ()))"

subsection \<open>Feeding characters\<close>

text \<open>One iteration of the loop of \<open>push_delta\<close>, the loop, and the method itself.\<close>

definition push_char :: "streaming_patch_parser \<Rightarrow> uchar \<Rightarrow> streaming_patch_parser \<times> (parse_error + unit)" where
  "push_char p ch =
     (if ch = nl then
        process_line (p\<lparr>line_buffer := [], sp_line_number := sp_line_number p + 1\<rparr>)
          (strip_cr (line_buffer p))
      else (p\<lparr>line_buffer := line_buffer p @ [ch]\<rparr>, Inr ()))"

fun push_chars :: "streaming_patch_parser \<Rightarrow> str \<Rightarrow> streaming_patch_parser \<times> (parse_error + unit)" where
  "push_chars p [] = (p, Inr ())"
| "push_chars p (ch # chs) =
     (case push_char p ch of
        (p', Inl e) \<Rightarrow> (p', Inl e)
      | (p', Inr _) \<Rightarrow> push_chars p' chs)"

definition push_delta :: "streaming_patch_parser \<Rightarrow> str \<Rightarrow> streaming_patch_parser \<times> (parse_error + hunk list)" where
  "push_delta p delta =
     (case push_chars p delta of
        (p', Inl e) \<Rightarrow> (p', Inl e)
      | (p', Inr _) \<Rightarrow> (p', Inr (sp_hunks p')))"

definition finish :: "streaming_patch_parser \<Rightarrow> streaming_patch_parser \<times> (parse_error + hunk list)" where
  "finish p =
     (case
        (if line_buffer p \<noteq> [] then
           (let line = line_buffer p;
                p1 = p\<lparr>line_buffer := [], sp_line_number := sp_line_number p + 1\<rparr>
            in if trim line = END_PATCH_MARKER then
                 (case ensure_update_hunk_is_not_empty p1 (trim line) of
                    Inl e \<Rightarrow> (p1, Inl e)
                  | Inr _ \<Rightarrow> (p1\<lparr>sp_mode := EndedPatch\<rparr>, Inr ()))
               else process_line p1 line)
         else (p, Inr ()))
      of (p2, Inl e) \<Rightarrow> (p2, Inl e)
       | (p2, Inr _) \<Rightarrow>
           if sp_mode p2 \<noteq> EndedPatch then (p2, Inl (InvalidPatchError msg_last_line))
           else (p2, Inr (sp_hunks p2)))"

text \<open>Feeding a sequence of deltas, stopping at the first error as the callers do.\<close>

fun push_deltas :: "streaming_patch_parser \<Rightarrow> str list \<Rightarrow> streaming_patch_parser \<times> (parse_error + unit)" where
  "push_deltas p [] = (p, Inr ())"
| "push_deltas p (d # ds) =
     (case push_delta p d of
        (p', Inl e) \<Rightarrow> (p', Inl e)
      | (p', Inr _) \<Rightarrow> push_deltas p' ds)"

subsection \<open>Pieces do not matter\<close>

lemma push_chars_append:
  "push_chars p (a @ b) =
     (case push_chars p a of (p', Inl e) \<Rightarrow> (p', Inl e) | (p', Inr _) \<Rightarrow> push_chars p' b)"
  by (induction a arbitrary: p) (auto split: prod.splits sum.splits)

lemma push_deltas_concat: "push_deltas p ds = push_chars p (concat ds)"
  by (induction ds arbitrary: p)
    (auto simp: push_delta_def push_chars_append split: prod.splits sum.splits)

subsection \<open>The mode agrees with the last hunk\<close>

definition chunks_complete :: "update_file_chunk list \<Rightarrow> bool" where
  "chunks_complete chunks \<longleftrightarrow> list_all (\<lambda>c. \<not> chunk_is_empty c) chunks"

fun hunk_complete :: "hunk \<Rightarrow> bool" where
  "hunk_complete (UpdateFile path mv chunks) = (chunks \<noteq> [] \<and> chunks_complete chunks)"
| "hunk_complete h = True"

definition parser_inv :: "streaming_patch_parser \<Rightarrow> bool" where
  "parser_inv p = (case sp_mode p of
       NotStarted \<Rightarrow> sp_hunks p = []
     | StartedPatch \<Rightarrow> sp_hunks p = []
     | InAddFile \<Rightarrow> (\<exists>hs path contents. sp_hunks p = hs @ [AddFile path contents] \<and> list_all hunk_complete hs)
     | InDeleteFile \<Rightarrow> (\<exists>hs path. sp_hunks p = hs @ [DeleteFile path] \<and> list_all hunk_complete hs)
     | InUpdateFile n \<Rightarrow> (\<exists>hs path mv chunks. sp_hunks p = hs @ [UpdateFile path mv chunks] \<and>
         list_all hunk_complete hs \<and> chunks_complete (butlast chunks))
     | EndedPatch \<Rightarrow> list_all hunk_complete (sp_hunks p))"

lemma parser_inv_default: "parser_inv parser_default"
  by (simp add: parser_inv_def parser_default_def)

lemma parser_inv_frame [simp]:
  "parser_inv (p\<lparr>line_buffer := b\<rparr>) = parser_inv p"
  "parser_inv (p\<lparr>sp_line_number := n\<rparr>) = parser_inv p"
  by (simp_all add: parser_inv_def split: parser_mode.split)

text \<open>A header may only follow complete hunks.\<close>

lemma ensure_update_hunk_complete:
  assumes "parser_inv p" and "ensure_update_hunk_is_not_empty p line = Inr ()"
  shows "list_all hunk_complete (sp_hunks p)"
proof (cases "sp_mode p")
  case (InUpdateFile n)
  then obtain hs path mv chunks where h: "sp_hunks p = hs @ [UpdateFile path mv chunks]"
    "list_all hunk_complete hs" "chunks_complete (butlast chunks)"
    using assms(1) by (auto simp: parser_inv_def)
  show ?thesis
  proof (cases chunks rule: rev_cases)
    case Nil
    with assms(2) h InUpdateFile show ?thesis by (simp add: ensure_update_hunk_is_not_empty_def)
  next
    case (snoc cs c)
    with assms(2) h have "\<not> chunk_is_empty c"
      by (auto simp: ensure_update_hunk_is_not_empty_def last_chunk_is_empty_def
          split: if_splits list.splits)
    with snoc h show ?thesis by (simp add: chunks_complete_def)
  qed
qed (use assms(1) in \<open>auto simp: parser_inv_def\<close>)

definition header_hunk :: "nat \<Rightarrow> hunk \<Rightarrow> parser_mode \<Rightarrow> bool" where
  "header_hunk n h m \<longleftrightarrow> (\<exists>path. h = AddFile path [] \<and> m = InAddFile) \<or>
     (\<exists>path. h = DeleteFile path \<and> m = InDeleteFile) \<or>
     (\<exists>path. h = UpdateFile path None [] \<and> m = InUpdateFile n)"

lemma handle_headers_disj:
  assumes "handle_hunk_headers_and_end_patch p t = (p', r)"
  shows "(\<exists>e. r = Inl e \<and> p' = p) \<or> (r = Inr False \<and> p' = p) \<or>
    (r = Inr True \<and> ensure_update_hunk_is_not_empty p t = Inr () \<and>
      (p' = p\<lparr>sp_mode := EndedPatch\<rparr> \<or>
       (\<exists>h m. p' = push_hunk h m p \<and> header_hunk (sp_line_number p) h m)))"
proof (cases "ensure_update_hunk_is_not_empty p t")
  case (Inl e)
  with assms show ?thesis
    by (auto simp: handle_hunk_headers_and_end_patch_def split: if_splits option.splits)
next
  case (Inr u)
  consider (fin) "t = END_PATCH_MARKER" "p' = p\<lparr>sp_mode := EndedPatch\<rparr>" "r = Inr True"
    | (hdr) h m where "p' = push_hunk h m p" "header_hunk (sp_line_number p) h m" "r = Inr True"
    | (no) "p' = p" "r = Inr False"
    using assms Inr unfolding handle_hunk_headers_and_end_patch_def header_hunk_def
    by (cases "t = END_PATCH_MARKER"; cases "strip_prefix ADD_FILE_MARKER t";
        cases "strip_prefix DELETE_FILE_MARKER t"; cases "strip_prefix UPDATE_FILE_MARKER t") force+
  then show ?thesis using Inr by cases auto
qed

lemma handle_headers_cases:
  assumes "handle_hunk_headers_and_end_patch p t = (p', r)"
  obtains (err) e where "r = Inl e" "p' = p"
    | (no) "r = Inr False" "p' = p"
    | (hdr) h m where "r = Inr True" "ensure_update_hunk_is_not_empty p t = Inr ()"
        "p' = push_hunk h m p" "header_hunk (sp_line_number p) h m"
    | (ended) "r = Inr True" "ensure_update_hunk_is_not_empty p t = Inr ()" "p' = p\<lparr>sp_mode := EndedPatch\<rparr>"
  using handle_headers_disj [OF assms] by blast

lemma handle_headers_inv:
  assumes "parser_inv p" and "handle_hunk_headers_and_end_patch p t = (p', r)"
  shows "parser_inv p'"
  using assms(2)
proof (cases rule: handle_headers_cases)
  case (hdr h m)
  with ensure_update_hunk_complete [OF assms(1) hdr(2)] show ?thesis
    by (auto simp: parser_inv_def push_hunk_def chunks_complete_def header_hunk_def)
next
  case ended
  with ensure_update_hunk_complete [OF assms(1) ended(2)] show ?thesis
    by (simp add: parser_inv_def)
qed (use assms(1) in simp_all)

lemma update_last_snoc [simp]: "update_last f (xs @ [x]) = xs @ [f x]"
  by (simp add: update_last_def)

lemma last_chunk_is_empty_simps [simp]:
  "\<not> last_chunk_is_empty []"
  "last_chunk_is_empty (cs @ [c]) = chunk_is_empty c"
  by (simp_all add: last_chunk_is_empty_def)

lemma butlast_update_last [simp]: "butlast (update_last f xs) = butlast xs"
  by (simp add: update_last_def)

lemma butlast_with_last_chunk:
  "butlast (with_last_chunk f chunks) = butlast chunks"
  by (simp add: with_last_chunk_def)

lemma chunks_complete_butlast:
  assumes "chunks_complete (butlast chunks)" and "\<not> last_chunk_is_empty chunks"
  shows "chunks_complete chunks"
  using assms by (cases chunks rule: rev_cases) (auto simp: chunks_complete_def last_chunk_is_empty_def)

lemma update_hunk_line_inv:
  assumes "update_hunk_line n line mv chunks = Inr (mv', chunks')" and "chunks_complete (butlast chunks)"
  shows "chunks_complete (butlast chunks')"
  using assms chunks_complete_butlast [OF assms(2)]
  by (auto simp: update_hunk_line_def Let_def butlast_with_last_chunk starts_with_def butlast_append
      split: option.splits if_splits)

lemma process_line_inv:
  assumes "parser_inv p" and "process_line p line = (p', r)"
  shows "parser_inv p'"
proof (cases "sp_mode p")
  case NotStarted
  with assms show ?thesis
    by (auto simp: process_line_def Let_def parser_inv_def split: if_splits)
next
  case StartedPatch
  obtain q h where hdl: "handle_hunk_headers_and_end_patch p (trim line) = (q, h)" by fastforce
  have "parser_inv q" by (rule handle_headers_inv [OF assms(1) hdl])
  with StartedPatch hdl assms show ?thesis
    by (auto simp: process_line_def Let_def split: if_splits sum.splits bool.splits)
next
  case InAddFile
  obtain q h where hdl: "handle_hunk_headers_and_end_patch p (trim line) = (q, h)" by fastforce
  have q: "parser_inv q" by (rule handle_headers_inv [OF assms(1) hdl])
  show ?thesis
  proof (cases "h = Inr False")
    case True
    with hdl have "q = p" by (auto elim!: handle_headers_cases)
    with InAddFile True hdl assms show ?thesis
      by (auto simp: process_line_def Let_def parser_inv_def split: option.splits)
  next
    case False
    with InAddFile hdl assms(2) q show ?thesis
      by (auto simp: process_line_def Let_def split: sum.splits bool.splits)
  qed
next
  case InDeleteFile
  obtain q h where hdl: "handle_hunk_headers_and_end_patch p (trim line) = (q, h)" by fastforce
  have "parser_inv q" by (rule handle_headers_inv [OF assms(1) hdl])
  with InDeleteFile hdl assms show ?thesis
    by (auto simp: process_line_def Let_def split: sum.splits bool.splits)
next
  case (InUpdateFile n)
  obtain q h where hdl: "handle_hunk_headers_and_end_patch p (trim_end line) = (q, h)" by fastforce
  have q: "parser_inv q" by (rule handle_headers_inv [OF assms(1) hdl])
  show ?thesis
  proof (cases "h = Inr False")
    case True
    with hdl have "q = p" by (auto elim!: handle_headers_cases)
    with InUpdateFile True hdl assms show ?thesis
      by (auto simp: process_line_def Let_def parser_inv_def update_hunk_line_inv split: sum.splits)
  next
    case False
    with InUpdateFile hdl assms(2) q show ?thesis
      by (auto simp: process_line_def Let_def split: sum.splits bool.splits)
  qed
next
  case EndedPatch
  with assms show ?thesis by (simp add: process_line_def)
qed

lemma push_chars_inv: "parser_inv p \<Longrightarrow> push_chars p s = (p', r) \<Longrightarrow> parser_inv p'"
proof (induction s arbitrary: p)
  case (Cons ch s)
  obtain q h where step: "push_char p ch = (q, h)" by fastforce
  have "parser_inv q"
    using step Cons.prems(1) by (auto simp: push_char_def split: if_splits dest!: process_line_inv [rotated])
  with Cons step show ?case by (auto split: sum.splits)
qed simp

lemma finish_complete:
  assumes "parser_inv p" and "finish p = (p', Inr hunks)"
  shows "list_all hunk_complete hunks"
proof (cases "line_buffer p \<noteq> [] \<and> trim (line_buffer p) = END_PATCH_MARKER")
  case True
  let ?p1 = "p\<lparr>line_buffer := [], sp_line_number := sp_line_number p + 1\<rparr>"
  have "hunks = sp_hunks ?p1 \<and> ensure_update_hunk_is_not_empty ?p1 (trim (line_buffer p)) = Inr ()"
    using True assms(2) by (auto simp: finish_def Let_def split: sum.splits)
  moreover have "parser_inv ?p1" using assms(1) by simp
  ultimately show ?thesis using ensure_update_hunk_complete by blast
next
  case False
  then have "parser_inv p' \<and> sp_mode p' = EndedPatch \<and> hunks = sp_hunks p'"
    using assms by (auto simp: finish_def Let_def split: if_splits prod.splits sum.splits
        dest!: process_line_inv [rotated])
  then show ?thesis by (auto simp: parser_inv_def)
qed

subsection \<open>Agreement with the batch parser on printed patches\<close>

text \<open>A parser between two lines, and feeding it whole lines.\<close>

abbreviation at_line :: "parser_mode \<Rightarrow> hunk list \<Rightarrow> nat \<Rightarrow> streaming_patch_parser" where
  "at_line m hs n \<equiv> \<lparr>line_buffer = [], sp_mode = m, sp_hunks = hs, sp_line_number = n\<rparr>"

definition feed_lines :: "streaming_patch_parser \<Rightarrow> str list \<Rightarrow> streaming_patch_parser \<times> (parse_error + unit)" where
  "feed_lines p ls = push_chars p (concat (map (\<lambda>l. l @ [nl]) ls))"

lemma feed_lines_append:
  "feed_lines p (a @ b) =
     (case feed_lines p a of (p', Inl e) \<Rightarrow> (p', Inl e) | (p', Inr _) \<Rightarrow> feed_lines p' b)"
  by (simp add: feed_lines_def push_chars_append split: prod.splits sum.splits)

lemma push_chars_no_nl:
  "nl \<notin> set s \<Longrightarrow> push_chars p s = (p\<lparr>line_buffer := line_buffer p @ s\<rparr>, Inr ())"
  by (induction s arbitrary: p) (auto simp: push_char_def)

lemma feed_lines_Nil [simp]: "feed_lines p [] = (p, Inr ())"
  by (simp add: feed_lines_def)

lemma feed_lines_Cons:
  assumes "plain l"
  shows "feed_lines (at_line m hs n) (l # ls) =
    (case process_line (at_line m hs (n + 1)) l of
       (p', Inl e) \<Rightarrow> (p', Inl e) | (p', Inr _) \<Rightarrow> feed_lines p' ls)"
proof -
  have "push_chars (at_line m hs n) (l @ [nl]) = process_line (at_line m hs (n + 1)) l"
    using assms by (simp add: push_chars_append push_chars_no_nl push_char_def plain_def strip_cr_no_cr
        split: prod.splits sum.splits)
  then show ?thesis
    using push_chars_append [of "at_line m hs n" "l @ [nl]"]
    by (simp add: feed_lines_def split: prod.splits sum.splits)
qed

lemma feed_lines_step:
  assumes "plain l" and "process_line (at_line m hs (n + 1)) l = (at_line m' hs' (n + 1), Inr ())"
  shows "feed_lines (at_line m hs n) (l # ls) = feed_lines (at_line m' hs' (n + 1)) ls"
  using assms by (simp add: feed_lines_Cons)

lemma ensure_complete:
  assumes "list_all hunk_complete (sp_hunks p)"
  shows "ensure_update_hunk_is_not_empty p line = Inr ()"
proof (cases "sp_hunks p" rule: rev_cases)
  case (snoc hs h)
  with assms show ?thesis
    by (cases h) (auto simp: ensure_update_hunk_is_not_empty_def last_chunk_is_empty_def chunks_complete_def
        last_opt_def list_all_iff split: list.splits option.splits parser_mode.splits)
qed (simp add: ensure_update_hunk_is_not_empty_def)

subsubsection \<open>Lines that are and are not headers\<close>

lemma handle_not_header:
  assumes "t = [] \<or> hd t \<noteq> 42"
  shows "handle_hunk_headers_and_end_patch p t = (p, Inr False)"
  using assms
  by (cases t) (auto simp: handle_hunk_headers_and_end_patch_def marker_defs str_simps)

lemma handle_marker_not_header:
  "handle_hunk_headers_and_end_patch p EOF_MARKER = (p, Inr False)"
  "handle_hunk_headers_and_end_patch p (MOVE_TO_MARKER @ s) = (p, Inr False)"
  by (simp_all add: handle_hunk_headers_and_end_patch_def marker_defs str_simps)

lemma trim_end_hd: "trim_end l = [] \<or> hd (trim_end l) = hd l"
  using trim_end_prefix [of l] by (metis hd_append2)

lemma trim_hd: "l \<noteq> [] \<Longrightarrow> \<not> is_ws (hd l) \<Longrightarrow> hd (trim l) = hd l"
  using trim_end_hd [of l] trim_ne_Nil [of l] by (cases l) (auto simp: trim_def)

definition mode_open :: "parser_mode \<Rightarrow> bool" where
  "mode_open m \<longleftrightarrow> m \<noteq> NotStarted \<and> m \<noteq> EndedPatch"

lemma handle_header:
  assumes "list_all hunk_complete hs"
  shows "handle_hunk_headers_and_end_patch (at_line m hs n) (ADD_FILE_MARKER @ path) =
      (at_line InAddFile (hs @ [AddFile path []]) n, Inr True)"
    "handle_hunk_headers_and_end_patch (at_line m hs n) (DELETE_FILE_MARKER @ path) =
      (at_line InDeleteFile (hs @ [DeleteFile path]) n, Inr True)"
    "handle_hunk_headers_and_end_patch (at_line m hs n) (UPDATE_FILE_MARKER @ path) =
      (at_line (InUpdateFile n) (hs @ [UpdateFile path None []]) n, Inr True)"
proof -
  have ok: "ensure_update_hunk_is_not_empty (at_line m hs n) l = Inr ()" for l
    using assms by (simp add: ensure_complete)
  have ne: "ADD_FILE_MARKER @ s \<noteq> END_PATCH_MARKER" "DELETE_FILE_MARKER @ s \<noteq> END_PATCH_MARKER"
    "UPDATE_FILE_MARKER @ s \<noteq> END_PATCH_MARKER" for s
    by (simp_all add: marker_defs str_simps)
  show "handle_hunk_headers_and_end_patch (at_line m hs n) (ADD_FILE_MARKER @ path) =
      (at_line InAddFile (hs @ [AddFile path []]) n, Inr True)"
    "handle_hunk_headers_and_end_patch (at_line m hs n) (DELETE_FILE_MARKER @ path) =
      (at_line InDeleteFile (hs @ [DeleteFile path]) n, Inr True)"
    "handle_hunk_headers_and_end_patch (at_line m hs n) (UPDATE_FILE_MARKER @ path) =
      (at_line (InUpdateFile n) (hs @ [UpdateFile path None []]) n, Inr True)"
    by (simp_all add: handle_hunk_headers_and_end_patch_def ok ne push_hunk_def marker_prefix_clash)
qed

lemma not_environment_line:
  "\<not> is_environment_id_preamble_line (ADD_FILE_MARKER @ s)"
  "\<not> is_environment_id_preamble_line (DELETE_FILE_MARKER @ s)"
  "\<not> is_environment_id_preamble_line (UPDATE_FILE_MARKER @ s)"
  by (simp_all add: is_environment_id_preamble_line_def starts_with_def marker_defs str_simps)

lemma trim_end_header [simp]:
  assumes "plain_path path"
  shows "trim_end (ADD_FILE_MARKER @ path) = ADD_FILE_MARKER @ path"
    "trim_end (DELETE_FILE_MARKER @ path) = DELETE_FILE_MARKER @ path"
    "trim_end (UPDATE_FILE_MARKER @ path) = UPDATE_FILE_MARKER @ path"
    "trim_end (MOVE_TO_MARKER @ path) = MOVE_TO_MARKER @ path"
    "trim_end (CHANGE_CONTEXT_MARKER @ path) = CHANGE_CONTEXT_MARKER @ path"
  using assms by (simp_all add: trim_marked plain_path_def)

lemma process_header_line:
  assumes "mode_open m" and "trim l = l" "trim_end l = l" "\<not> is_environment_id_preamble_line l"
    and "handle_hunk_headers_and_end_patch (at_line m hs n) l = (p', Inr True)"
  shows "process_line (at_line m hs n) l = (p', Inr ())"
  using assms by (cases m) (simp_all add: process_line_def mode_open_def)

lemma process_header:
  assumes "mode_open m" and "list_all hunk_complete hs" and "plain_path path"
  shows "process_line (at_line m hs n) (ADD_FILE_MARKER @ path) = (at_line InAddFile (hs @ [AddFile path []]) n, Inr ())"
    and "process_line (at_line m hs n) (DELETE_FILE_MARKER @ path) = (at_line InDeleteFile (hs @ [DeleteFile path]) n, Inr ())"
    and "process_line (at_line m hs n) (UPDATE_FILE_MARKER @ path) =
      (at_line (InUpdateFile n) (hs @ [UpdateFile path None []]) n, Inr ())"
  using assms
  by (auto intro!: process_header_line simp: handle_header not_environment_line)

subsubsection \<open>Add hunks\<close>

lemma feed_add_lines:
  assumes "list_all plain ls"
  shows "feed_lines (at_line InAddFile (hs @ [AddFile path contents]) n) (map (\<lambda>l. lit ''+'' @ l) ls) =
    (at_line InAddFile (hs @ [AddFile path (contents @ concat (map (\<lambda>l. l @ [nl]) ls))]) (n + length ls), Inr ())"
  using assms
proof (induction ls arbitrary: contents n)
  case (Cons l ls)
  have "hd (trim (lit ''+'' @ l)) \<noteq> 42"
    using trim_hd [of "lit ''+'' @ l"] by (simp add: str_simps)
  then have "process_line (at_line InAddFile (hs @ [AddFile path contents]) (n + 1)) (lit ''+'' @ l) =
      (at_line InAddFile (hs @ [AddFile path (contents @ l @ [nl])]) (n + 1), Inr ())"
    by (simp add: process_line_def Let_def handle_not_header)
  then have "feed_lines (at_line InAddFile (hs @ [AddFile path contents]) n) (map (\<lambda>l. lit ''+'' @ l) (l # ls)) =
      feed_lines (at_line InAddFile (hs @ [AddFile path (contents @ l @ [nl])]) (n + 1)) (map (\<lambda>l. lit ''+'' @ l) ls)"
    using Cons.prems feed_lines_step by simp
  then show ?case using Cons by simp
qed simp

subsubsection \<open>Update hunks\<close>

lemma process_update_line:
  assumes "handle_hunk_headers_and_end_patch (at_line (InUpdateFile k) (hs @ [UpdateFile path mv cs]) n) (trim_end l)
      = (at_line (InUpdateFile k) (hs @ [UpdateFile path mv cs]) n, Inr False)"
    and "update_hunk_line n l mv cs = Inr (mv', cs')"
  shows "process_line (at_line (InUpdateFile k) (hs @ [UpdateFile path mv cs]) n) l =
    (at_line (InUpdateFile k) (hs @ [UpdateFile path mv' cs']) n, Inr ())"
  using assms by (simp add: process_line_def Let_def)

lemma update_hunk_line_move:
  assumes "plain_path p"
  shows "update_hunk_line n (MOVE_TO_MARKER @ p) None [] = Inr (Some p, [])"
  using assms by (simp add: update_hunk_line_def)

lemma last_chunk_nonempty:
  "chunks_complete cs \<Longrightarrow> \<not> last_chunk_is_empty cs"
  by (cases cs rule: rev_cases) (simp_all add: last_chunk_is_empty_def chunks_complete_def)

lemma update_hunk_line_ctx:
  assumes "chunks_complete cs" and "case ctx of None \<Rightarrow> True | Some s \<Rightarrow> plain_path s"
  shows "update_hunk_line n (print_ctx_line ctx) mv cs = Inr (mv, cs @ [empty_chunk ctx])"
proof (cases ctx)
  case None
  then show ?thesis
    using last_chunk_nonempty [OF assms(1)]
    by (simp add: update_hunk_line_def Let_def print_ctx_line_def marker_prefix_clash)
next
  case (Some s)
  have "CHANGE_CONTEXT_MARKER @ s \<noteq> EMPTY_CHANGE_CONTEXT_MARKER"
    by (simp add: marker_defs str_simps)
  with Some assms(2) last_chunk_nonempty [OF assms(1)] show ?thesis
    by (simp add: update_hunk_line_def Let_def print_ctx_line_def marker_prefix_clash)
qed

lemma diff_line_no_marker:
  assumes "u = [] \<or> hd u \<in> {32, 43, 45}"
  shows "strip_prefix MOVE_TO_MARKER u = None" "u \<noteq> EMPTY_CHANGE_CONTEXT_MARKER"
    "strip_prefix CHANGE_CONTEXT_MARKER u = None" "u \<noteq> EOF_MARKER"
  using assms by (cases u; auto simp: marker_defs str_simps)+

lemma hd_print_diff_line: "hd (print_diff_line d) \<in> {32, 43, 45}"
  by (cases d) (simp_all add: str_simps)

lemma trim_end_diff_line: "trim_end (print_diff_line d) = [] \<or> hd (trim_end (print_diff_line d)) \<in> {32, 43, 45}"
  using trim_end_hd [of "print_diff_line d"] hd_print_diff_line [of d] by auto

lemma update_hunk_line_diff:
  "update_hunk_line n (print_diff_line d) mv (cs @ [c]) =
    Inr (mv, cs @ [c\<lparr>old_lines := old_lines c @ old_side d, new_lines := new_lines c @ new_side d\<rparr>])"
  using diff_line_no_marker [OF trim_end_diff_line [of d]]
  by (cases d) (simp_all add: update_hunk_line_def Let_def starts_with_def with_last_chunk_def
      update_last_def push_old_def push_new_def str_simps)

lemma handle_diff_line:
  "handle_hunk_headers_and_end_patch p (trim_end (print_diff_line d)) = (p, Inr False)"
  by (rule handle_not_header) (use trim_end_diff_line [of d] in auto)

lemma feed_diff_lines:
  assumes "list_all (plain \<circ> diff_text) ds"
  shows "feed_lines (at_line (InUpdateFile k) (hs @ [UpdateFile path mv (cs @ [c])]) n) (map print_diff_line ds) =
    (at_line (InUpdateFile k) (hs @ [UpdateFile path mv (cs @ [c\<lparr>old_lines := old_lines c @ concat (map old_side ds),
       new_lines := new_lines c @ concat (map new_side ds)\<rparr>])]) (n + length ds), Inr ())"
  using assms
proof (induction ds arbitrary: c n)
  case (Cons d ds)
  let ?c = "c\<lparr>old_lines := old_lines c @ old_side d, new_lines := new_lines c @ new_side d\<rparr>"
  have "process_line (at_line (InUpdateFile k) (hs @ [UpdateFile path mv (cs @ [c])]) (n + 1)) (print_diff_line d) =
     (at_line (InUpdateFile k) (hs @ [UpdateFile path mv (cs @ [?c])]) (n + 1), Inr ())"
    by (rule process_update_line [OF handle_diff_line update_hunk_line_diff])
  then have "feed_lines (at_line (InUpdateFile k) (hs @ [UpdateFile path mv (cs @ [c])]) n) (map print_diff_line (d # ds))
      = feed_lines (at_line (InUpdateFile k) (hs @ [UpdateFile path mv (cs @ [?c])]) (n + 1)) (map print_diff_line ds)"
    using Cons.prems feed_lines_step plain_print_diff_line by simp
  then show ?case using Cons by simp
qed simp

lemma denote_change_complete: "chg_lines c \<noteq> [] \<Longrightarrow> \<not> chunk_is_empty (denote_change c)"
proof -
  assume "chg_lines c \<noteq> []"
  then obtain d ds where "chg_lines c = d # ds" by (cases "chg_lines c") auto
  then show ?thesis by (cases d) (simp_all add: chunk_is_empty_def denote_change_def)
qed

lemma feed_change:
  assumes "wf_change c" and "chunks_complete cs"
  shows "feed_lines (at_line (InUpdateFile k) (hs @ [UpdateFile path mv cs]) n) (print_change c) =
    (at_line (InUpdateFile k) (hs @ [UpdateFile path mv (cs @ [denote_change c])]) (n + length (print_change c)), Inr ())"
proof -
  let ?st = "\<lambda>cs n. at_line (InUpdateFile k) (hs @ [UpdateFile path mv cs]) n"
  let ?diffs = "map print_diff_line (chg_lines c)"
  let ?d = "(empty_chunk (chg_context c))\<lparr>old_lines := concat (map old_side (chg_lines c)),
      new_lines := concat (map new_side (chg_lines c))\<rparr>"
  have wf: "list_all (plain \<circ> diff_text) (chg_lines c)" "chg_lines c \<noteq> []"
    "case chg_context c of None \<Rightarrow> True | Some s \<Rightarrow> plain_path s"
    using assms(1) by (simp_all add: wf_change_def)
  have pl: "plain (print_ctx_line (chg_context c))"
    using plain_print_change [OF assms(1)] by (simp add: print_change_def)
  have te: "hd (trim_end (print_ctx_line (chg_context c))) \<noteq> 42"
    using wf(3) by (cases "chg_context c") (simp_all add: print_ctx_line_def)
  have "process_line (?st cs (n + 1)) (print_ctx_line (chg_context c)) = (?st (cs @ [empty_chunk (chg_context c)]) (n + 1), Inr ())"
    by (rule process_update_line [OF _ update_hunk_line_ctx [OF assms(2) wf(3)]])
      (simp add: handle_not_header te)
  then have "feed_lines (?st cs n) (print_ctx_line (chg_context c) # rest) =
      feed_lines (?st (cs @ [empty_chunk (chg_context c)]) (n + 1)) rest" for rest
    by (rule feed_lines_step [OF pl])
  then have body: "feed_lines (?st cs n) (print_ctx_line (chg_context c) # ?diffs) =
      (?st (cs @ [?d]) (n + 1 + length (chg_lines c)), Inr ())"
    using feed_diff_lines [OF wf(1), of k hs path mv cs "empty_chunk (chg_context c)"]
    by (simp add: empty_chunk_def)
  have ne: "\<not> chunk_is_empty ?d"
    using denote_change_complete [OF wf(2)] by (simp add: chunk_is_empty_def denote_change_def)
  have eof: "feed_lines (?st (cs @ [?d]) m) [EOF_MARKER] =
      (?st (cs @ [?d\<lparr>is_end_of_file := True\<rparr>]) (m + 1), Inr ())" for m
  proof -
    have "update_hunk_line (m + 1) EOF_MARKER mv (cs @ [?d]) = Inr (mv, cs @ [?d\<lparr>is_end_of_file := True\<rparr>])"
      using ne by (simp add: update_hunk_line_def Let_def starts_with_def)
        (simp add: marker_defs str_simps)
    from process_update_line [OF _ this, of k hs path] show ?thesis
      by (simp add: feed_lines_step handle_marker_not_header)
  qed
  show ?thesis
    using body eof [of "n + 1 + length (chg_lines c)"]
      feed_lines_append [of "?st cs n" "print_ctx_line (chg_context c) # ?diffs" "[EOF_MARKER]"]
    by (cases "chg_eof c") (simp_all add: print_change_def denote_change_def empty_chunk_def)
qed

lemma chunks_complete_snoc:
  "chunks_complete (cs @ [c]) \<longleftrightarrow> chunks_complete cs \<and> \<not> chunk_is_empty c"
  by (simp add: chunks_complete_def)

lemma feed_changes:
  assumes "list_all wf_change changes" and "chunks_complete cs"
  shows "feed_lines (at_line (InUpdateFile k) (hs @ [UpdateFile path mv cs]) n) (concat (map print_change changes)) =
    (at_line (InUpdateFile k) (hs @ [UpdateFile path mv (cs @ map denote_change changes)])
       (n + length (concat (map print_change changes))), Inr ())"
  using assms
proof (induction changes arbitrary: cs n)
  case (Cons c changes)
  have "chunks_complete (cs @ [denote_change c])"
    using Cons.prems denote_change_complete by (simp add: chunks_complete_snoc wf_change_def)
  then show ?case
    using Cons feed_change [of c cs] by (simp add: feed_lines_append add.assoc)
qed simp

subsubsection \<open>Whole patches\<close>

lemma wf_hunk_complete: "wf_hunk h \<Longrightarrow> hunk_complete (denote_hunk h)"
  by (cases h) (auto simp: chunks_complete_def list_all_iff wf_change_def denote_change_complete)

lemma feed_hunk:
  assumes "wf_hunk h" and "mode_open m" and "list_all hunk_complete hs"
  shows "\<exists>m'. mode_open m' \<and> feed_lines (at_line m hs n) (print_hunk h) =
    (at_line m' (hs @ [denote_hunk h]) (n + length (print_hunk h)), Inr ())"
proof (cases h)
  case (SAdd path ls)
  with assms have "process_line (at_line m hs (n + 1)) (ADD_FILE_MARKER @ path) =
      (at_line InAddFile (hs @ [AddFile path []]) (n + 1), Inr ())"
    by (simp add: process_header)
  with SAdd assms(1) have "feed_lines (at_line m hs n) (print_hunk h) =
      (at_line InAddFile (hs @ [denote_hunk h]) (n + length (print_hunk h)), Inr ())"
    by (simp add: feed_lines_step feed_add_lines plain_path_def)
  then show ?thesis by (auto simp: mode_open_def)
next
  case (SDelete path)
  with assms have "process_line (at_line m hs (n + 1)) (DELETE_FILE_MARKER @ path) =
      (at_line InDeleteFile (hs @ [DeleteFile path]) (n + 1), Inr ())"
    by (simp add: process_header)
  with SDelete assms(1) have "feed_lines (at_line m hs n) (print_hunk h) =
      (at_line InDeleteFile (hs @ [denote_hunk h]) (n + length (print_hunk h)), Inr ())"
    by (simp add: feed_lines_step plain_path_def)
  then show ?thesis by (auto simp: mode_open_def)
next
  case (SUpdate path mv changes)
  let ?st = "\<lambda>mv cs n'. at_line (InUpdateFile (n + 1)) (hs @ [UpdateFile path mv cs]) n'"
  have wf: "plain_path path" "list_all wf_change changes" "case mv of None \<Rightarrow> True | Some p \<Rightarrow> plain_path p"
    using assms(1) SUpdate by simp_all
  then have hdr: "feed_lines (at_line m hs n) ((UPDATE_FILE_MARKER @ path) # rest) = feed_lines (?st None [] (n + 1)) rest" for rest
    using assms process_header(3) [of m hs path "n + 1"] by (simp add: feed_lines_step plain_path_def)
  have mv: "feed_lines (?st None [] (n + 1)) (case mv of None \<Rightarrow> [] | Some p \<Rightarrow> [MOVE_TO_MARKER @ p]) =
      (?st mv [] (n + 1 + length (case mv of None \<Rightarrow> [] | Some p \<Rightarrow> [MOVE_TO_MARKER @ p])), Inr ())"
  proof (cases mv)
    case (Some p)
    then have p: "plain_path p" using wf(3) by simp
    have "process_line (?st None [] (n + 1 + 1)) (MOVE_TO_MARKER @ p) = (?st (Some p) [] (n + 1 + 1), Inr ())"
      by (rule process_update_line [OF _ update_hunk_line_move [OF p]])
        (simp add: p handle_marker_not_header)
    with Some p show ?thesis by (simp add: feed_lines_step plain_path_def)
  qed simp
  have "feed_lines (at_line m hs n) (print_hunk h) =
      (?st mv (map denote_change changes) (n + length (print_hunk h)), Inr ())"
    using SUpdate hdr mv feed_changes [OF wf(2), of "[]"]
    by (simp add: feed_lines_append chunks_complete_def add.assoc)
  then show ?thesis using SUpdate by (auto simp: mode_open_def)
qed

lemma feed_hunks:
  assumes "list_all wf_hunk hs'" and "mode_open m" and "list_all hunk_complete hs"
  shows "\<exists>m'. mode_open m' \<and> feed_lines (at_line m hs n) (concat (map print_hunk hs')) =
    (at_line m' (hs @ map denote_hunk hs') (n + length (concat (map print_hunk hs'))), Inr ())"
  using assms
proof (induction hs' arbitrary: m hs n)
  case (Cons h hs')
  have wf: "wf_hunk h" "list_all wf_hunk hs'" using Cons.prems by simp_all
  obtain m1 where m1: "mode_open m1" "feed_lines (at_line m hs n) (print_hunk h) =
      (at_line m1 (hs @ [denote_hunk h]) (n + length (print_hunk h)), Inr ())"
    using feed_hunk [OF wf(1) Cons.prems(2,3)] by blast
  have "list_all hunk_complete (hs @ [denote_hunk h])"
    using Cons.prems wf_hunk_complete by simp
  from Cons.IH [OF wf(2) m1(1) this, of "n + length (print_hunk h)"] m1(2) show ?case
    by (auto simp: feed_lines_append add.assoc)
qed auto

lemma join_lines_nl: "join [nl] (ls @ [l]) = concat (map (\<lambda>l. l @ [nl]) ls) @ l"
  by (induction ls) (simp_all add: join_Cons)

lemma streaming_print:
  assumes "list_all wf_hunk hs"
  shows "case push_delta parser_default (print_patch hs) of (p, r) \<Rightarrow>
    is_ok r \<and> snd (finish p) = Inr (map denote_hunk hs)"
proof -
  let ?body = "concat (map print_hunk hs)"
  have eq: "print_patch hs = concat (map (\<lambda>l. l @ [nl]) (BEGIN_PATCH_MARKER # ?body)) @ END_PATCH_MARKER"
    unfolding print_patch_def print_patch_lines_def using join_lines_nl [of "BEGIN_PATCH_MARKER # ?body"] by simp
  have start: "parser_default = at_line NotStarted [] 0" by (simp add: parser_default_def)
  obtain m where m: "mode_open m" "feed_lines (at_line StartedPatch [] 1) ?body =
      (at_line m (map denote_hunk hs) (1 + length ?body), Inr ())"
    using feed_hunks [OF assms, of StartedPatch "[]" 1] by (auto simp: mode_open_def)
  have "process_line (at_line NotStarted [] (0 + 1)) BEGIN_PATCH_MARKER = (at_line StartedPatch [] (0 + 1), Inr ())"
    by (simp add: process_line_def)
  from feed_lines_step [OF plain_markers(1) this]
  have lines: "feed_lines parser_default (BEGIN_PATCH_MARKER # ?body) =
      (at_line m (map denote_hunk hs) (1 + length ?body), Inr ())"
    using m(2) by (simp add: start)
  let ?p = "(at_line m (map denote_hunk hs) (1 + length ?body))\<lparr>line_buffer := END_PATCH_MARKER\<rparr>"
  have "push_chars parser_default (print_patch hs) = (?p, Inr ())"
    unfolding eq push_chars_append using lines plain_markers(2)
    by (simp add: feed_lines_def push_chars_no_nl plain_def)
  moreover have "list_all hunk_complete (map denote_hunk hs)"
    using assms by (auto simp: list_all_iff wf_hunk_complete)
  then have "snd (finish ?p) = Inr (map denote_hunk hs)"
    by (simp add: finish_def ensure_complete)
  ultimately show ?thesis by (simp add: push_delta_def)
qed

subsection \<open>The batch parser delivers complete hunks too\<close>

lemma chunk_lines_loop_not_empty:
  assumes "chunk_lines_loop ln ls parsed chunk = Inr (chunk', n)"
    and "ls \<noteq> [] \<or> 0 < parsed" and "0 < parsed \<Longrightarrow> \<not> chunk_is_empty chunk"
  shows "\<not> chunk_is_empty chunk'"
  using assms
proof (induction ln ls parsed chunk rule: chunk_lines_loop.induct)
  case (2 ln line rest parsed chunk)
  then show ?case by (cases line) (auto simp: chunk_is_empty_def split: if_splits)
qed auto

lemma parse_update_file_chunk_not_empty:
  assumes "parse_update_file_chunk ls ln allow = Inr (chunk, n)"
  shows "\<not> chunk_is_empty chunk"
  using assms
  by (auto simp: parse_update_file_chunk_def and_then_eq_Inr split: list.splits if_splits option.splits
      dest!: chunk_lines_loop_not_empty)

lemma update_chunks_loop_complete:
  assumes "update_chunks_loop ln ls parsed chunks = Inr (chunks', n)" and "chunks_complete chunks"
  shows "chunks_complete chunks'"
  using assms
proof (induction ln ls parsed chunks rule: update_chunks_loop.induct)
  case (1 ln ls parsed chunks)
  show ?case
  proof (cases ls)
    case Nil
    with 1 show ?thesis by (simp add: update_chunks_loop.simps)
  next
    case (Cons first rest)
    note unfolded = "1.prems"(1) [unfolded update_chunks_loop.simps [of ln ls], unfolded Cons, simplified]
    consider "trim first = []" | "trim first \<noteq> []" "starts_with (lit ''*'') first"
      | "trim first \<noteq> []" "\<not> starts_with (lit ''*'') first" by blast
    then show ?thesis
    proof cases
      case 1
      with unfolded "1.IH"(1) [OF Cons] "1.prems"(2) show ?thesis by auto
    next
      case 2
      with unfolded "1.prems"(2) show ?thesis by auto
    next
      case 3
      then obtain chunk k where c: "parse_update_file_chunk ls (ln + parsed) (chunks = []) = Inr (chunk, k)"
        and r: "update_chunks_loop ln (drop k ls) (parsed + k) (chunks @ [chunk]) = Inr (chunks', n)"
        using unfolded Cons by (auto split: sum.splits)
      from parse_update_file_chunk_not_empty [OF c] "1.prems"(2)
      have "chunks_complete (chunks @ [chunk])" by (simp add: chunks_complete_def)
      from "1.IH"(2) [OF Cons 3 c refl r this] show ?thesis .
    qed
  qed
qed

lemma parse_one_hunk_complete:
  assumes "parse_one_hunk ls ln = Inr (h, n)"
  shows "hunk_complete h"
proof -
  have nil: "chunks_complete []" by (simp add: chunks_complete_def)
  show ?thesis
    using assms unfolding parse_one_hunk_def Let_def
    by (auto split: option.splits sum.splits prod.splits if_splits
        dest: update_chunks_loop_complete [OF _ nil])
qed

lemma hunks_loop_complete:
  assumes "hunks_loop ls ln hunks = Inr hunks'" and "list_all hunk_complete hunks"
  shows "list_all hunk_complete hunks'"
  using assms
proof (induction ls ln hunks rule: hunks_loop.induct)
  case (1 ls ln hunks)
  show ?case
  proof (cases "ls = []")
    case False
    with "1.prems"(1) obtain h k where h: "parse_one_hunk ls ln = Inr (h, k)"
      and r: "hunks_loop (drop k ls) (ln + k) (hunks @ [h]) = Inr hunks'"
      by (auto simp: hunks_loop.simps [of ls] split: sum.splits)
    have "list_all hunk_complete (hunks @ [h])"
      using "1.prems"(2) parse_one_hunk_complete [OF h] by simp
    from "1.IH" [OF False h refl r this] show ?thesis .
  qed (use 1 in simp)
qed

lemma parse_patch_complete:
  assumes "parse_patch s = Inr args"
  shows "list_all hunk_complete (args_hunks args)"
  using assms hunks_loop_complete [of _ _ "[]"]
  by (auto simp: parse_patch_def parse_patch_text_def Let_def and_then_eq_Inr)

subsection \<open>Properties\<close>

text \<open>The result of streaming does not depend on how the text is cut into deltas: two sequences
  of deltas with the same concatenation leave the parser in the same state with the same verdict.\<close>

theorem push_deltas_chunking_irrelevant:
  assumes "concat ds = concat es"
  shows "push_deltas parser_default ds = push_deltas parser_default es"
  using assms by (simp add: push_deltas_concat)

theorem push_deltas_chunking_irrelevant_witness:
  "push_deltas parser_default [lit ''*** Beg'', lit ''in Patch'' @ [nl]] =
   push_deltas parser_default [lit ''*'', lit ''** Begin Pat'', lit ''ch'' @ [nl]]"
  by (rule push_deltas_chunking_irrelevant) (simp add: str_simps)

text \<open>C5. Streaming agrees with the batch parser: for the text of every well-formed patch, cut into
  deltas in any way, the streaming parser accepts and delivers exactly the hunks of \<open>parse_patch\<close>.\<close>

theorem streaming_agrees_with_batch:
  assumes "list_all wf_hunk hs" and "concat ds = print_patch hs"
  shows "case push_deltas parser_default ds of (p, r) \<Rightarrow>
    is_ok r \<and> map_sum id args_hunks (parse_patch (print_patch hs)) = snd (finish p)"
proof -
  obtain p r where pr: "push_chars parser_default (print_patch hs) = (p, r)" by fastforce
  with streaming_print [OF assms(1)] parse_patch_print [OF assms(1)] assms(2) show ?thesis
    by (cases r) (auto simp: push_deltas_concat push_delta_def is_ok_def)
qed

theorem streaming_agrees_with_batch_witness:
  "case push_deltas parser_default [lit ''*** Begin'', lit '' Patch'' @ [nl] @ lit ''*** Delete File: f'',
      [nl] @ lit ''*** End Patch''] of (p, r) \<Rightarrow>
    is_ok r \<and> map_sum id args_hunks (parse_patch (print_patch [SDelete (lit ''f'')])) = snd (finish p)"
  by (rule streaming_agrees_with_batch)
    (simp_all add: plain_path_def plain_def is_ws_def print_patch_def print_patch_lines_def marker_defs str_simps nl_def cr_def)

text \<open>C7. Neither parser delivers an update hunk that would do nothing: whatever the input, every
  update hunk of an accepted patch has at least one chunk, and every chunk has at least one old or
  new line.\<close>

theorem accepted_hunks_complete:
  "(case parse_patch s of Inl _ \<Rightarrow> True | Inr args \<Rightarrow> list_all hunk_complete (args_hunks args)) \<and>
   (case push_deltas parser_default ds of (p, _) \<Rightarrow>
     (case snd (finish p) of Inl _ \<Rightarrow> True | Inr hunks \<Rightarrow> list_all hunk_complete hunks))"
proof -
  obtain p r where pr: "push_deltas parser_default ds = (p, r)" by fastforce
  have inv: "parser_inv p"
    using push_chars_inv [OF parser_inv_default] pr by (simp add: push_deltas_concat)
  obtain p' r' where fin: "finish p = (p', r')" by fastforce
  show ?thesis
    using parse_patch_complete [of s] finish_complete [OF inv] pr fin by (auto split: sum.splits)
qed

end
