(* ===== verification/Utf8.thy ===== *)
theory Utf8
  imports Prelude
begin

text \<open>
  UTF-8 as \<open>core::str\<close> has it: the encoding behind \<open>String::into_bytes\<close> and the validation of
  \<open>from_utf8\<close>, with the position and the length of the first error.  \<open>Utf8Error\<close> carries
  \<open>valid_up_to\<close> and \<open>error_len\<close>, where no length means that the input ended inside a code
  point.  Bytes are integers between 0 and 255.
\<close>

type_synonym byte = int

definition is_scalar :: "uchar \<Rightarrow> bool" where
  "is_scalar c \<longleftrightarrow> 0 \<le> c \<and> c < 0x110000 \<and> \<not> (0xD800 \<le> c \<and> c < 0xE000)"

definition encode_char :: "uchar \<Rightarrow> byte list" where
  "encode_char c =
     (if c < 0x80 then [c]
      else if c < 0x800 then [0xC0 + c div 64, 0x80 + c mod 64]
      else if c < 0x10000 then [0xE0 + c div 4096, 0x80 + c div 64 mod 64, 0x80 + c mod 64]
      else [0xF0 + c div 262144, 0x80 + c div 4096 mod 64, 0x80 + c div 64 mod 64, 0x80 + c mod 64])"

definition into_bytes :: "str \<Rightarrow> byte list" where
  "into_bytes s = concat (map encode_char s)"

definition cont :: "byte \<Rightarrow> bool" where
  "cont b \<longleftrightarrow> 0x80 \<le> b \<and> b \<le> 0xBF"

text \<open>The second byte of a three or four byte sequence, per first byte.\<close>

definition second_of_3 :: "byte \<Rightarrow> byte \<Rightarrow> bool" where
  "second_of_3 b0 b1 =
     (if b0 = 0xE0 then 0xA0 \<le> b1 \<and> b1 \<le> 0xBF
      else if b0 = 0xED then 0x80 \<le> b1 \<and> b1 \<le> 0x9F
      else cont b1)"

definition second_of_4 :: "byte \<Rightarrow> byte \<Rightarrow> bool" where
  "second_of_4 b0 b1 =
     (if b0 = 0xF0 then 0x90 \<le> b1 \<and> b1 \<le> 0xBF
      else if b0 = 0xF4 then 0x80 \<le> b1 \<and> b1 \<le> 0x8F
      else cont b1)"

datatype utf8_item = Decoded uchar "byte list" | Undecodable "nat option"

fun third_byte :: "byte list \<Rightarrow> (byte \<Rightarrow> byte list \<Rightarrow> utf8_item) \<Rightarrow> nat \<Rightarrow> utf8_item" where
  "third_byte [] k n = Undecodable None"
| "third_byte (b # t) k n = (if cont b then k b t else Undecodable (Some n))"

fun decode_next :: "byte list \<Rightarrow> utf8_item" where
  "decode_next [] = Undecodable None"
| "decode_next (b0 # t) =
     (if b0 < 0x80 then Decoded b0 t
      else if 0xC2 \<le> b0 \<and> b0 \<le> 0xDF then
        third_byte t (\<lambda>b1 t. Decoded ((b0 - 0xC0) * 64 + (b1 - 0x80)) t) 1
      else if 0xE0 \<le> b0 \<and> b0 \<le> 0xEF then
        (case t of [] \<Rightarrow> Undecodable None
         | b1 # t1 \<Rightarrow>
             if second_of_3 b0 b1 then
               third_byte t1 (\<lambda>b2 t.
                 Decoded ((b0 - 0xE0) * 4096 + (b1 - 0x80) * 64 + (b2 - 0x80)) t) 2
             else Undecodable (Some 1))
      else if 0xF0 \<le> b0 \<and> b0 \<le> 0xF4 then
        (case t of [] \<Rightarrow> Undecodable None
         | b1 # t1 \<Rightarrow>
             if second_of_4 b0 b1 then
               third_byte t1 (\<lambda>b2 t2. third_byte t2 (\<lambda>b3 t.
                 Decoded ((b0 - 0xF0) * 262144 + (b1 - 0x80) * 4096 + (b2 - 0x80) * 64 + (b3 - 0x80)) t) 3) 2
             else Undecodable (Some 1))
      else Undecodable (Some 1))"

declare decode_next.simps(2) [simp del]

record utf8_error =
  valid_up_to :: nat
  error_len :: "nat option"

lemma third_byte_shorter:
  "(\<And>b u. k b u = Decoded c v \<Longrightarrow> length v \<le> length u) \<Longrightarrow> third_byte t k n = Decoded c v \<Longrightarrow> length v < length t"
  by (cases t) (fastforce split: if_splits)+

lemma decode_next_shorter:
  assumes "decode_next bs = Decoded c rest"
  shows "length rest < length bs"
proof (cases bs)
  case (Cons b t)
  with assms show ?thesis
    by (auto simp: decode_next.simps(2) split: if_splits list.splits dest!: third_byte_shorter [rotated])
qed (use assms in simp)

text \<open>\<open>from_utf8\<close>: \<open>pos\<close> is the number of bytes already validated.\<close>

function validate :: "nat \<Rightarrow> byte list \<Rightarrow> utf8_error + str" where
  "validate pos bs =
     (if bs = [] then Inr []
      else (case decode_next bs of
              Undecodable e \<Rightarrow> Inl \<lparr>valid_up_to = pos, error_len = e\<rparr>
            | Decoded c rest \<Rightarrow> map_sum id (Cons c) (validate (pos + (length bs - length rest)) rest)))"
  by pat_completeness auto
termination
  by (relation "measure (\<lambda>(pos, bs). length bs)") (auto dest: decode_next_shorter)

declare validate.simps [simp del]

definition from_utf8 :: "byte list \<Rightarrow> utf8_error + str" where
  "from_utf8 bs = validate 0 bs"

subsection \<open>Decoding inverts encoding\<close>

lemma div_mod_64: "(c::int) div 64 * 64 + c mod 64 = c"
  by simp

lemma encode_char_not_Nil [simp]: "encode_char c \<noteq> []"
  by (simp add: encode_char_def)

lemma cont_mod [simp]: "cont (128 + x mod 64)"
  using pos_mod_bound [of 64 x] pos_mod_sign [of 64 x] by (simp add: cont_def)

lemma decode_encode:
  assumes "is_scalar c"
  shows "decode_next (encode_char c @ t) = Decoded c t"
proof -
  have c: "0 \<le> c" "c < 0x110000" "c < 0xD800 \<or> 0xE000 \<le> c" using assms by (auto simp: is_scalar_def)
  consider "c < 0x80" | "0x80 \<le> c" "c < 0x800" | "0x800 \<le> c" "c < 0x10000" | "0x10000 \<le> c" by linarith
  then show ?thesis
  proof cases
    case 1
    then show ?thesis by (simp add: encode_char_def decode_next.simps(2))
  next
    case 2
    then have "2 \<le> c div 64" "c div 64 \<le> 31" by auto
    with 2 show ?thesis by (simp add: encode_char_def decode_next.simps(2))
  next
    case 3
    define h m l where "h = c div 4096" and "m = c div 64 mod 64" and "l = c mod 64"
    have "c div 64 div 64 = h" by (simp add: h_def zdiv_zmult2_eq [symmetric])
    then have hm: "c div 64 = h * 64 + m" using div_mult_mod_eq [of "c div 64" 64] by (simp add: m_def)
    have c': "h * 4096 + m * 64 + l = c" using div_mod_64 [of c] unfolding hm l_def by (simp add: algebra_simps)
    have r: "0 \<le> m" "m < 64" "0 \<le> l" "l < 64" by (simp_all add: m_def l_def)
    have h: "0 \<le> h" "h \<le> 15" using c' r 3 by linarith+
    have s: "second_of_3 (0xE0 + h) (0x80 + m)"
    proof -
      have "h = 0 \<Longrightarrow> 32 \<le> m" using 3(1) c' r by linarith
      moreover have "h = 13 \<Longrightarrow> m \<le> 31" using c(3) c' r by linarith
      ultimately show ?thesis using r by (auto simp: second_of_3_def cont_def)
    qed
    have e: "encode_char c = [0xE0 + h, 0x80 + m, 0x80 + l]"
      using 3 by (simp add: encode_char_def h_def m_def l_def)
    have "cont (0x80 + l)" using r by (simp add: cont_def)
    with h s show ?thesis unfolding e by (simp add: decode_next.simps(2) c')
  next
    case 4
    define h m l k where "h = c div 262144" and "m = c div 4096 mod 64" and "l = c div 64 mod 64" and "k = c mod 64"
    have d1: "c div 4096 div 64 = h" "c div 64 div 64 = c div 4096"
      by (simp_all add: h_def zdiv_zmult2_eq [symmetric])
    have d2: "c div 4096 = h * 64 + m" using d1(1) div_mult_mod_eq [of "c div 4096" 64] by (simp add: m_def)
    have d3: "c div 64 = c div 4096 * 64 + l" using d1(2) div_mult_mod_eq [of "c div 64" 64] by (simp add: l_def)
    have c': "h * 262144 + m * 4096 + l * 64 + k = c"
      using div_mod_64 [of c] unfolding d3 d2 k_def by (simp add: algebra_simps)
    have r: "0 \<le> m" "m < 64" "0 \<le> l" "l < 64" "0 \<le> k" "k < 64" by (simp_all add: m_def l_def k_def)
    have h: "0 \<le> h" "h \<le> 4" using c' r 4 c(2) by linarith+
    have s: "second_of_4 (0xF0 + h) (0x80 + m)"
    proof -
      have "h = 0 \<Longrightarrow> 16 \<le> m" using 4 c' r by linarith
      moreover have "h = 4 \<Longrightarrow> m \<le> 15" using c(2) c' r by linarith
      ultimately show ?thesis using r by (auto simp: second_of_4_def cont_def)
    qed
    have e: "encode_char c = [0xF0 + h, 0x80 + m, 0x80 + l, 0x80 + k]"
      using 4 by (simp add: encode_char_def h_def m_def l_def k_def)
    have "cont (0x80 + l)" "cont (0x80 + k)" using r by (simp_all add: cont_def)
    with h s show ?thesis unfolding e by (simp add: decode_next.simps(2) c' [unfolded add.assoc])
  qed
qed

lemma validate_Nil [simp]: "validate pos [] = Inr []"
  by (simp add: validate.simps)

lemma validate_encode_char:
  assumes "is_scalar c"
  shows "validate pos (encode_char c @ t) = map_sum id (Cons c) (validate (pos + length (encode_char c)) t)"
  using assms by (subst validate.simps) (simp add: decode_encode)

lemma validate_into_bytes:
  "list_all is_scalar s \<Longrightarrow> validate pos (into_bytes s @ t) = map_sum id (append s) (validate (pos + length (into_bytes s)) t)"
proof (induction s arbitrary: pos)
  case Nil
  then show ?case by (cases "validate pos t") (simp_all add: into_bytes_def)
next
  case (Cons c s)
  then show ?case
    by (cases "validate (pos + length (into_bytes (c # s))) t")
      (simp_all add: into_bytes_def validate_encode_char add.assoc)
qed

lemma from_utf8_into_bytes: "list_all is_scalar s \<Longrightarrow> from_utf8 (into_bytes s) = Inr s"
  using validate_into_bytes [of s 0 "[]"] by (simp add: from_utf8_def)

subsection \<open>Encoding inverts decoding\<close>

lemma third_byte_Decoded:
  "third_byte t k n = Decoded c rest \<longleftrightarrow> (\<exists>b u. t = b # u \<and> cont b \<and> k b u = Decoded c rest)"
  by (cases t) auto

lemma div_mod_block:
  "0 \<le> r \<Longrightarrow> r < 64 \<Longrightarrow> (h * 64 + r) div 64 = (h::int)"
  "0 \<le> r \<Longrightarrow> r < 64 \<Longrightarrow> (h * 64 + r) mod 64 = (r::int)"
  by simp_all

lemma decode_next_sound:
  assumes "decode_next bs = Decoded c rest"
  shows "bs = encode_char c @ rest"
proof (cases bs)
  case Nil
  with assms show ?thesis by simp
next
  case (Cons b0 t)
  note d = assms [unfolded Cons decode_next.simps(2)]
  consider "b0 < 0x80" | "0xC2 \<le> b0" "b0 \<le> 0xDF" | "0xE0 \<le> b0" "b0 \<le> 0xEF" | "0xF0 \<le> b0" "b0 \<le> 0xF4"
    using d by (auto split: if_splits)
  then show ?thesis
  proof cases
    case 1
    with d Cons show ?thesis by (simp add: encode_char_def)
  next
    case 2
    with d obtain b1 where b: "t = b1 # rest" "cont b1" "c = (b0 - 0xC0) * 64 + (b1 - 0x80)"
      by (auto simp: third_byte_Decoded)
    then have r: "0 \<le> b1 - 0x80" "b1 - 0x80 < 64" by (auto simp: cont_def)
    have "c div 64 = b0 - 0xC0" "c mod 64 = b1 - 0x80" unfolding b(3) using div_mod_block [OF r] by blast+
    moreover have "0x80 \<le> c" "c < 0x800" using 2 b r by auto
    ultimately show ?thesis using Cons b(1) by (simp add: encode_char_def)
  next
    case 3
    with d obtain b1 b2 where b: "t = b1 # b2 # rest" "second_of_3 b0 b1" "cont b2"
      "c = (b0 - 0xE0) * 4096 + (b1 - 0x80) * 64 + (b2 - 0x80)"
      by (auto simp: third_byte_Decoded split: list.splits if_splits)
    then have r: "0 \<le> b1 - 0x80" "b1 - 0x80 < 64" "0 \<le> b2 - 0x80" "b2 - 0x80 < 64"
      by (auto simp: cont_def second_of_3_def split: if_splits)
    have e: "c = ((b0 - 0xE0) * 64 + (b1 - 0x80)) * 64 + (b2 - 0x80)" using b(4) by (simp add: algebra_simps)
    have q: "c div 64 = (b0 - 0xE0) * 64 + (b1 - 0x80)" "c mod 64 = b2 - 0x80"
      unfolding e using div_mod_block [OF r(3,4)] by blast+
    have d3: "c div 4096 = c div 64 div 64" by (simp add: zdiv_zmult2_eq [symmetric])
    have "c div 4096 = b0 - 0xE0" "c div 64 mod 64 = b1 - 0x80"
      unfolding d3 q(1) by (rule div_mod_block [OF r(1,2)])+
    moreover have "0x800 \<le> c"
      using 3 b(2,4) r by (auto simp: second_of_3_def split: if_splits)
    moreover have "c < 0x10000" using 3 b(4) r by auto
    ultimately show ?thesis using Cons b(1) q by (simp add: encode_char_def)
  next
    case 4
    with d obtain b1 b2 b3 where b: "t = b1 # b2 # b3 # rest" "second_of_4 b0 b1" "cont b2" "cont b3"
      "c = (b0 - 0xF0) * 262144 + (b1 - 0x80) * 4096 + (b2 - 0x80) * 64 + (b3 - 0x80)"
      by (auto simp: third_byte_Decoded split: list.splits if_splits)
    then have r: "0 \<le> b1 - 0x80" "b1 - 0x80 < 64" "0 \<le> b2 - 0x80" "b2 - 0x80 < 64" "0 \<le> b3 - 0x80" "b3 - 0x80 < 64"
      by (auto simp: cont_def second_of_4_def split: if_splits)
    have e: "c = (((b0 - 0xF0) * 64 + (b1 - 0x80)) * 64 + (b2 - 0x80)) * 64 + (b3 - 0x80)"
      using b(5) by (simp add: algebra_simps)
    have q: "c div 64 = ((b0 - 0xF0) * 64 + (b1 - 0x80)) * 64 + (b2 - 0x80)" "c mod 64 = b3 - 0x80"
      unfolding e using div_mod_block [OF r(5,6)] by blast+
    have d4: "c div 4096 = c div 64 div 64" by (simp add: zdiv_zmult2_eq [symmetric])
    have q2: "c div 4096 = (b0 - 0xF0) * 64 + (b1 - 0x80)" "c div 64 mod 64 = b2 - 0x80"
      unfolding d4 q(1) by (rule div_mod_block [OF r(3,4)])+
    have d5: "c div 262144 = c div 4096 div 64" by (simp add: zdiv_zmult2_eq [symmetric])
    have q3: "c div 262144 = b0 - 0xF0" "c div 4096 mod 64 = b1 - 0x80"
      unfolding d5 q2(1) by (rule div_mod_block [OF r(1,2)])+
    have "0x10000 \<le> c"
      using 4 b(2,5) r by (auto simp: second_of_4_def split: if_splits)
    then have "encode_char c = [0xF0 + c div 262144, 0x80 + c div 4096 mod 64, 0x80 + c div 64 mod 64, 0x80 + c mod 64]"
      by (simp add: encode_char_def)
    also have "\<dots> = [b0, b1, b2, b3]" unfolding q3 q2(2) q(2) by simp
    finally show ?thesis using Cons b(1) by simp
  qed
qed

lemma validate_sound: "validate pos bs = Inr s \<Longrightarrow> bs = into_bytes s"
proof (induction pos bs arbitrary: s rule: validate.induct)
  case (1 pos bs)
  show ?case
  proof (cases "bs = []")
    case True
    with "1.prems" show ?thesis by (simp add: into_bytes_def)
  next
    case False
    with "1.prems" obtain c rest where d: "decode_next bs = Decoded c rest"
      by (subst (asm) validate.simps) (auto split: utf8_item.splits)
    with False "1.prems" obtain s' where s: "validate (pos + (length bs - length rest)) rest = Inr s'" "s = c # s'"
      by (subst (asm) validate.simps) (cases "validate (pos + (length bs - length rest)) rest"; auto)
    from "1.IH" [OF False d s(1)] decode_next_sound [OF d] s(2) show ?thesis
      by (simp add: into_bytes_def)
  qed
qed

lemma from_utf8_sound: "from_utf8 bs = Inr s \<Longrightarrow> bs = into_bytes s"
  by (simp add: from_utf8_def validate_sound)

end
