(* ===== verification/AbsolutePath.thy ===== *)
theory AbsolutePath
  imports Prelude
begin

text \<open>
  Absolute, normalised paths, \<open>utils/absolute-path\<close>, as built on Unix.  A \<open>PathBuf\<close> is its
  string; \<open>path_components\<close>, \<open>path_push\<close> and \<open>path_parent\<close> model what the code uses of
  \<open>std::path\<close>, up to the component-wise equality of \<open>Path\<close>.  The home directory of
  \<open>dirs::home_dir\<close> is an argument.  The lemmas show that a resolved path is always the text of
  a list of plain names below the root, so that \<open>.\<close> and \<open>..\<close> never survive and never lead
  above the root.
\<close>

subsection \<open>Paths of the standard library\<close>

definition slash :: uchar where
  "slash = of_char CHR ''/''"

datatype component = RootDir | CurDir | ParentDir | Normal str

definition is_absolute :: "str \<Rightarrow> bool" where
  "is_absolute p \<longleftrightarrow> first_opt p = Some slash"

definition body_component :: "str \<Rightarrow> component list" where
  "body_component s =
     (if s = [] \<or> s = lit ''.'' then [] else if s = lit ''..'' then [ParentDir] else [Normal s])"

definition path_components :: "str \<Rightarrow> component list" where
  "path_components p =
     (let pieces = split_on slash p in
      (if is_absolute p then [RootDir] else if hd pieces = lit ''.'' then [CurDir] else [])
      @ concat (map body_component pieces))"

fun as_os_str :: "component \<Rightarrow> str" where
  "as_os_str RootDir = lit ''/''"
| "as_os_str CurDir = lit ''.''"
| "as_os_str ParentDir = lit ''..''"
| "as_os_str (Normal s) = s"

definition path_push :: "str \<Rightarrow> str \<Rightarrow> str" where
  "path_push buf path =
     (if is_absolute path then path
      else if buf = [] \<or> last buf = slash then buf @ path
      else buf @ slash # path)"

definition path_of_components :: "component list \<Rightarrow> str" where
  "path_of_components cs = foldl path_push [] (map as_os_str cs)"

definition path_parent :: "str \<Rightarrow> str option" where
  "path_parent p =
     (let cs = path_components p in
      if cs = [] \<or> last cs = RootDir then None else Some (path_of_components (butlast cs)))"

text \<open>Paths are equal when their components are.\<close>

definition path_eq :: "str \<Rightarrow> str \<Rightarrow> bool" where
  "path_eq p q \<longleftrightarrow> path_components p = path_components q"

text \<open>\<open>Path::starts_with\<close>, \<open>Path::strip_prefix\<close> (the components that remain) and
  \<open>Path::ancestors\<close>.\<close>

definition path_starts_with :: "str \<Rightarrow> str \<Rightarrow> bool" where
  "path_starts_with base p \<longleftrightarrow> starts_with (path_components base) (path_components p)"

definition path_strip_prefix :: "str \<Rightarrow> str \<Rightarrow> component list option" where
  "path_strip_prefix base p = strip_prefix (path_components base) (path_components p)"

function parents_of :: "component list \<Rightarrow> str list" where
  "parents_of cs =
     (if cs = [] \<or> last cs = RootDir then [] else path_of_components (butlast cs) # parents_of (butlast cs))"
  by auto
termination
  by (relation "measure length") (auto simp: less_Suc_eq_0_disj)

declare parents_of.simps [simp del]

definition path_ancestors :: "str \<Rightarrow> str list" where
  "path_ancestors p = p # parents_of (path_components p)"

text \<open>\<open>Path::file_name\<close> and \<open>Path::file_stem\<close>.\<close>

definition path_file_name :: "str \<Rightarrow> str option" where
  "path_file_name p = (case last_opt (path_components p) of Some (Normal s) \<Rightarrow> Some s | _ \<Rightarrow> None)"

definition path_file_stem :: "str \<Rightarrow> str option" where
  "path_file_stem p =
     map_option (\<lambda>file_name.
       case rsplit_once (of_char CHR ''.'') file_name of
         Some (before, after) \<Rightarrow> if before = [] then file_name else before
       | None \<Rightarrow> file_name) (path_file_name p)"

definition path_pop :: "str \<Rightarrow> str" where
  "path_pop p = (case path_parent p of Some q \<Rightarrow> q | None \<Rightarrow> p)"

subsection \<open>Normalisation\<close>

fun normalize_step :: "str \<Rightarrow> component \<Rightarrow> str" where
  "normalize_step normalized CurDir = normalized"
| "normalize_step normalized ParentDir = path_pop normalized"
| "normalize_step normalized c = path_push normalized (as_os_str c)"

definition normalize_path :: "str \<Rightarrow> str" where
  "normalize_path path =
     (let normalized = foldl normalize_step [] (path_components path)
      in if normalized = [] then lit ''.'' else normalized)"

definition path_with_base :: "str \<Rightarrow> str \<Rightarrow> str" where
  "path_with_base path base_path = (if is_absolute path then path else path_push base_path path)"

definition absolutize_from :: "str \<Rightarrow> str \<Rightarrow> str" where
  "absolutize_from path base_path = normalize_path (path_with_base path base_path)"

definition trim_start_slashes :: "str \<Rightarrow> str" where
  "trim_start_slashes = dropWhile (\<lambda>c. c = slash)"

definition maybe_expand_home_directory :: "str option \<Rightarrow> str \<Rightarrow> str" where
  "maybe_expand_home_directory home path =
     (case home of None \<Rightarrow> path
      | Some home \<Rightarrow>
          (case strip_prefix (lit ''~'') path of None \<Rightarrow> path
           | Some rest \<Rightarrow>
               if rest = [] then home
               else (case strip_prefix (lit ''/'') rest of
                       Some rest \<Rightarrow> path_push home (trim_start_slashes rest)
                     | None \<Rightarrow> path)))"

definition resolve_path_against_base :: "str option \<Rightarrow> str \<Rightarrow> str \<Rightarrow> str" where
  "resolve_path_against_base home path base_path =
     absolutize_from (maybe_expand_home_directory home path) base_path"

definition abs_join :: "str option \<Rightarrow> str \<Rightarrow> str \<Rightarrow> str" where
  "abs_join home self path = resolve_path_against_base home path self"

text \<open>\<open>absolutize\<close> asks for the current directory only for a relative path; that lookup may fail.\<close>

definition absolutize :: "('e + str) \<Rightarrow> str \<Rightarrow> 'e + str" where
  "absolutize current_dir path =
     (if is_absolute path then Inr (normalize_path path)
      else and_then current_dir (\<lambda>cwd. Inr (absolutize_from path cwd)))"

definition from_absolute_path :: "str option \<Rightarrow> ('e + str) \<Rightarrow> str \<Rightarrow> 'e + str" where
  "from_absolute_path home current_dir path =
     absolutize current_dir (maybe_expand_home_directory home path)"

definition from_absolute_path_checked :: "str option \<Rightarrow> str \<Rightarrow> str + str" where
  "from_absolute_path_checked home path =
     (let expanded = maybe_expand_home_directory home path in
      if \<not> is_absolute expanded then Inl (lit ''path is not absolute: '' @ path)
      else Inr (absolutize_from expanded (lit ''/'')))"

definition abs_parent :: "str \<Rightarrow> str option" where
  "abs_parent p = path_parent p"

subsection \<open>Names below the root\<close>

definition valid_name :: "str \<Rightarrow> bool" where
  "valid_name s \<longleftrightarrow> s \<noteq> [] \<and> slash \<notin> set s \<and> s \<noteq> lit ''.'' \<and> s \<noteq> lit ''..''"

definition abs_path :: "str list \<Rightarrow> str" where
  "abs_path names = slash # join [slash] names"

definition normal_path :: "str \<Rightarrow> bool" where
  "normal_path p \<longleftrightarrow> (\<exists>names. list_all valid_name names \<and> p = abs_path names)"

lemma slash_code: "slash = 47" by (simp add: slash_def)

lemma lit_slash: "lit ''/'' = [slash]" by (simp add: str_simps slash_def)

lemma lit_dots: "lit ''.'' = [46]" "lit ''..'' = [46, 46]" by (simp_all add: str_simps)

lemma is_absolute_Cons [simp]: "is_absolute (c # p) \<longleftrightarrow> c = slash"
  by (simp add: is_absolute_def first_opt_def)

lemma is_absolute_Nil [simp]: "\<not> is_absolute []"
  by (simp add: is_absolute_def first_opt_def)

lemma is_absolute_abs_path [simp]: "is_absolute (abs_path names)"
  by (simp add: abs_path_def)

lemma valid_name_not_absolute: "valid_name s \<Longrightarrow> \<not> is_absolute s"
  by (cases s) (auto simp: valid_name_def)

lemma body_component_valid [simp]: "valid_name s \<Longrightarrow> body_component s = [Normal s]"
  by (simp add: body_component_def valid_name_def)

lemma body_components_valid:
  "list_all valid_name names \<Longrightarrow> concat (map body_component names) = map Normal names"
  by (induction names) auto

lemma split_on_abs_path:
  assumes "list_all valid_name names"
  shows "split_on slash (abs_path names) = (if names = [] then [[], []] else [] # names)"
proof (cases "names = []")
  case False
  have "split_on slash (join [slash] names) = names"
    by (rule split_on_join [OF False]) (use assms in \<open>auto simp: list_all_iff valid_name_def\<close>)
  with False show ?thesis by (simp add: abs_path_def)
qed (simp add: abs_path_def)

lemma path_components_abs_path:
  assumes "list_all valid_name names"
  shows "path_components (abs_path names) = RootDir # map Normal names"
  using assms body_components_valid [OF assms]
  by (simp add: path_components_def split_on_abs_path body_component_def)

lemma last_join:
  assumes "ss \<noteq> []" and "last ss \<noteq> []"
  shows "join sep ss \<noteq> [] \<and> last (join sep ss) = last (last ss)"
proof (cases ss rule: rev_cases)
  case (snoc ts t)
  with assms show ?thesis by (cases "ts = []") (simp_all add: join_snoc)
qed (use assms in simp)

lemma path_push_name:
  assumes "list_all valid_name names" and "valid_name s"
  shows "path_push (abs_path names) s = abs_path (names @ [s])"
proof (cases "names = []")
  case True
  with valid_name_not_absolute [OF assms(2)] show ?thesis by (simp add: path_push_def abs_path_def)
next
  case False
  with assms(1) have "valid_name (last names)" by (simp add: list_all_iff)
  then have l: "last names \<noteq> []" "last (last names) \<noteq> slash" by (auto simp: valid_name_def dest: last_in_set)
  from last_join [OF False l(1), of "[slash]"] l(2) have "last (abs_path names) \<noteq> slash" by (simp add: abs_path_def)
  with False valid_name_not_absolute [OF assms(2)] show ?thesis
    by (simp add: path_push_def abs_path_def join_snoc)
qed

lemma path_of_components_names:
  "list_all valid_name names \<Longrightarrow> path_of_components (RootDir # map Normal names) = abs_path names"
proof (induction names rule: rev_induct)
  case Nil
  show ?case by (simp add: path_of_components_def path_push_def abs_path_def lit_slash)
next
  case (snoc s names)
  then show ?case using path_push_name [of names s] by (simp add: path_of_components_def)
qed

lemma path_parent_abs_path:
  assumes "list_all valid_name names"
  shows "path_parent (abs_path names) = (if names = [] then None else Some (abs_path (butlast names)))"
proof (cases names rule: rev_cases)
  case (snoc ns s)
  with assms path_of_components_names [of ns] show ?thesis
    by (simp add: path_parent_def path_components_abs_path map_butlast)
qed (simp add: path_parent_def path_components_abs_path)

lemma path_pop_abs_path:
  "list_all valid_name names \<Longrightarrow> path_pop (abs_path names) = abs_path (butlast names)"
  by (simp add: path_pop_def path_parent_abs_path)

lemma list_all_butlast: "list_all P xs \<Longrightarrow> list_all P (butlast xs)"
  by (auto simp: list_all_iff dest: in_set_butlastD)

text \<open>The effect of the components after the root on the list of names.\<close>

fun resolve_names :: "str list \<Rightarrow> component list \<Rightarrow> str list" where
  "resolve_names names [] = names"
| "resolve_names names (Normal s # cs) = resolve_names (names @ [s]) cs"
| "resolve_names names (ParentDir # cs) = resolve_names (butlast names) cs"
| "resolve_names names (c # cs) = resolve_names names cs"

fun body_ok :: "component \<Rightarrow> bool" where
  "body_ok RootDir = False"
| "body_ok (Normal s) = valid_name s"
| "body_ok c = True"

lemma normalize_body:
  assumes "list_all body_ok cs" and "list_all valid_name names"
  shows "foldl normalize_step (abs_path names) cs = abs_path (resolve_names names cs)
    \<and> list_all valid_name (resolve_names names cs)"
  using assms
proof (induction cs arbitrary: names)
  case (Cons c cs)
  then show ?case
    by (cases c) (simp_all add: path_push_name path_pop_abs_path list_all_butlast)
qed simp

lemma body_component_ok:
  "slash \<notin> set s \<Longrightarrow> list_all body_ok (body_component s)"
  by (auto simp: body_component_def valid_name_def)

lemma path_components_absolute:
  assumes "is_absolute p"
  obtains cs where "path_components p = RootDir # cs" "list_all body_ok cs"
proof
  show "path_components p = RootDir # concat (map body_component (split_on slash p))"
    using assms by (simp add: path_components_def)
  show "list_all body_ok (concat (map body_component (split_on slash p)))"
    using body_component_ok set_split_on [of _ slash p] by (fastforce simp: list_all_iff)
qed

lemma normalize_path_absolute:
  assumes "is_absolute p"
  shows "normal_path (normalize_path p)"
proof -
  from assms obtain cs where cs: "path_components p = RootDir # cs" "list_all body_ok cs"
    by (rule path_components_absolute)
  have "foldl normalize_step [] (path_components p) = foldl normalize_step (abs_path []) cs"
    by (simp add: cs path_push_def abs_path_def lit_slash)
  with normalize_body [OF cs(2), of "[]"] show ?thesis
    by (auto simp: normalize_path_def normal_path_def Let_def abs_path_def)
qed

lemma resolve_names_normal: "resolve_names names (map Normal more) = names @ more"
  by (induction more arbitrary: names) auto

lemma normalize_path_normal:
  assumes "normal_path p"
  shows "normalize_path p = p"
proof -
  from assms obtain names where n: "list_all valid_name names" "p = abs_path names"
    by (auto simp: normal_path_def)
  have ok: "list_all body_ok (map Normal names)" using n(1) by (simp add: list_all_iff)
  have root: "path_push [] (lit ''/'') = abs_path []" by (simp add: path_push_def abs_path_def lit_slash)
  have "foldl normalize_step [] (path_components p) = foldl normalize_step (abs_path []) (map Normal names)"
    by (simp add: n path_components_abs_path root)
  with normalize_body [OF ok, of "[]"] n(2) show ?thesis
    by (simp add: normalize_path_def Let_def resolve_names_normal abs_path_def)
qed

lemma path_push_absolute: "is_absolute base \<Longrightarrow> is_absolute (path_push base p)"
  by (cases base) (auto simp: path_push_def)

lemma path_with_base_absolute: "is_absolute base \<Longrightarrow> is_absolute (path_with_base p base)"
  by (simp add: path_with_base_def path_push_absolute)

lemma resolve_normal: "is_absolute base \<Longrightarrow> normal_path (resolve_path_against_base home path base)"
  by (simp add: resolve_path_against_base_def absolutize_from_def normalize_path_absolute path_with_base_absolute)

lemma normal_path_absolute: "normal_path p \<Longrightarrow> is_absolute p"
  by (auto simp: normal_path_def)

lemma expand_home_absolute: "is_absolute p \<Longrightarrow> maybe_expand_home_directory home p = p"
  by (cases p) (auto simp: maybe_expand_home_directory_def str_simps slash_code split: option.splits)

lemma resolve_of_normal: "normal_path p \<Longrightarrow> resolve_path_against_base home p base = p"
  by (simp add: resolve_path_against_base_def expand_home_absolute normal_path_absolute absolutize_from_def
      path_with_base_def normalize_path_normal)

lemma abs_parent_normal:
  assumes "normal_path p" and "abs_parent p = Some q"
  shows "normal_path q \<and> length q < length p"
proof -
  from assms(1) obtain names where n: "list_all valid_name names" "p = abs_path names"
    by (auto simp: normal_path_def)
  with assms(2) have q: "names \<noteq> []" "q = abs_path (butlast names)"
    by (auto simp: abs_parent_def path_parent_abs_path split: if_splits)
  obtain ns s where ns: "names = ns @ [s]" using q(1) by (cases names rule: rev_cases) auto
  have "s \<noteq> []" using n(1) ns by (simp add: valid_name_def)
  then have "length (join [slash] ns) < length (join [slash] names)"
    by (cases "ns = []") (simp_all add: ns join_snoc)
  with n q show ?thesis
    by (auto simp: normal_path_def ns abs_path_def)
qed

subsection \<open>Equal spellings\<close>

text \<open>The components without the mark of the start: resolving a path looks at nothing else.\<close>

definition path_body :: "str \<Rightarrow> component list" where
  "path_body p = concat (map body_component (split_on slash p))"

lemma path_body_no_start: "RootDir \<notin> set (path_body p)" "CurDir \<notin> set (path_body p)"
  by (auto simp: path_body_def body_component_def split: if_splits)

lemma path_body_Nil [simp]: "path_body [] = []"
  by (simp add: path_body_def body_component_def)

lemma path_components_body:
  "path_components p =
     (if is_absolute p then [RootDir] else if hd (split_on slash p) = lit ''.'' then [CurDir] else []) @ path_body p"
  by (simp add: path_components_def path_body_def Let_def)

lemma path_body_append: "path_body (a @ slash # b) = path_body a @ path_body b"
  by (simp add: path_body_def split_on_append)

lemma path_body_Cons_slash [simp]: "path_body (slash # b) = path_body b"
  using path_body_append [of "[]" b] by simp

lemma path_body_push:
  assumes "\<not> is_absolute s"
  shows "path_body (path_push b s) = path_body b @ path_body s"
proof (cases "b = [] \<or> last b = slash")
  case True
  then consider "b = []" | b' where "b = b' @ [slash]" by (cases b rule: rev_cases) auto
  then show ?thesis
  proof cases
    case (2 b')
    with assms path_body_append [of b' s] path_body_append [of b' "[]"] show ?thesis by (simp add: path_push_def)
  qed (use assms in \<open>simp add: path_push_def\<close>)
next
  case False
  with assms show ?thesis by (simp add: path_push_def path_body_append)
qed

lemma is_absolute_push: "\<not> is_absolute s \<Longrightarrow> is_absolute (path_push b s) = is_absolute b"
  by (cases b) (auto simp: path_push_def)

lemma path_eq_iff:
  "path_eq p q \<longleftrightarrow> is_absolute p = is_absolute q \<and> path_body p = path_body q \<and>
     (\<not> is_absolute p \<longrightarrow> (hd (split_on slash p) = lit ''.'') = (hd (split_on slash q) = lit ''.''))"
proof -
  have "RootDir # x \<noteq> path_body r" "CurDir # x \<noteq> path_body r" "path_body r \<noteq> RootDir # x" "path_body r \<noteq> CurDir # x"
    for x r by (metis path_body_no_start list.set_intros(1))+
  then show ?thesis by (auto simp: path_eq_def path_components_body)
qed

lemma absolutize_from_body:
  assumes "is_absolute base" "is_absolute p = is_absolute q" "path_body p = path_body q"
  shows "absolutize_from p base = absolutize_from q base"
proof -
  have "path_components (path_with_base p base) = path_components (path_with_base q base)"
    using assms by (simp add: path_with_base_def path_components_body path_body_push is_absolute_push)
  then show ?thesis by (simp add: absolutize_from_def normalize_path_def)
qed

lemma hd_split_on:
  assumes "hd (split_on c s) = x"
  shows "s = x \<or> (\<exists>r. s = x @ c # r)"
proof (cases "c \<in> set s")
  case True
  then obtain a b where s: "s = a @ c # b" "c \<notin> set a" by (meson split_list_first)
  with assms show ?thesis by (auto simp: split_on_append_sep)
qed (use assms in \<open>simp add: split_on_no_sep\<close>)

text \<open>Whether a path starts with the home directory is seen in its components.\<close>

lemma tilde_components:
  "hd (split_on slash s) = lit ''~'' \<longleftrightarrow> (\<exists>cs. path_components s = Normal (lit ''~'') # cs)"
proof
  assume h: "hd (split_on slash s) = lit ''~''"
  have "\<not> is_absolute s" using h by (cases s) (auto simp: str_simps slash_code)
  moreover have "path_body s = Normal (lit ''~'') # concat (map body_component (tl (split_on slash s)))"
    using h by (cases "split_on slash s") (auto simp: path_body_def body_component_def str_simps)
  ultimately show "\<exists>cs. path_components s = Normal (lit ''~'') # cs"
    using h by (simp add: path_components_body str_simps)
next
  assume "\<exists>cs. path_components s = Normal (lit ''~'') # cs"
  then have na: "\<not> is_absolute s" "hd (split_on slash s) \<noteq> lit ''.''" and b: "\<exists>cs. path_body s = Normal (lit ''~'') # cs"
    by (auto simp: path_components_body split: if_splits)
  obtain x xs where sp: "split_on slash s = x # xs" by (cases "split_on slash s") simp_all
  have "x \<noteq> []"
  proof
    assume "x = []"
    with sp hd_split_on [of slash s "[]"] have "s = [] \<or> is_absolute s" by auto
    with na(1) b show False by simp
  qed
  with na(2) b sp show "hd (split_on slash s) = lit ''~''"
    by (auto simp: path_body_def body_component_def split: if_splits)
qed

lemma path_body_trim_start_slashes: "path_body (trim_start_slashes r) = path_body r"
  by (induction r) (auto simp: trim_start_slashes_def)

lemma trim_start_slashes_relative: "\<not> is_absolute (trim_start_slashes r)"
  by (induction r) (auto simp: trim_start_slashes_def)

lemma expand_home_tilde:
  assumes "hd (split_on slash s) = lit ''~''"
  shows "is_absolute (maybe_expand_home_directory (Some h) s) = is_absolute h"
    and "Normal (lit ''~'') # path_body (maybe_expand_home_directory (Some h) s) =
      Normal (lit ''~'') # path_body h @ tl (path_body s)"
proof -
  have tilde: "path_body (lit ''~'') = [Normal (lit ''~'')]" "slash \<notin> set (lit ''~'')" by code_simp+
  from hd_split_on [OF assms] consider "s = lit ''~''" | r where "s = lit ''~'' @ slash # r" by blast
  then have "is_absolute (maybe_expand_home_directory (Some h) s) = is_absolute h \<and>
    path_body (maybe_expand_home_directory (Some h) s) = path_body h @ tl (path_body s)"
  proof cases
    case 1
    with tilde strip_prefix_append [of s "[]"] show ?thesis by (simp add: maybe_expand_home_directory_def)
  next
    case (2 r)
    have "maybe_expand_home_directory (Some h) s = path_push h (trim_start_slashes r)"
      by (simp add: maybe_expand_home_directory_def 2 lit_slash)
    with 2 tilde show ?thesis
      by (simp add: path_body_push is_absolute_push trim_start_slashes_relative path_body_trim_start_slashes path_body_append)
  qed
  then show "is_absolute (maybe_expand_home_directory (Some h) s) = is_absolute h"
    and "Normal (lit ''~'') # path_body (maybe_expand_home_directory (Some h) s) =
      Normal (lit ''~'') # path_body h @ tl (path_body s)" by simp_all
qed

lemma expand_home_other:
  assumes "hd (split_on slash s) \<noteq> lit ''~''"
  shows "maybe_expand_home_directory home s = s"
proof (cases home)
  case (Some h)
  show ?thesis
  proof (cases "strip_prefix (lit ''~'') s")
    case (Some rest)
    then have s: "s = lit ''~'' @ rest" by (simp add: strip_prefix_Some)
    have no: "slash \<notin> set (lit ''~'')" by code_simp
    have "rest \<noteq> []" using s assms no by (auto simp: split_on_no_sep)
    moreover have "strip_prefix (lit ''/'') rest = None"
    proof (rule ccontr)
      assume "strip_prefix (lit ''/'') rest \<noteq> None"
      then obtain r where "rest = slash # r" by (auto simp: strip_prefix_Some lit_slash)
      with s assms no show False by (simp add: split_on_append_sep)
    qed
    ultimately show ?thesis using Some \<open>home = Some h\<close> by (simp add: maybe_expand_home_directory_def)
  qed (simp add: maybe_expand_home_directory_def \<open>home = Some h\<close>)
qed (simp add: maybe_expand_home_directory_def)

lemma resolve_path_eq:
  assumes "path_eq s s'" "is_absolute base"
  shows "resolve_path_against_base home s base = resolve_path_against_base home s' base"
  unfolding resolve_path_against_base_def
proof (rule absolutize_from_body [OF assms(2)])
  let ?e = "maybe_expand_home_directory home"
  have eq: "is_absolute s = is_absolute s'" "path_body s = path_body s'" using assms(1) by (auto simp: path_eq_iff)
  have "(hd (split_on slash s) = lit ''~'') = (hd (split_on slash s') = lit ''~'')"
    using assms(1) by (simp add: tilde_components path_eq_def)
  then consider "hd (split_on slash s) \<noteq> lit ''~''" "hd (split_on slash s') \<noteq> lit ''~''" | "home = None"
    | h where "home = Some h" "hd (split_on slash s) = lit ''~''" "hd (split_on slash s') = lit ''~''"
    by (cases home) auto
  then have "is_absolute (?e s) = is_absolute (?e s') \<and> path_body (?e s) = path_body (?e s')"
  proof cases
    case 1
    then show ?thesis by (simp add: expand_home_other eq)
  next
    case 2
    then show ?thesis by (simp add: maybe_expand_home_directory_def eq)
  next
    case (3 h)
    then show ?thesis using expand_home_tilde [of s h] expand_home_tilde [of s' h] eq(2) by simp
  qed
  then show "is_absolute (?e s) = is_absolute (?e s')" "path_body (?e s) = path_body (?e s')" by simp_all
qed

subsection \<open>Properties\<close>

text \<open>C35. A resolved path is absolute and normalised, whatever the input: for an absolute base the
  result is \<open>/\<close> followed by names that are neither empty nor \<open>.\<close> nor \<open>..\<close> and hold no
  separator; resolving it again, against any base, changes nothing.\<close>

theorem resolve_absolute_normalised:
  assumes "is_absolute base"
  shows "normal_path (resolve_path_against_base home path base) \<and>
    resolve_path_against_base home' (resolve_path_against_base home path base) base' =
      resolve_path_against_base home path base"
  using resolve_normal [OF assms] resolve_of_normal by blast

theorem resolve_absolute_normalised_witness:
  "normal_path (resolve_path_against_base None (lit ''../../a/./b'') (lit ''/x'')) \<and>
    resolve_path_against_base None (resolve_path_against_base None (lit ''../../a/./b'') (lit ''/x'')) (lit ''/y'') =
      resolve_path_against_base None (lit ''../../a/./b'') (lit ''/x'')"
  by (rule resolve_absolute_normalised) (simp add: str_simps slash_code)

end
