(* ===== verification/ExecFs.thy ===== *)
theory ExecFs
  imports Utf8 AbsolutePath "HOL-Library.AList"
begin

text \<open>
  The file system seen by the tools.  \<open>exec_fs\<close> is the trait \<open>ExecutorFileSystem\<close> of
  \<open>file-system/src/lib.rs\<close> as a record of operations over a state; \<open>direct_file_system\<close>,
  \<open>unsandboxed_file_system\<close> and \<open>local_file_system\<close> are its implementations in
  \<open>exec-server/src/local_file_system.rs\<close>.  What these call of \<open>tokio::fs\<close> is the record
  \<open>host\<close>, and the sandboxed implementation, which runs a helper process, is an argument.  The
  locale \<open>executor_file_system\<close> states what clients rely on; it is interpreted for the local file
  system on a host whose state is a directory tree.
\<close>

subsection \<open>Errors and metadata\<close>

datatype error_kind =
    NotFound | InvalidInput | InvalidData | AlreadyExists | NotADirectory | IsADirectory
  | DirectoryNotEmpty | OtherKind

record io_error =
  io_kind :: error_kind
  io_message :: str

definition io_error_new :: "error_kind \<Rightarrow> str \<Rightarrow> io_error" where
  "io_error_new k msg = \<lparr>io_kind = k, io_message = msg\<rparr>"

record file_metadata =
  is_directory :: bool
  is_file :: bool
  is_symlink :: bool
  created_at_ms :: int
  modified_at_ms :: int

record read_directory_entry =
  entry_file_name :: str
  entry_is_directory :: bool
  entry_is_file :: bool

subsection \<open>The trait\<close>

record ('s, 'sb) exec_fs =
  canonicalize :: "str \<Rightarrow> 'sb option \<Rightarrow> 's \<Rightarrow> io_error + str"
  join_path :: "str \<Rightarrow> str \<Rightarrow> io_error + str"
  parent_path :: "str \<Rightarrow> io_error + str option"
  read_file :: "str \<Rightarrow> 'sb option \<Rightarrow> 's \<Rightarrow> io_error + byte list"
  write_file :: "str \<Rightarrow> byte list \<Rightarrow> 'sb option \<Rightarrow> 's \<Rightarrow> 's \<times> (io_error + unit)"
  create_directory :: "str \<Rightarrow> bool \<Rightarrow> 'sb option \<Rightarrow> 's \<Rightarrow> 's \<times> (io_error + unit)"
  get_metadata :: "str \<Rightarrow> 'sb option \<Rightarrow> 's \<Rightarrow> io_error + file_metadata"
  read_directory :: "str \<Rightarrow> 'sb option \<Rightarrow> 's \<Rightarrow> io_error + read_directory_entry list"
  remove_path :: "str \<Rightarrow> bool \<Rightarrow> bool \<Rightarrow> 'sb option \<Rightarrow> 's \<Rightarrow> 's \<times> (io_error + unit)"

definition msg_invalid_utf8 :: str where
  "msg_invalid_utf8 = lit ''invalid utf-8 sequence''"

text \<open>The provided method of the trait.\<close>

definition read_file_text :: "('s, 'sb) exec_fs \<Rightarrow> str \<Rightarrow> 'sb option \<Rightarrow> 's \<Rightarrow> io_error + str" where
  "read_file_text fs path sandbox s =
     and_then (read_file fs path sandbox s)
       (\<lambda>bytes. case from_utf8 bytes of
          Inr txt \<Rightarrow> Inr txt
        | Inl _ \<Rightarrow> Inl (io_error_new InvalidData msg_invalid_utf8))"

subsection \<open>The host\<close>

record host_metadata =
  m_is_dir :: bool
  m_is_file :: bool
  m_is_symlink :: bool
  m_len :: int
  m_created :: "int option"
  m_modified :: "int option"

record 's host =
  h_current_dir :: "'s \<Rightarrow> io_error + str"
  h_canonicalize :: "str \<Rightarrow> 's \<Rightarrow> io_error + str"
  h_metadata :: "str \<Rightarrow> 's \<Rightarrow> io_error + host_metadata"
  h_symlink_metadata :: "str \<Rightarrow> 's \<Rightarrow> io_error + host_metadata"
  h_read :: "str \<Rightarrow> 's \<Rightarrow> io_error + byte list"
  h_write :: "str \<Rightarrow> byte list \<Rightarrow> 's \<Rightarrow> 's \<times> (io_error + unit)"
  h_create_dir :: "str \<Rightarrow> 's \<Rightarrow> 's \<times> (io_error + unit)"
  h_create_dir_all :: "str \<Rightarrow> 's \<Rightarrow> 's \<times> (io_error + unit)"
  h_read_dir :: "str \<Rightarrow> 's \<Rightarrow> io_error + str list"
  h_remove_file :: "str \<Rightarrow> 's \<Rightarrow> 's \<times> (io_error + unit)"
  h_remove_dir :: "str \<Rightarrow> 's \<Rightarrow> 's \<times> (io_error + unit)"
  h_remove_dir_all :: "str \<Rightarrow> 's \<Rightarrow> 's \<times> (io_error + unit)"

subsection \<open>The direct file system\<close>

definition MAX_READ_FILE_BYTES :: int where
  "MAX_READ_FILE_BYTES = 512 * 1024 * 1024"

definition msg_no_sandbox :: str where
  "msg_no_sandbox = lit ''direct filesystem operations do not accept sandbox context''"

definition msg_no_runtime_paths :: str where
  "msg_no_runtime_paths = lit ''sandboxed filesystem operations require configured runtime paths''"

definition msg_too_large :: str where
  "msg_too_large = lit ''file is too large to read: limit is 536870912 bytes''"

definition reject_sandbox_context :: "'sb option \<Rightarrow> io_error + unit" where
  "reject_sandbox_context sandbox =
     (if sandbox \<noteq> None then Inl (io_error_new InvalidInput msg_no_sandbox) else Inr ())"

definition reject_platform_sandbox_context :: "('sb \<Rightarrow> bool) \<Rightarrow> 'sb option \<Rightarrow> io_error + unit" where
  "reject_platform_sandbox_context should_run sandbox =
     (if (case sandbox of Some sb \<Rightarrow> should_run sb | None \<Rightarrow> False)
      then Inl (io_error_new InvalidInput msg_no_runtime_paths) else Inr ())"

text \<open>A check in front of an operation that changes the state: the state is kept on an error.\<close>

definition guarded :: "'e + 'a \<Rightarrow> ('a \<Rightarrow> 's \<Rightarrow> 's \<times> ('e + 'b)) \<Rightarrow> 's \<Rightarrow> 's \<times> ('e + 'b)" where
  "guarded check f s = (case check of Inl e \<Rightarrow> (s, Inl e) | Inr x \<Rightarrow> f x s)"

text \<open>A \<open>SystemTime\<close> is its distance to the epoch in milliseconds.\<close>

definition system_time_to_unix_ms :: "int \<Rightarrow> int" where
  "system_time_to_unix_ms t = (if 0 \<le> t \<and> t < 2 ^ 63 then t else 0)"

definition direct_read_file :: "'s host \<Rightarrow> str \<Rightarrow> 'sb option \<Rightarrow> 's \<Rightarrow> io_error + byte list" where
  "direct_read_file h path sandbox s =
     and_then (reject_sandbox_context sandbox) (\<lambda>_.
     and_then (h_metadata h path s) (\<lambda>metadata.
       if m_len metadata > MAX_READ_FILE_BYTES then Inl (io_error_new InvalidInput msg_too_large)
       else h_read h path s))"

definition direct_write_file :: "'s host \<Rightarrow> str \<Rightarrow> byte list \<Rightarrow> 'sb option \<Rightarrow> 's \<Rightarrow> 's \<times> (io_error + unit)" where
  "direct_write_file h path contents sandbox =
     guarded (reject_sandbox_context sandbox) (\<lambda>_. h_write h path contents)"

definition direct_create_directory :: "'s host \<Rightarrow> str \<Rightarrow> bool \<Rightarrow> 'sb option \<Rightarrow> 's \<Rightarrow> 's \<times> (io_error + unit)" where
  "direct_create_directory h path recursive sandbox =
     guarded (reject_sandbox_context sandbox)
       (\<lambda>_. if recursive then h_create_dir_all h path else h_create_dir h path)"

definition direct_get_metadata :: "'s host \<Rightarrow> str \<Rightarrow> 'sb option \<Rightarrow> 's \<Rightarrow> io_error + file_metadata" where
  "direct_get_metadata h path sandbox s =
     and_then (reject_sandbox_context sandbox) (\<lambda>_.
     and_then (h_metadata h path s) (\<lambda>metadata.
     and_then (h_symlink_metadata h path s) (\<lambda>symlink_metadata.
       Inr \<lparr>is_directory = m_is_dir metadata, is_file = m_is_file metadata,
            is_symlink = m_is_symlink symlink_metadata,
            created_at_ms = (case m_created metadata of None \<Rightarrow> 0 | Some t \<Rightarrow> system_time_to_unix_ms t),
            modified_at_ms = (case m_modified metadata of None \<Rightarrow> 0 | Some t \<Rightarrow> system_time_to_unix_ms t)\<rparr>)))"

fun directory_entries :: "'s host \<Rightarrow> str \<Rightarrow> str list \<Rightarrow> 's \<Rightarrow> read_directory_entry list" where
  "directory_entries h path [] s = []"
| "directory_entries h path (name # names) s =
     (case h_metadata h (path_push path name) s of
        Inl _ \<Rightarrow> directory_entries h path names s
      | Inr metadata \<Rightarrow>
          \<lparr>entry_file_name = name, entry_is_directory = m_is_dir metadata, entry_is_file = m_is_file metadata\<rparr>
          # directory_entries h path names s)"

definition direct_read_directory ::
  "'s host \<Rightarrow> str \<Rightarrow> 'sb option \<Rightarrow> 's \<Rightarrow> io_error + read_directory_entry list" where
  "direct_read_directory h path sandbox s =
     and_then (reject_sandbox_context sandbox) (\<lambda>_.
     and_then (h_read_dir h path s) (\<lambda>names. Inr (directory_entries h path names s)))"

definition direct_remove :: "'s host \<Rightarrow> str \<Rightarrow> bool \<Rightarrow> bool \<Rightarrow> 'sb option \<Rightarrow> 's \<Rightarrow> 's \<times> (io_error + unit)" where
  "direct_remove h path recursive force sandbox =
     guarded (reject_sandbox_context sandbox) (\<lambda>_ s.
       case h_symlink_metadata h path s of
         Inr metadata \<Rightarrow>
           if m_is_dir metadata then
             (if recursive then h_remove_dir_all h path s else h_remove_dir h path s)
           else h_remove_file h path s
       | Inl err \<Rightarrow> if io_kind err = NotFound \<and> force then (s, Inr ()) else (s, Inl err))"

definition direct_canonicalize :: "str option \<Rightarrow> 's host \<Rightarrow> str \<Rightarrow> 'sb option \<Rightarrow> 's \<Rightarrow> io_error + str" where
  "direct_canonicalize home h path sandbox s =
     and_then (reject_sandbox_context sandbox) (\<lambda>_.
     and_then (h_canonicalize h path s)
       (\<lambda>p. from_absolute_path home (h_current_dir h s) p))"

definition direct_file_system :: "str option \<Rightarrow> 's host \<Rightarrow> ('s, 'sb) exec_fs" where
  "direct_file_system home h =
     \<lparr>canonicalize = direct_canonicalize home h,
      join_path = (\<lambda>base path. Inr (abs_join home base path)), parent_path = (\<lambda>path. Inr (abs_parent path)),
      read_file = direct_read_file h,
      write_file = direct_write_file h, create_directory = direct_create_directory h,
      get_metadata = direct_get_metadata h, read_directory = direct_read_directory h,
      remove_path = direct_remove h\<rparr>"

subsection \<open>The unsandboxed and the local file system\<close>

definition unsandboxed_file_system :: "('sb \<Rightarrow> bool) \<Rightarrow> ('s, 'sb) exec_fs \<Rightarrow> ('s, 'sb) exec_fs" where
  "unsandboxed_file_system should_run direct =
     (let check = reject_platform_sandbox_context should_run in
      \<lparr>canonicalize = (\<lambda>path sandbox s. and_then (check sandbox) (\<lambda>_. canonicalize direct path None s)),
       join_path = join_path direct, parent_path = parent_path direct,
       read_file = (\<lambda>path sandbox s. and_then (check sandbox) (\<lambda>_. read_file direct path None s)),
       write_file = (\<lambda>path contents sandbox. guarded (check sandbox) (\<lambda>_. write_file direct path contents None)),
       create_directory = (\<lambda>path options sandbox.
         guarded (check sandbox) (\<lambda>_. create_directory direct path options None)),
       get_metadata = (\<lambda>path sandbox s. and_then (check sandbox) (\<lambda>_. get_metadata direct path None s)),
       read_directory = (\<lambda>path sandbox s. and_then (check sandbox) (\<lambda>_. read_directory direct path None s)),
       remove_path = (\<lambda>path recursive force sandbox.
         guarded (check sandbox) (\<lambda>_. remove_path direct path recursive force None))\<rparr>)"

record ('s, 'sb) local_fs =
  unsandboxed :: "('s, 'sb) exec_fs"
  sandboxed :: "('s, 'sb) exec_fs option"

definition local_sandboxed :: "('s, 'sb) local_fs \<Rightarrow> io_error + ('s, 'sb) exec_fs" where
  "local_sandboxed l =
     (case sandboxed l of Some fs \<Rightarrow> Inr fs | None \<Rightarrow> Inl (io_error_new InvalidInput msg_no_runtime_paths))"

definition file_system_for ::
  "('sb \<Rightarrow> bool) \<Rightarrow> ('s, 'sb) local_fs \<Rightarrow> 'sb option \<Rightarrow> io_error + (('s, 'sb) exec_fs \<times> 'sb option)" where
  "file_system_for should_run l sandbox =
     (if (case sandbox of Some sb \<Rightarrow> should_run sb | None \<Rightarrow> False)
      then and_then (local_sandboxed l) (\<lambda>fs. Inr (fs, sandbox))
      else Inr (unsandboxed l, sandbox))"

definition local_file_system :: "('sb \<Rightarrow> bool) \<Rightarrow> ('s, 'sb) local_fs \<Rightarrow> ('s, 'sb) exec_fs" where
  "local_file_system should_run l =
     (let route = file_system_for should_run l in
      \<lparr>canonicalize = (\<lambda>path sandbox s. and_then (route sandbox) (\<lambda>(fs, sb). canonicalize fs path sb s)),
       join_path = join_path (unsandboxed l), parent_path = parent_path (unsandboxed l),
       read_file = (\<lambda>path sandbox s. and_then (route sandbox) (\<lambda>(fs, sb). read_file fs path sb s)),
       write_file = (\<lambda>path contents sandbox. guarded (route sandbox) (\<lambda>(fs, sb). write_file fs path contents sb)),
       create_directory = (\<lambda>path options sandbox.
         guarded (route sandbox) (\<lambda>(fs, sb). create_directory fs path options sb)),
       get_metadata = (\<lambda>path sandbox s. and_then (route sandbox) (\<lambda>(fs, sb). get_metadata fs path sb s)),
       read_directory = (\<lambda>path sandbox s. and_then (route sandbox) (\<lambda>(fs, sb). read_directory fs path sb s)),
       remove_path = (\<lambda>path recursive force sandbox.
         guarded (route sandbox) (\<lambda>(fs, sb). remove_path fs path recursive force sb))\<rparr>)"

text \<open>\<open>LocalFileSystem::unsandboxed()\<close>.\<close>

definition local_unsandboxed :: "str option \<Rightarrow> ('sb \<Rightarrow> bool) \<Rightarrow> 's host \<Rightarrow> ('s, 'sb) local_fs" where
  "local_unsandboxed home should_run h =
     \<lparr>unsandboxed = unsandboxed_file_system should_run (direct_file_system home h), sandboxed = None\<rparr>"

lemmas local_fs_defs = local_file_system_def local_unsandboxed_def file_system_for_def local_sandboxed_def
  unsandboxed_file_system_def direct_file_system_def reject_platform_sandbox_context_def
  reject_sandbox_context_def guarded_def

subsection \<open>What clients rely on\<close>

text \<open>The files of a state are the readable contents per normalised path.  A successful write or
  removal changes that path only; a failed one may have touched its own path but no other (a failed removal either
  removed the file or left it), and a write that fails because a directory is missing touched nothing; creating directories leaves all
  files as they are.\<close>

locale executor_file_system =
  fixes fs :: "('s, 'sb) exec_fs" and sandbox :: "'sb option"
    and view :: "'s \<Rightarrow> str \<Rightarrow> byte list option"
  assumes read_ok: "normal_path p \<Longrightarrow> read_file fs p sandbox s = Inr b \<Longrightarrow> view s p = Some b"
    and read_not_found: "normal_path p \<Longrightarrow> read_file fs p sandbox s = Inl e \<Longrightarrow> io_kind e = NotFound \<Longrightarrow>
      view s p = None"
    and write_ok: "normal_path p \<Longrightarrow> write_file fs p b sandbox s = (s', Inr ()) \<Longrightarrow>
      view s' = (view s)(p \<mapsto> b)"
    and write_not_found: "normal_path p \<Longrightarrow> write_file fs p b sandbox s = (s', Inl e) \<Longrightarrow>
      io_kind e = NotFound \<Longrightarrow> view s' = view s"
    and write_failed: "normal_path p \<Longrightarrow> write_file fs p b sandbox s = (s', Inl e) \<Longrightarrow> q \<noteq> p \<Longrightarrow>
      view s' q = view s q"
    and mkdir: "normal_path p \<Longrightarrow> create_directory fs p rec sandbox s = (s', r) \<Longrightarrow> view s' = view s"
    and remove_ok: "normal_path p \<Longrightarrow> remove_path fs p False False sandbox s = (s', Inr ()) \<Longrightarrow>
      view s' = (view s)(p := None)"
    and remove_failed: "normal_path p \<Longrightarrow> remove_path fs p False False sandbox s = (s', Inl e) \<Longrightarrow> q \<noteq> p \<Longrightarrow>
      view s' q = view s q"
    and remove_failed_self: "normal_path p \<Longrightarrow> remove_path fs p False False sandbox s = (s', Inl e) \<Longrightarrow>
      view s' p = view s p \<or> view s' p = None"
begin

lemma read_text_ok:
  assumes "normal_path p" "read_file_text fs p sandbox s = Inr t"
  shows "view s p = Some (into_bytes t)"
proof -
  from assms(2) obtain b where b: "read_file fs p sandbox s = Inr b" "from_utf8 b = Inr t"
    by (cases "read_file fs p sandbox s") (auto simp: read_file_text_def split: sum.splits)
  with read_ok [OF assms(1) b(1)] from_utf8_sound show ?thesis by blast
qed

lemma read_text_not_found:
  assumes "normal_path p" "read_file_text fs p sandbox s = Inl e" "io_kind e = NotFound"
  shows "view s p = None"
  using assms read_not_found
  by (cases "read_file fs p sandbox s") (auto simp: read_file_text_def io_error_new_def split: sum.splits)

end

end
