(* ===== verification/HostTree.thy ===== *)
theory HostTree
  imports ExecFs
begin

text \<open>
  A host whose state is a directory tree without symbolic links, with the errors POSIX gives for
  missing and misplaced components, and the interpretation of \<open>executor_file_system\<close> for the
  local file system on it.
\<close>

datatype node = FileNode "byte list" | DirNode "(str \<times> node) list"

abbreviation fail_not_found :: "io_error" where
  "fail_not_found \<equiv> io_error_new NotFound (lit ''No such file or directory'')"

abbreviation fail_not_a_directory :: "io_error" where
  "fail_not_a_directory \<equiv> io_error_new NotADirectory (lit ''Not a directory'')"

abbreviation fail_is_a_directory :: "io_error" where
  "fail_is_a_directory \<equiv> io_error_new IsADirectory (lit ''Is a directory'')"

abbreviation fail_exists :: "io_error" where
  "fail_exists \<equiv> io_error_new AlreadyExists (lit ''File exists'')"

abbreviation fail_not_empty :: "io_error" where
  "fail_not_empty \<equiv> io_error_new DirectoryNotEmpty (lit ''Directory not empty'')"

abbreviation fail_busy :: "io_error" where
  "fail_busy \<equiv> io_error_new OtherKind (lit ''Device or resource busy'')"

subsection \<open>Walking the tree\<close>

fun lookup_node :: "node \<Rightarrow> str list \<Rightarrow> io_error + node" where
  "lookup_node n [] = Inr n"
| "lookup_node (FileNode b) (x # xs) = Inl fail_not_a_directory"
| "lookup_node (DirNode es) (x # xs) =
     (case map_of es x of None \<Rightarrow> Inl fail_not_found | Some n \<Rightarrow> lookup_node n xs)"

text \<open>Change the entry at a path: \<open>f\<close> sees the present entry and gives the new one.\<close>

fun alter_node :: "(node option \<Rightarrow> io_error + node option) \<Rightarrow> node \<Rightarrow> str list \<Rightarrow> io_error + node" where
  "alter_node f n [] = (case f (Some n) of Inl e \<Rightarrow> Inl e | Inr _ \<Rightarrow> Inl fail_busy)"
| "alter_node f (FileNode b) (x # xs) = Inl fail_not_a_directory"
| "alter_node f (DirNode es) [x] =
     (case f (map_of es x) of
        Inl e \<Rightarrow> Inl e
      | Inr None \<Rightarrow> Inr (DirNode (AList.delete x es))
      | Inr (Some n) \<Rightarrow> Inr (DirNode (AList.update x n es)))"
| "alter_node f (DirNode es) (x # y # ys) =
     (case map_of es x of
        None \<Rightarrow> Inl fail_not_found
      | Some n \<Rightarrow>
          (case alter_node f n (y # ys) of
             Inl e \<Rightarrow> Inl e
           | Inr n' \<Rightarrow> Inr (DirNode (AList.update x n' es))))"

definition path_names :: "str \<Rightarrow> str list" where
  "path_names p = concat (map (\<lambda>c. case c of Normal s \<Rightarrow> [s] | _ \<Rightarrow> []) (path_components p))"

definition altered :: "(node option \<Rightarrow> io_error + node option) \<Rightarrow> str \<Rightarrow> node \<Rightarrow> node \<times> (io_error + unit)" where
  "altered f p t = (case alter_node f t (path_names p) of Inl e \<Rightarrow> (t, Inl e) | Inr t' \<Rightarrow> (t', Inr ()))"

fun put_file :: "byte list \<Rightarrow> node option \<Rightarrow> io_error + node option" where
  "put_file b (Some (DirNode es)) = Inl fail_is_a_directory"
| "put_file b _ = Inr (Some (FileNode b))"

fun make_dir :: "node option \<Rightarrow> io_error + node option" where
  "make_dir None = Inr (Some (DirNode []))"
| "make_dir (Some _) = Inl fail_exists"

fun drop_file :: "node option \<Rightarrow> io_error + node option" where
  "drop_file None = Inl fail_not_found"
| "drop_file (Some (DirNode es)) = Inl fail_is_a_directory"
| "drop_file (Some (FileNode b)) = Inr None"

fun drop_dir :: "node option \<Rightarrow> io_error + node option" where
  "drop_dir None = Inl fail_not_found"
| "drop_dir (Some (FileNode b)) = Inl fail_not_a_directory"
| "drop_dir (Some (DirNode es)) = (if es = [] then Inr None else Inl fail_not_empty)"

fun drop_tree :: "node option \<Rightarrow> io_error + node option" where
  "drop_tree None = Inl fail_not_found"
| "drop_tree (Some (FileNode b)) = Inl fail_not_a_directory"
| "drop_tree (Some (DirNode es)) = Inr None"

text \<open>\<open>create_dir_all\<close>: the missing directories from the root downwards.\<close>

fun make_dirs :: "str list \<Rightarrow> str list \<Rightarrow> node \<Rightarrow> node \<times> (io_error + unit)" where
  "make_dirs upper [] t = (t, Inr ())"
| "make_dirs upper (x # xs) t =
     (case lookup_node t (upper @ [x]) of
        Inr (DirNode es) \<Rightarrow> make_dirs (upper @ [x]) xs t
      | _ \<Rightarrow>
          (case alter_node make_dir t (upper @ [x]) of
             Inl e \<Rightarrow> (t, Inl e)
           | Inr t' \<Rightarrow> make_dirs (upper @ [x]) xs t'))"

fun metadata_of :: "node \<Rightarrow> host_metadata" where
  "metadata_of (FileNode b) =
     \<lparr>m_is_dir = False, m_is_file = True, m_is_symlink = False, m_len = int (length b), m_created = None, m_modified = None\<rparr>"
| "metadata_of (DirNode es) =
     \<lparr>m_is_dir = True, m_is_file = False, m_is_symlink = False, m_len = 0, m_created = None, m_modified = None\<rparr>"

definition tree_host :: "node host" where
  "tree_host =
     \<lparr>h_current_dir = (\<lambda>t. Inr (lit ''/'')),
      h_canonicalize = (\<lambda>p t. and_then (lookup_node t (path_names p)) (\<lambda>_. Inr p)),
      h_metadata = (\<lambda>p t. and_then (lookup_node t (path_names p)) (\<lambda>n. Inr (metadata_of n))),
      h_symlink_metadata = (\<lambda>p t. and_then (lookup_node t (path_names p)) (\<lambda>n. Inr (metadata_of n))),
      h_read = (\<lambda>p t. and_then (lookup_node t (path_names p))
        (\<lambda>n. case n of FileNode b \<Rightarrow> Inr b | DirNode _ \<Rightarrow> Inl fail_is_a_directory)),
      h_write = (\<lambda>p b. altered (put_file b) p),
      h_create_dir = altered make_dir,
      h_create_dir_all = (\<lambda>p. make_dirs [] (path_names p)),
      h_read_dir = (\<lambda>p t. and_then (lookup_node t (path_names p))
        (\<lambda>n. case n of DirNode es \<Rightarrow> Inr (map fst es) | FileNode _ \<Rightarrow> Inl fail_not_a_directory)),
      h_remove_file = altered drop_file,
      h_remove_dir = altered drop_dir,
      h_remove_dir_all = altered drop_tree\<rparr>"

definition tree_files :: "node \<Rightarrow> str list \<Rightarrow> byte list option" where
  "tree_files t names = (case lookup_node t names of Inr (FileNode b) \<Rightarrow> Some b | _ \<Rightarrow> None)"

definition tree_view :: "node \<Rightarrow> str \<Rightarrow> byte list option" where
  "tree_view t p = (if normal_path p then tree_files t (path_names p) else None)"

subsection \<open>The effect of a change\<close>

lemma path_names_abs_path [simp]: "list_all valid_name names \<Longrightarrow> path_names (abs_path names) = names"
  by (simp add: path_names_def path_components_abs_path comp_def)

lemma path_names_inj: "normal_path p \<Longrightarrow> normal_path q \<Longrightarrow> path_names p = path_names q \<longleftrightarrow> p = q"
  by (auto simp: normal_path_def)

lemma tree_files_simps [simp]:
  "tree_files (FileNode b) (x # xs) = None"
  "tree_files (DirNode es) [] = None"
  "tree_files (DirNode es) (x # xs) = (case map_of es x of None \<Rightarrow> None | Some n \<Rightarrow> tree_files n xs)"
  "tree_files (FileNode b) [] = Some b"
  by (simp_all add: tree_files_def split: option.splits)

text \<open>The files at and below the changed entry.\<close>

definition entry_files :: "node option \<Rightarrow> str list \<Rightarrow> byte list option" where
  "entry_files n ys = (case n of None \<Rightarrow> None | Some n \<Rightarrow> tree_files n ys)"

lemma alter_node_files:
  assumes "alter_node f t xs = Inr t'"
  shows "\<exists>old new. f old = Inr new \<and> (\<forall>ys. tree_files t (xs @ ys) = entry_files old ys) \<and>
    (\<forall>zs. tree_files t' zs = (if take (length xs) zs = xs then entry_files new (drop (length xs) zs)
        else tree_files t zs))"
  using assms
proof (induction f t xs arbitrary: t' rule: alter_node.induct)
  case (3 f es x)
  then obtain new where new: "f (map_of es x) = Inr new"
    and t': "t' = DirNode (case new of None \<Rightarrow> AList.delete x es | Some n \<Rightarrow> AList.update x n es)"
    by (auto split: sum.splits option.splits)
  have "tree_files t' zs = (if take (length [x]) zs = [x] then entry_files new (drop (length [x]) zs)
        else tree_files (DirNode es) zs)" for zs
    by (cases zs; cases new) (auto simp: t' entry_files_def AList.update_conv AList.delete_conv)
  with new show ?case by (intro exI [of _ "map_of es x"] exI [of _ new]) (auto simp: entry_files_def)
next
  case (4 f es x y ys)
  then obtain n n' where n: "map_of es x = Some n" "alter_node f n (y # ys) = Inr n'"
    and t': "t' = DirNode (AList.update x n' es)"
    by (auto split: sum.splits option.splits)
  from "4.IH" [OF n] obtain old new where f: "f old = Inr new"
    and o: "\<And>zs. tree_files n ((y # ys) @ zs) = entry_files old zs"
    and e: "\<And>zs. tree_files n' zs = (if take (length (y # ys)) zs = y # ys
        then entry_files new (drop (length (y # ys)) zs) else tree_files n zs)" by blast
  have "tree_files t' zs = (if take (length (x # y # ys)) zs = x # y # ys
        then entry_files new (drop (length (x # y # ys)) zs) else tree_files (DirNode es) zs)" for zs
  proof (cases zs)
    case (Cons z zs')
    then show ?thesis using n(1) e [of zs'] by (auto simp: t' AList.update_conv)
  qed (simp add: t')
  with f o n(1) show ?case by (intro exI [of _ old] exI [of _ new]) auto
qed (auto split: sum.splits)

lemma alter_node_keeps:
  assumes "alter_node f t xs = Inr t'"
    and "\<And>old new ys. f old = Inr new \<Longrightarrow> ys \<noteq> [] \<Longrightarrow> entry_files new ys = entry_files old ys"
  shows "\<exists>old new. f old = Inr new \<and> tree_files t xs = entry_files old [] \<and>
    tree_files t' = (tree_files t)(xs := entry_files new [])"
proof -
  from alter_node_files [OF assms(1)] obtain old new where f: "f old = Inr new"
    and o: "\<And>ys. tree_files t (xs @ ys) = entry_files old ys"
    and e: "\<And>zs. tree_files t' zs = (if take (length xs) zs = xs then entry_files new (drop (length xs) zs)
        else tree_files t zs)" by blast
  have "tree_files t' zs = ((tree_files t)(xs := entry_files new [])) zs" for zs
  proof (cases "take (length xs) zs = xs \<and> zs \<noteq> xs")
    case True
    then obtain ys where ys: "zs = xs @ ys" "ys \<noteq> []" by (metis append_take_drop_id append_Nil2)
    then show ?thesis using e [of zs] o [of ys] assms(2) [OF f ys(2)] by simp
  qed (use e [of zs] in auto)
  then have "tree_files t' = (tree_files t)(xs := entry_files new [])" by (rule ext)
  with f o [of "[]"] show ?thesis by (metis append_Nil2)
qed

lemma put_file_keeps: "put_file b old = Inr new \<Longrightarrow> new = Some (FileNode b) \<and> (ys \<noteq> [] \<longrightarrow> entry_files old ys = None)"
  by (cases "(b, old)" rule: put_file.cases) (auto simp: entry_files_def neq_Nil_conv split: option.splits)

lemma make_dir_keeps: "make_dir old = Inr new \<Longrightarrow> old = None \<and> new = Some (DirNode [])"
  by (cases old) auto

lemma drop_file_keeps: "drop_file old = Inr new \<Longrightarrow> new = None \<and> (\<exists>b. old = Some (FileNode b))"
  by (cases old rule: drop_file.cases) auto

lemma drop_dir_keeps: "drop_dir old = Inr new \<Longrightarrow> new = None \<and> old = Some (DirNode [])"
  by (cases old rule: drop_dir.cases) (auto split: if_splits)

lemma tree_files_DirNode_Nil [simp]: "tree_files (DirNode []) ys = None"
  by (cases ys) auto

lemma tree_write:
  assumes "alter_node (put_file b) t xs = Inr t'"
  shows "tree_files t' = (tree_files t)(xs \<mapsto> b)"
proof -
  have "entry_files new ys = entry_files old ys" if "put_file b old = Inr new" "ys \<noteq> []" for old new ys
    using put_file_keeps [OF that(1), of ys] that(2) by (cases ys) (auto simp: entry_files_def)
  from alter_node_keeps [OF assms this] put_file_keeps show ?thesis by (fastforce simp: entry_files_def)
qed

lemma tree_make_dir:
  assumes "alter_node make_dir t xs = Inr t'"
  shows "tree_files t' = tree_files t"
proof -
  have "entry_files new ys = entry_files old ys" if "make_dir old = Inr new" for old new ys
    using make_dir_keeps [OF that] by (auto simp: entry_files_def)
  from alter_node_keeps [OF assms this] this show ?thesis by (metis fun_upd_triv)
qed

lemma tree_drop:
  assumes "alter_node f t xs = Inr t'" and "f = drop_file \<or> f = drop_dir"
  shows "tree_files t' = (tree_files t)(xs := None)"
proof -
  have k: "new = None \<and> (ys \<noteq> [] \<longrightarrow> entry_files old ys = None)" if "f old = Inr new" for old new ys
    using assms(2) that by (cases ys) (auto simp: entry_files_def dest!: drop_file_keeps drop_dir_keeps)
  then have "entry_files new ys = entry_files old ys" if "f old = Inr new" "ys \<noteq> []" for old new ys
    using that by (metis entry_files_def option.simps(4))
  from alter_node_keeps [OF assms(1) this] k show ?thesis by (fastforce simp: entry_files_def)
qed

lemma tree_make_dirs: "make_dirs upper xs t = (t', r) \<Longrightarrow> tree_files t' = tree_files t"
proof (induction xs arbitrary: upper t)
  case (Cons x xs)
  show ?case
  proof (cases "\<exists>es. lookup_node t (upper @ [x]) = Inr (DirNode es)")
    case True
    with Cons show ?thesis by auto
  next
    case False
    then have step: "make_dirs upper (x # xs) t = (case alter_node make_dir t (upper @ [x]) of
        Inl e \<Rightarrow> (t, Inl e) | Inr t' \<Rightarrow> make_dirs (upper @ [x]) xs t')"
      by (auto split: sum.splits node.splits)
    show ?thesis
    proof (cases "alter_node make_dir t (upper @ [x])")
      case (Inr u)
      with Cons.prems step have "make_dirs (upper @ [x]) xs u = (t', r)" by simp
      from Cons.IH [OF this] tree_make_dir [OF Inr] show ?thesis by simp
    qed (use Cons.prems step in simp)
  qed
qed simp

lemma altered_cases:
  assumes "altered f p t = (t', r)"
  obtains e where "t' = t" "r = Inl e" | "alter_node f t (path_names p) = Inr t'" "r = Inr ()"
  using assms by (auto simp: altered_def split: sum.splits)

lemma tree_view_upd:
  assumes "normal_path p" and "tree_files t' = (tree_files t)(path_names p := v)"
  shows "tree_view t' = (tree_view t)(p := v)"
  using assms path_names_inj by (fastforce simp: tree_view_def)

lemma tree_view_same: "tree_files t' = tree_files t \<Longrightarrow> tree_view t' = tree_view t"
  by (simp add: tree_view_def fun_eq_iff)

subsection \<open>The contract holds on the tree\<close>

definition tree_fs :: "('sb \<Rightarrow> bool) \<Rightarrow> (node, 'sb) exec_fs" where
  "tree_fs should_run = local_file_system should_run (local_unsandboxed None should_run tree_host)"

lemma tree_fs_read:
  "read_file (tree_fs should_run) p None t = Inr b \<Longrightarrow> lookup_node t (path_names p) = Inr (FileNode b)"
  by (cases "lookup_node t (path_names p)")
    (auto simp: tree_fs_def local_fs_defs direct_read_file_def tree_host_def split: if_splits node.splits)

lemma tree_fs_read_error:
  "read_file (tree_fs should_run) p None t = Inl e \<Longrightarrow> io_kind e = NotFound \<Longrightarrow>
    tree_files t (path_names p) = None"
  by (cases "lookup_node t (path_names p)")
    (auto simp: tree_fs_def local_fs_defs direct_read_file_def tree_host_def tree_files_def io_error_new_def
      split: if_splits node.splits)

lemma tree_fs_write:
  "write_file (tree_fs should_run) p b None = altered (put_file b) p"
  by (simp add: tree_fs_def local_fs_defs direct_write_file_def tree_host_def fun_eq_iff)

lemma tree_fs_mkdir:
  "create_directory (tree_fs should_run) p rec None =
     (if rec then make_dirs [] (path_names p) else altered make_dir p)"
  by (simp add: tree_fs_def local_fs_defs direct_create_directory_def tree_host_def fun_eq_iff)

lemma tree_fs_remove:
  assumes "remove_path (tree_fs should_run) p False False None t = (t', r)"
  obtains e where "t' = t" "r = Inl e"
  | f where "f = drop_file \<or> f = drop_dir" "altered f p t = (t', r)"
proof (cases "lookup_node t (path_names p)")
  case (Inl e)
  with assms that(1) show ?thesis
    by (auto simp: tree_fs_def local_fs_defs direct_remove_def tree_host_def)
next
  case (Inr n)
  with assms that(2) show ?thesis
    by (cases n) (auto simp: tree_fs_def local_fs_defs direct_remove_def tree_host_def)
qed

lemma tree_fs_laws: "executor_file_system (tree_fs should_run) None tree_view"
proof
  fix p :: str and s s' :: node and b e q rec and r :: "io_error + unit"
  assume n: "normal_path p"
  show "tree_view s p = Some b" if "read_file (tree_fs should_run) p None s = Inr b"
    using tree_fs_read [OF that] n by (simp add: tree_view_def tree_files_def)
  show "tree_view s p = None" if "read_file (tree_fs should_run) p None s = Inl e" "io_kind e = NotFound"
    using tree_fs_read_error [OF that] by (simp add: tree_view_def)
  show "tree_view s' = (tree_view s)(p \<mapsto> b)" if "write_file (tree_fs should_run) p b None s = (s', Inr ())"
    using that n by (auto simp: tree_fs_write elim!: altered_cases intro!: tree_view_upd tree_write)
  show "tree_view s' = tree_view s"
    if "write_file (tree_fs should_run) p b None s = (s', Inl e)" "io_kind e = NotFound"
    using that(1) by (auto simp: tree_fs_write elim!: altered_cases)
  show "tree_view s' q = tree_view s q"
    if "write_file (tree_fs should_run) p b None s = (s', Inl e)" "q \<noteq> p"
    using that(1) by (auto simp: tree_fs_write elim!: altered_cases)
  show "tree_view s' = tree_view s" if "create_directory (tree_fs should_run) p rec None s = (s', r)"
    using that by (auto simp: tree_fs_mkdir intro: tree_view_same tree_make_dirs tree_make_dir
        elim!: altered_cases split: if_splits)
  show "tree_view s' = (tree_view s)(p := None)"
    if "remove_path (tree_fs should_run) p False False None s = (s', Inr ())"
    using that
  proof (cases rule: tree_fs_remove)
    case (2 f)
    then have "alter_node f s (path_names p) = Inr s'" by (auto elim!: altered_cases)
    from tree_view_upd [OF n tree_drop [OF this 2(1)]] show ?thesis .
  qed simp
  show "tree_view s' q = tree_view s q"
    if "remove_path (tree_fs should_run) p False False None s = (s', Inl e)" "q \<noteq> p"
    using that(1)
  proof (cases rule: tree_fs_remove)
    case (2 f)
    then show ?thesis by (auto elim!: altered_cases)
  qed simp
  show "tree_view s' p = tree_view s p \<or> tree_view s' p = None"
    if "remove_path (tree_fs should_run) p False False None s = (s', Inl e)"
    using that
  proof (cases rule: tree_fs_remove)
    case (2 f)
    then show ?thesis by (auto elim!: altered_cases)
  qed simp
qed

interpretation tree: executor_file_system "tree_fs should_run" None tree_view for should_run
  by (rule tree_fs_laws)

subsection \<open>Properties\<close>



end
