(* ===== verification/PatchApply.thy ===== *)
theory PatchApply
  imports PatchReplace PatchStreaming HostTree
begin

text \<open>
  Applying parsed hunks to a file system, \<open>apply-patch/src/lib.rs\<close>: one step per hunk over the
  state of the file system, the delta of committed changes and the affected paths.  The
  specification works on the files alone (\<open>spec_hunk\<close>), and \<open>replay\<close> and \<open>undo\<close> give a
  delta its meaning.  The lemmas of the locale context hold for every file system that keeps the
  contract; the standard output and error of the tool are the texts written.
\<close>

subsection \<open>Errors and deltas\<close>

datatype apply_patch_error =
    ParseErr parse_error
  | IoErr str io_error
  | ComputeReplacementsErr str
  | ImplicitInvocation

text \<open>\<open>anyhow::Error\<close>: an I/O error below a list of contexts, an \<open>ApplyPatchError\<close> or a message.\<close>

datatype anyhow = AnyIo "str list" io_error | AnyApply apply_patch_error | AnyMsg str | AnyPanic

definition with_context :: "io_error + 'a \<Rightarrow> str \<Rightarrow> anyhow + 'a" where
  "with_context r ctx = map_sum (AnyIo [ctx]) id r"

datatype applied_patch_file_change =
    AddChange str "str option"
  | DeleteChange str
  | UpdateChange "str option" str "str option" str

record applied_patch_change =
  apc_path :: str
  apc_change :: applied_patch_file_change

record applied_patch_delta =
  delta_changes :: "applied_patch_change list"
  delta_exact :: bool

definition delta_empty :: applied_patch_delta where
  "delta_empty = \<lparr>delta_changes = [], delta_exact = True\<rparr>"

definition delta_append :: "applied_patch_delta \<Rightarrow> applied_patch_delta \<Rightarrow> applied_patch_delta" where
  "delta_append d other =
     \<lparr>delta_changes = delta_changes d @ delta_changes other, delta_exact = (delta_exact d \<and> delta_exact other)\<rparr>"

definition push_change :: "applied_patch_delta \<Rightarrow> str \<Rightarrow> applied_patch_file_change \<Rightarrow> applied_patch_delta" where
  "push_change d path change =
     d\<lparr>delta_changes := delta_changes d @ [\<lparr>apc_path = path, apc_change = change\<rparr>]\<rparr>"

record affected_paths =
  added :: "str list"
  modified :: "str list"
  deleted :: "str list"

subsection \<open>Helpers\<close>

definition note_existing_path_delta_support ::
  "('s, 'sb) exec_fs \<Rightarrow> 'sb option \<Rightarrow> str \<Rightarrow> 's \<Rightarrow> bool \<Rightarrow> bool" where
  "note_existing_path_delta_support fs sandbox path s exact =
     (case get_metadata fs path sandbox s of
        Inr metadata \<Rightarrow> if is_file metadata \<and> \<not> is_symlink metadata then exact else False
      | Inl source \<Rightarrow> if io_kind source = NotFound then exact else False)"

definition read_optional_file_text_for_delta ::
  "('s, 'sb) exec_fs \<Rightarrow> 'sb option \<Rightarrow> str \<Rightarrow> 's \<Rightarrow> bool \<Rightarrow> str option \<times> bool" where
  "read_optional_file_text_for_delta fs sandbox path s exact =
     (let exact = note_existing_path_delta_support fs sandbox path s exact in
      case read_file_text fs path sandbox s of
        Inr content \<Rightarrow> (Some content, exact)
      | Inl source \<Rightarrow> if io_kind source = NotFound then (None, exact) else (None, False))"

definition remove_failure_was_side_effect_free ::
  "('s, 'sb) exec_fs \<Rightarrow> 'sb option \<Rightarrow> str \<Rightarrow> str option \<Rightarrow> 's \<Rightarrow> bool" where
  "remove_failure_was_side_effect_free fs sandbox path expected_content s =
     (case expected_content of
        Some expected_content \<Rightarrow> read_file_text fs path sandbox s = Inr expected_content
      | None \<Rightarrow> False)"

definition ensure_not_directory :: "('s, 'sb) exec_fs \<Rightarrow> 'sb option \<Rightarrow> str \<Rightarrow> 's \<Rightarrow> io_error + unit" where
  "ensure_not_directory fs sandbox path s =
     and_then (get_metadata fs path sandbox s)
       (\<lambda>metadata. if is_directory metadata
          then Inl (io_error_new InvalidInput (lit ''path is a directory'')) else Inr ())"

definition msg_write_failed :: "str \<Rightarrow> str" where
  "msg_write_failed path = lit ''Failed to write file '' @ path"

definition msg_parents_failed :: "str \<Rightarrow> str" where
  "msg_parents_failed path = lit ''Failed to create parent directories for '' @ path"

definition write_file_with_missing_parent_retry ::
  "('s, 'sb) exec_fs \<Rightarrow> 'sb option \<Rightarrow> str \<Rightarrow> byte list \<Rightarrow> 's \<Rightarrow> 's \<times> (anyhow + unit)" where
  "write_file_with_missing_parent_retry fs sandbox path_abs contents s =
     (case write_file fs path_abs contents sandbox s of
        (s1, Inr _) \<Rightarrow> (s1, Inr ())
      | (s1, Inl err) \<Rightarrow>
          if io_kind err = NotFound then
            (case (case abs_parent path_abs of
                     Some parent_abs \<Rightarrow> create_directory fs parent_abs True sandbox s1
                   | None \<Rightarrow> (s1, Inr ())) of
               (s2, Inl e) \<Rightarrow> (s2, Inl (AnyIo [msg_parents_failed path_abs] e))
             | (s2, Inr _) \<Rightarrow>
                 (case write_file fs path_abs contents sandbox s2 of
                    (s3, r) \<Rightarrow> (s3, with_context r (msg_write_failed path_abs))))
          else (s1, Inl (AnyIo [msg_write_failed path_abs] err)))"

record applied_patch =
  original_contents :: str
  new_contents :: str

definition msg_read_failed :: "str \<Rightarrow> str" where
  "msg_read_failed path = lit ''Failed to read file to update '' @ path"

definition derive_new_contents_from_chunks ::
  "('s, 'sb) exec_fs \<Rightarrow> 'sb option \<Rightarrow> str \<Rightarrow> update_file_chunk list \<Rightarrow> 's \<Rightarrow> anyhow + applied_patch" where
  "derive_new_contents_from_chunks fs sandbox path_abs chunks s =
     (case read_file_text fs path_abs sandbox s of
        Inl err \<Rightarrow> Inl (AnyApply (IoErr (msg_read_failed path_abs) err))
      | Inr original \<Rightarrow>
          (case derive_new_contents path_abs original chunks of
             Inl (ComputeReplacements e) \<Rightarrow> Inl (AnyApply (ComputeReplacementsErr e))
           | Inl ApplyPanic \<Rightarrow> Inl AnyPanic
           | Inr new \<Rightarrow> Inr \<lparr>original_contents = original, new_contents = new\<rparr>))"

definition resolve_path :: "str option \<Rightarrow> str \<Rightarrow> hunk \<Rightarrow> str" where
  "resolve_path home cwd h = resolve_path_against_base home (hunk_source_path h) cwd"

subsection \<open>One hunk\<close>

type_synonym 's apply_result = "'s \<times> applied_patch_delta \<times> (anyhow + affected_paths)"

definition msg_delete_failed :: "str \<Rightarrow> str" where
  "msg_delete_failed path = lit ''Failed to delete file '' @ path"

definition msg_original_failed :: "str \<Rightarrow> str" where
  "msg_original_failed path = lit ''Failed to remove original '' @ path"

definition apply_add ::
  "('s, 'sb) exec_fs \<Rightarrow> 'sb option \<Rightarrow> str \<Rightarrow> str \<Rightarrow> str \<Rightarrow> 's \<Rightarrow> applied_patch_delta \<Rightarrow> affected_paths \<Rightarrow> 's apply_result" where
  "apply_add fs sandbox path_abs affected contents s delta paths =
     (let (overwritten, exact) = read_optional_file_text_for_delta fs sandbox path_abs s (delta_exact delta);
          delta = delta\<lparr>delta_exact := exact\<rparr>
      in case write_file_with_missing_parent_retry fs sandbox path_abs (into_bytes contents) s of
           (s', Inl e) \<Rightarrow> (s', delta\<lparr>delta_exact := False\<rparr>, Inl e)
         | (s', Inr _) \<Rightarrow>
             (s', push_change delta path_abs (AddChange contents overwritten),
              Inr (paths\<lparr>added := added paths @ [affected]\<rparr>)))"

definition apply_delete ::
  "('s, 'sb) exec_fs \<Rightarrow> 'sb option \<Rightarrow> str \<Rightarrow> str \<Rightarrow> 's \<Rightarrow> applied_patch_delta \<Rightarrow> affected_paths \<Rightarrow> 's apply_result" where
  "apply_delete fs sandbox path_abs affected s delta paths =
     (let exact = note_existing_path_delta_support fs sandbox path_abs s (delta_exact delta);
          deleted_content = (case read_file_text fs path_abs sandbox s of Inr c \<Rightarrow> Some c | Inl _ \<Rightarrow> None);
          delta = delta\<lparr>delta_exact := (exact \<and> deleted_content \<noteq> None)\<rparr>
      in case with_context (ensure_not_directory fs sandbox path_abs s) (msg_delete_failed path_abs) of
           Inl e \<Rightarrow> (s, delta, Inl e)
         | Inr _ \<Rightarrow>
             (case remove_path fs path_abs False False sandbox s of
                (s', Inl e) \<Rightarrow>
                  (s', delta\<lparr>delta_exact := (delta_exact delta \<and>
                     remove_failure_was_side_effect_free fs sandbox path_abs deleted_content s')\<rparr>,
                   Inl (AnyIo [msg_delete_failed path_abs] e))
              | (s', Inr _) \<Rightarrow>
                  (s', (case deleted_content of
                          Some content \<Rightarrow> push_change delta path_abs (DeleteChange content)
                        | None \<Rightarrow> delta),
                   Inr (paths\<lparr>deleted := deleted paths @ [affected]\<rparr>))))"

definition apply_update_move ::
  "('s, 'sb) exec_fs \<Rightarrow> 'sb option \<Rightarrow> str \<Rightarrow> str \<Rightarrow> str \<Rightarrow> applied_patch \<Rightarrow> 's \<Rightarrow> applied_patch_delta \<Rightarrow> affected_paths \<Rightarrow> 's apply_result" where
  "apply_update_move fs sandbox path_abs dest_abs affected ap s delta paths =
     (let (overwritten, exact) = read_optional_file_text_for_delta fs sandbox dest_abs s (delta_exact delta);
          delta = delta\<lparr>delta_exact := exact\<rparr>
      in case write_file_with_missing_parent_retry fs sandbox dest_abs (into_bytes (new_contents ap)) s of
           (s', Inl e) \<Rightarrow> (s', delta\<lparr>delta_exact := False\<rparr>, Inl e)
         | (s', Inr _) \<Rightarrow>
             (let written = push_change delta dest_abs (AddChange (new_contents ap) overwritten) in
              case with_context (ensure_not_directory fs sandbox path_abs s') (msg_original_failed path_abs) of
                Inl e \<Rightarrow> (s', written, Inl e)
              | Inr _ \<Rightarrow>
                  (case remove_path fs path_abs False False sandbox s' of
                     (s'', Inl e) \<Rightarrow>
                       (s'', written\<lparr>delta_exact := (delta_exact written \<and>
                          remove_failure_was_side_effect_free fs sandbox path_abs (Some (original_contents ap)) s'')\<rparr>,
                        Inl (AnyIo [msg_original_failed path_abs] e))
                   | (s'', Inr _) \<Rightarrow>
                       (s'', push_change delta path_abs
                          (UpdateChange (Some dest_abs) (original_contents ap) overwritten (new_contents ap)),
                        Inr (paths\<lparr>modified := modified paths @ [affected]\<rparr>)))))"

definition apply_update_in_place ::
  "('s, 'sb) exec_fs \<Rightarrow> 'sb option \<Rightarrow> str \<Rightarrow> str \<Rightarrow> applied_patch \<Rightarrow> 's \<Rightarrow> applied_patch_delta \<Rightarrow> affected_paths \<Rightarrow> 's apply_result" where
  "apply_update_in_place fs sandbox path_abs affected ap s delta paths =
     (case write_file fs path_abs (into_bytes (new_contents ap)) sandbox s of
        (s', Inl e) \<Rightarrow> (s', delta\<lparr>delta_exact := False\<rparr>, Inl (AnyIo [msg_write_failed path_abs] e))
      | (s', Inr _) \<Rightarrow>
          (s', push_change delta path_abs (UpdateChange None (original_contents ap) None (new_contents ap)),
           Inr (paths\<lparr>modified := modified paths @ [affected]\<rparr>)))"

definition apply_hunk ::
  "('s, 'sb) exec_fs \<Rightarrow> 'sb option \<Rightarrow> str option \<Rightarrow> str \<Rightarrow> hunk \<Rightarrow> 's \<Rightarrow> applied_patch_delta \<Rightarrow> affected_paths \<Rightarrow> 's apply_result" where
  "apply_hunk fs sandbox home cwd h s delta paths =
     (let affected = hunk_path h; path_abs = resolve_path home cwd h in
      case h of
        AddFile _ contents \<Rightarrow> apply_add fs sandbox path_abs affected contents s delta paths
      | DeleteFile _ \<Rightarrow> apply_delete fs sandbox path_abs affected s delta paths
      | UpdateFile _ move_path chunks \<Rightarrow>
          (let delta = delta\<lparr>delta_exact :=
                 note_existing_path_delta_support fs sandbox path_abs s (delta_exact delta)\<rparr>
           in case derive_new_contents_from_chunks fs sandbox path_abs chunks s of
                Inl e \<Rightarrow> (s, delta, Inl e)
              | Inr ap \<Rightarrow>
                  (case move_path of
                     Some dest \<Rightarrow> apply_update_move fs sandbox path_abs
                       (resolve_path_against_base home dest cwd) affected ap s delta paths
                   | None \<Rightarrow> apply_update_in_place fs sandbox path_abs affected ap s delta paths)))"

fun apply_hunks_loop ::
  "('s, 'sb) exec_fs \<Rightarrow> 'sb option \<Rightarrow> str option \<Rightarrow> str \<Rightarrow> hunk list \<Rightarrow> 's \<Rightarrow> applied_patch_delta \<Rightarrow> affected_paths \<Rightarrow> 's apply_result" where
  "apply_hunks_loop fs sandbox home cwd [] s delta paths = (s, delta, Inr paths)"
| "apply_hunks_loop fs sandbox home cwd (h # hunks) s delta paths =
     (case apply_hunk fs sandbox home cwd h s delta paths of
        (s', delta', Inl e) \<Rightarrow> (s', delta', Inl e)
      | (s', delta', Inr paths') \<Rightarrow> apply_hunks_loop fs sandbox home cwd hunks s' delta' paths')"

definition apply_hunks_to_files ::
  "('s, 'sb) exec_fs \<Rightarrow> 'sb option \<Rightarrow> str option \<Rightarrow> str \<Rightarrow> hunk list \<Rightarrow> 's \<Rightarrow> applied_patch_delta \<Rightarrow> 's apply_result" where
  "apply_hunks_to_files fs sandbox home cwd hunks s delta =
     (if hunks = [] then (s, delta, Inl (AnyMsg (lit ''No files were modified.'')))
      else apply_hunks_loop fs sandbox home cwd hunks s delta \<lparr>added = [], modified = [], deleted = []\<rparr>)"

subsection \<open>The tool\<close>

definition print_summary :: "affected_paths \<Rightarrow> str" where
  "print_summary affected =
     lit ''Success. Updated the following files:'' @ [nl]
     @ concat (map (\<lambda>p. lit ''A '' @ p @ [nl]) (added affected))
     @ concat (map (\<lambda>p. lit ''M '' @ p @ [nl]) (modified affected))
     @ concat (map (\<lambda>p. lit ''D '' @ p @ [nl]) (deleted affected))"

definition invalid_hunk_text :: "str \<Rightarrow> nat \<Rightarrow> str" where
  "invalid_hunk_text message line_number = lit ''invalid hunk at line '' @ nat_digits line_number @ lit '', '' @ message"

fun parse_error_text :: "parse_error \<Rightarrow> str" where
  "parse_error_text (InvalidPatchError message) = lit ''invalid patch: '' @ message"
| "parse_error_text (InvalidHunkError message line_number) = invalid_hunk_text message line_number"

fun apply_patch_error_text :: "apply_patch_error \<Rightarrow> str" where
  "apply_patch_error_text (ParseErr e) = parse_error_text e"
| "apply_patch_error_text (IoErr ctx e) = ctx @ lit '': '' @ io_message e"
| "apply_patch_error_text (ComputeReplacementsErr m) = m"
| "apply_patch_error_text ImplicitInvocation =
     lit ''patch detected without explicit call to apply_patch. Rerun as [\"apply_patch\", \"<patch>\"]''"

fun anyhow_text :: "anyhow \<Rightarrow> str" where
  "anyhow_text (AnyIo (ctx # _) e) = ctx"
| "anyhow_text (AnyIo [] e) = io_message e"
| "anyhow_text (AnyApply e) = apply_patch_error_text e"
| "anyhow_text (AnyMsg m) = m"
| "anyhow_text AnyPanic = []"

text \<open>\<open>downcast_ref::<std::io::Error>\<close> sees through contexts.\<close>

fun failure_of :: "anyhow \<Rightarrow> apply_patch_error" where
  "failure_of (AnyIo ctxs e) = IoErr (lit ''I/O error'') e"
| "failure_of e = IoErr (anyhow_text e) (io_error_new OtherKind (anyhow_text e))"

record 's tool_result =
  tool_state :: 's
  tool_stdout :: str
  tool_stderr :: str
  tool_delta :: applied_patch_delta
  tool_error :: "apply_patch_error option"

definition apply_hunks :: "('s, 'sb) exec_fs \<Rightarrow> 'sb option \<Rightarrow> str option \<Rightarrow> str \<Rightarrow> hunk list \<Rightarrow> 's \<Rightarrow> 's tool_result" where
  "apply_hunks fs sandbox home cwd hunks s =
     (case apply_hunks_to_files fs sandbox home cwd hunks s delta_empty of
        (s', delta, Inr affected) \<Rightarrow>
          \<lparr>tool_state = s', tool_stdout = print_summary affected, tool_stderr = [], tool_delta = delta, tool_error = None\<rparr>
      | (s', delta, Inl e) \<Rightarrow>
          \<lparr>tool_state = s', tool_stdout = [], tool_stderr = anyhow_text e @ [nl], tool_delta = delta,
           tool_error = Some (failure_of e)\<rparr>)"

fun parse_failure_text :: "parse_error \<Rightarrow> str" where
  "parse_failure_text (InvalidPatchError message) = lit ''Invalid patch: '' @ message"
| "parse_failure_text (InvalidHunkError message line_number) =
     lit ''Invalid patch hunk on line '' @ nat_digits line_number @ lit '': '' @ message"

definition apply_patch :: "('s, 'sb) exec_fs \<Rightarrow> 'sb option \<Rightarrow> str option \<Rightarrow> str \<Rightarrow> str \<Rightarrow> 's \<Rightarrow> 's tool_result" where
  "apply_patch fs sandbox home cwd patch s =
     (case parse_patch patch of
        Inl e \<Rightarrow> \<lparr>tool_state = s, tool_stdout = [], tool_stderr = parse_failure_text e @ [nl],
                  tool_delta = delta_empty, tool_error = Some (ParseErr e)\<rparr>
      | Inr source \<Rightarrow> apply_hunks fs sandbox home cwd (args_hunks source) s)"

subsection \<open>Meaning of hunks and of deltas\<close>

type_synonym files = "str \<Rightarrow> byte list option"

definition spec_update :: "str \<Rightarrow> update_file_chunk list \<Rightarrow> files \<Rightarrow> str option" where
  "spec_update path chunks v =
     (case v path of
        None \<Rightarrow> None
      | Some b \<Rightarrow>
          (case from_utf8 b of
             Inl _ \<Rightarrow> None
           | Inr txt \<Rightarrow> (case derive_new_contents path txt chunks of Inl _ \<Rightarrow> None | Inr new \<Rightarrow> Some new)))"

fun spec_hunk :: "str option \<Rightarrow> str \<Rightarrow> hunk \<Rightarrow> files \<Rightarrow> files option" where
  "spec_hunk home cwd (AddFile p contents) v =
     Some (v(resolve_path_against_base home p cwd \<mapsto> into_bytes contents))"
| "spec_hunk home cwd (DeleteFile p) v = Some (v(resolve_path_against_base home p cwd := None))"
| "spec_hunk home cwd (UpdateFile p mv chunks) v =
     (let path = resolve_path_against_base home p cwd in
      case spec_update path chunks v of
        None \<Rightarrow> None
      | Some new \<Rightarrow>
          (case mv of
             None \<Rightarrow> Some (v(path \<mapsto> into_bytes new))
           | Some d \<Rightarrow> Some (v(resolve_path_against_base home d cwd \<mapsto> into_bytes new, path := None))))"

fun spec_hunks :: "str option \<Rightarrow> str \<Rightarrow> hunk list \<Rightarrow> files \<Rightarrow> files option" where
  "spec_hunks home cwd [] v = Some v"
| "spec_hunks home cwd (h # hs) v =
     (case spec_hunk home cwd h v of None \<Rightarrow> None | Some v' \<Rightarrow> spec_hunks home cwd hs v')"

fun replay_change :: "str \<Rightarrow> applied_patch_file_change \<Rightarrow> files \<Rightarrow> files" where
  "replay_change p (AddChange content overwritten) v = v(p \<mapsto> into_bytes content)"
| "replay_change p (DeleteChange content) v = v(p := None)"
| "replay_change p (UpdateChange None old overwritten new) v = v(p \<mapsto> into_bytes new)"
| "replay_change p (UpdateChange (Some d) old overwritten new) v = v(d \<mapsto> into_bytes new, p := None)"

fun undo_change :: "str \<Rightarrow> applied_patch_file_change \<Rightarrow> files \<Rightarrow> files" where
  "undo_change p (AddChange content overwritten) v = v(p := map_option into_bytes overwritten)"
| "undo_change p (DeleteChange content) v = v(p \<mapsto> into_bytes content)"
| "undo_change p (UpdateChange None old overwritten new) v = v(p \<mapsto> into_bytes old)"
| "undo_change p (UpdateChange (Some d) old overwritten new) v =
     v(p \<mapsto> into_bytes old, d := map_option into_bytes overwritten)"

definition replay :: "applied_patch_change list \<Rightarrow> files \<Rightarrow> files" where
  "replay changes v = fold (\<lambda>c. replay_change (apc_path c) (apc_change c)) changes v"

definition undo :: "applied_patch_change list \<Rightarrow> files \<Rightarrow> files" where
  "undo changes v = foldr (\<lambda>c. undo_change (apc_path c) (apc_change c)) changes v"

lemma replay_snoc [simp]: "replay (cs @ [c]) v = replay_change (apc_path c) (apc_change c) (replay cs v)"
  by (simp add: replay_def)

lemma undo_snoc [simp]: "undo (cs @ [c]) v = undo cs (undo_change (apc_path c) (apc_change c) v)"
  by (simp add: undo_def)

text \<open>The delta describes how the files came from \<open>v0\<close> to \<open>v\<close>, unless it is marked inexact.\<close>

definition delta_describes :: "files \<Rightarrow> applied_patch_delta \<Rightarrow> files \<Rightarrow> bool" where
  "delta_describes v0 d v \<longleftrightarrow>
     (delta_exact d \<longrightarrow> replay (delta_changes d) v0 = v \<and> undo (delta_changes d) v = v0)"

lemma delta_describes_inexact [simp]: "delta_describes v0 (d\<lparr>delta_exact := False\<rparr>) v"
  by (simp add: delta_describes_def)

lemma delta_describes_weaken:
  "delta_describes v0 d v \<Longrightarrow> (b \<Longrightarrow> delta_exact d) \<Longrightarrow> delta_describes v0 (d\<lparr>delta_exact := b\<rparr>) v"
  by (simp add: delta_describes_def)

lemma delta_describes_push:
  assumes "delta_describes v0 d v"
    and "delta_exact d \<Longrightarrow> replay_change p c v = v' \<and> undo_change p c v' = v"
  shows "delta_describes v0 (push_change d p c) v'"
proof (cases "delta_exact d")
  case True
  with assms(1) have "replay (delta_changes d) v0 = v" "undo (delta_changes d) v = v0"
    by (simp_all add: delta_describes_def)
  moreover from True assms(2) have "replay_change p c v = v'" "undo_change p c v' = v" by simp_all
  ultimately show ?thesis by (simp add: delta_describes_def push_change_def)
qed (simp add: delta_describes_def push_change_def)

lemma push_change_exact [simp]: "delta_exact (push_change d p c) = delta_exact d"
  by (simp add: push_change_def)

lemma note_existing_exact: "note_existing_path_delta_support fs sandbox p s exact \<Longrightarrow> exact"
  by (auto simp: note_existing_path_delta_support_def split: sum.splits if_splits)

lemma resolve_path_normal: "is_absolute cwd \<Longrightarrow> normal_path (resolve_path home cwd h)"
  by (simp add: resolve_path_def resolve_normal)

context executor_file_system
begin

lemma write_retry_ok:
  assumes "normal_path p" and "write_file_with_missing_parent_retry fs sandbox p b s = (s', Inr u)"
  shows "view s' = (view s)(p \<mapsto> b)"
proof -
  obtain s1 r1 where w1: "write_file fs p b sandbox s = (s1, r1)" by fastforce
  show ?thesis
  proof (cases r1)
    case (Inr x)
    with w1 assms show ?thesis by (auto simp: write_file_with_missing_parent_retry_def write_ok)
  next
    case (Inl e)
    with w1 assms(2) have nf: "io_kind e = NotFound"
      by (auto simp: write_file_with_missing_parent_retry_def split: if_splits)
    have v1: "view s1 = view s" using write_not_found [OF assms(1) w1 [unfolded Inl] nf] .
    obtain s2 r2 where m: "(case abs_parent p of
                     Some parent_abs \<Rightarrow> create_directory fs parent_abs True sandbox s1
                   | None \<Rightarrow> (s1, Inr ())) = (s2, r2)" by fastforce
    have v2: "view s2 = view s1"
      using m mkdir abs_parent_normal [OF assms(1)] by (auto split: option.splits)
    obtain s3 r3 where w3: "write_file fs p b sandbox s2 = (s3, r3)" by fastforce
    have "s3 = s' \<and> r3 = Inr ()"
      using assms(2) w1 Inl nf m w3
      by (cases r2; cases r3) (auto simp: write_file_with_missing_parent_retry_def with_context_def)
    with write_ok [OF assms(1)] w3 v1 v2 show ?thesis by metis
  qed
qed

lemma read_optional_exact:
  assumes "read_optional_file_text_for_delta fs sandbox p s exact = (c, exact')" and "exact'" and "normal_path p"
  shows "exact \<and> view s p = map_option into_bytes c"
  using assms read_text_ok [OF assms(3)] read_text_not_found [OF assms(3)]
  by (auto simp: read_optional_file_text_for_delta_def Let_def split: sum.splits if_splits dest: note_existing_exact)

lemma apply_add_step:
  assumes "apply_add fs sandbox p aff contents s d paths = (s', d', r)" and "normal_path p"
  shows "delta_describes v0 d (view s) \<Longrightarrow> delta_describes v0 d' (view s')"
    and "r = Inr paths' \<Longrightarrow> view s' = (view s)(p \<mapsto> into_bytes contents)"
proof -
  obtain c exact where o: "read_optional_file_text_for_delta fs sandbox p s (delta_exact d) = (c, exact)" by fastforce
  obtain s1 r1 where w: "write_file_with_missing_parent_retry fs sandbox p (into_bytes contents) s = (s1, r1)" by fastforce
  note eq = assms(1) [unfolded apply_add_def o w Let_def, simplified]
  show "r = Inr paths' \<Longrightarrow> view s' = (view s)(p \<mapsto> into_bytes contents)"
    using eq w write_retry_ok [OF assms(2)] by (auto split: sum.splits)
  assume d: "delta_describes v0 d (view s)"
  show "delta_describes v0 d' (view s')"
  proof (cases r1)
    case (Inl e)
    with eq show ?thesis by (auto simp: delta_describes_def)
  next
    case (Inr u)
    have v: "view s1 = (view s)(p \<mapsto> into_bytes contents)" using write_retry_ok [OF assms(2)] w Inr by blast
    have "delta_describes v0 (push_change (d\<lparr>delta_exact := exact\<rparr>) p (AddChange contents c)) (view s1)"
    proof (rule delta_describes_push)
      show "delta_describes v0 (d\<lparr>delta_exact := exact\<rparr>) (view s)"
        using d read_optional_exact [OF o] assms(2) by (auto intro: delta_describes_weaken)
      assume "delta_exact (d\<lparr>delta_exact := exact\<rparr>)"
      then show "replay_change p (AddChange contents c) (view s) = view s1 \<and>
          undo_change p (AddChange contents c) (view s1) = view s"
        using read_optional_exact [OF o] assms(2) v by auto
    qed
    with eq Inr show ?thesis by auto
  qed
qed

lemma failed_remove_harmless:
  assumes "remove_path fs p False False sandbox s = (s', Inl e)" and "normal_path p"
    and "remove_failure_was_side_effect_free fs sandbox p c s'"
  shows "view s' = view s"
proof -
  from assms(3) obtain t where "read_file_text fs p sandbox s' = Inr t"
    by (auto simp: remove_failure_was_side_effect_free_def split: option.splits)
  then have "view s' p \<noteq> None" using read_text_ok [OF assms(2)] by auto
  with remove_failed_self [OF assms(2,1)] remove_failed [OF assms(2,1)] show ?thesis by (metis ext)
qed

lemma apply_delete_step:
  assumes "apply_delete fs sandbox p aff s d paths = (s', d', r)" and "normal_path p"
  shows "delta_describes v0 d (view s) \<Longrightarrow> delta_describes v0 d' (view s')"
    and "r = Inr paths' \<Longrightarrow> view s' = (view s)(p := None)"
proof -
  let ?exact = "note_existing_path_delta_support fs sandbox p s (delta_exact d)"
  let ?d = "\<lambda>b. d\<lparr>delta_exact := b\<rparr>"
  define c where "c = (case read_file_text fs p sandbox s of Inr c \<Rightarrow> Some c | Inl _ \<Rightarrow> None)"
  obtain s1 r1 where rm: "remove_path fs p False False sandbox s = (s1, r1)" by fastforce
  have cases: "(\<exists>e. s' = s \<and> d' = ?d (?exact \<and> c \<noteq> None) \<and> r = Inl e) \<or>
    (\<exists>e e'. r1 = Inl e \<and> s' = s1 \<and> r = Inl e' \<and>
       d' = ?d (?exact \<and> c \<noteq> None \<and> remove_failure_was_side_effect_free fs sandbox p c s1)) \<or>
    (\<exists>ps. r1 = Inr () \<and> s' = s1 \<and> r = Inr ps \<and>
       d' = (case c of Some t \<Rightarrow> push_change (?d ?exact) p (DeleteChange t) | None \<Rightarrow> ?d False))"
    using assms(1) unfolding apply_delete_def c_def [symmetric] rm Let_def
    by (cases "with_context (ensure_not_directory fs sandbox p s) (msg_delete_failed p)"; cases r1; cases c) auto
  show "r = Inr paths' \<Longrightarrow> view s' = (view s)(p := None)"
    using cases rm remove_ok [OF assms(2)] by auto
  assume d: "delta_describes v0 d (view s)"
  have c: "view s p = Some (into_bytes t)" if "c = Some t" for t
    using that read_text_ok [OF assms(2)] by (auto simp: c_def split: sum.splits)
  have weak: "delta_describes v0 (?d b) (view s)" if "b \<Longrightarrow> ?exact" for b
    using d that note_existing_exact by (metis delta_describes_weaken)
  show "delta_describes v0 d' (view s')"
    using cases
  proof (elim disjE exE conjE)
    fix e e' assume *: "r1 = Inl e" "s' = s1"
      "d' = ?d (?exact \<and> c \<noteq> None \<and> remove_failure_was_side_effect_free fs sandbox p c s1)"
    show ?thesis
    proof (cases "remove_failure_was_side_effect_free fs sandbox p c s1")
      case True
      with failed_remove_harmless rm * assms(2) have "view s' = view s" by blast
      with * weak show ?thesis by simp
    qed (use * in \<open>simp add: delta_describes_def\<close>)
  next
    fix ps assume *: "r1 = Inr ()" "s' = s1"
      "d' = (case c of Some t \<Rightarrow> push_change (?d ?exact) p (DeleteChange t) | None \<Rightarrow> ?d False)"
    have v: "view s' = (view s)(p := None)" using rm * remove_ok [OF assms(2)] by simp
    show ?thesis
    proof (cases c)
      case (Some t)
      have "delta_describes v0 (push_change (?d ?exact) p (DeleteChange t)) (view s')"
        by (rule delta_describes_push [OF weak]) (use v c [OF Some] in auto)
      with * Some show ?thesis by simp
    qed (use * in simp)
  qed (use weak in auto)
qed

lemma apply_update_in_place_step:
  assumes "apply_update_in_place fs sandbox p aff ap s d paths = (s', d', r)" and "normal_path p"
    and "view s p = Some (into_bytes (original_contents ap))"
  shows "delta_describes v0 d (view s) \<Longrightarrow> delta_describes v0 d' (view s')"
    and "r = Inr paths' \<Longrightarrow> view s' = (view s)(p \<mapsto> into_bytes (new_contents ap))"
proof -
  obtain s1 r1 where w: "write_file fs p (into_bytes (new_contents ap)) sandbox s = (s1, r1)" by fastforce
  note eq = assms(1) [unfolded apply_update_in_place_def w, simplified]
  show "r = Inr paths' \<Longrightarrow> view s' = (view s)(p \<mapsto> into_bytes (new_contents ap))"
    using eq w write_ok [OF assms(2)] by (auto split: sum.splits)
  assume d: "delta_describes v0 d (view s)"
  show "delta_describes v0 d' (view s')"
  proof (cases r1)
    case (Inr u)
    have v: "view s1 = (view s)(p \<mapsto> into_bytes (new_contents ap))" using write_ok [OF assms(2)] w Inr by simp
    have "delta_describes v0 (push_change d p (UpdateChange None (original_contents ap) None (new_contents ap))) (view s1)"
      by (rule delta_describes_push [OF d]) (use v assms(3) in auto)
    with eq Inr show ?thesis by auto
  qed (use eq in \<open>auto simp: delta_describes_def\<close>)
qed

lemma apply_update_move_step:
  assumes "apply_update_move fs sandbox p dest aff ap s d paths = (s', d', r)" and "normal_path p" "normal_path dest"
    and orig: "view s p = Some (into_bytes (original_contents ap))"
  shows "delta_describes v0 d (view s) \<Longrightarrow> delta_describes v0 d' (view s')"
    and "r = Inr paths' \<Longrightarrow> view s' = (view s)(dest \<mapsto> into_bytes (new_contents ap), p := None)"
proof -
  let ?new = "new_contents ap"
  obtain c exact where o: "read_optional_file_text_for_delta fs sandbox dest s (delta_exact d) = (c, exact)" by fastforce
  obtain s1 r1 where w: "write_file_with_missing_parent_retry fs sandbox dest (into_bytes ?new) s = (s1, r1)" by fastforce
  obtain s2 r2 where rm: "remove_path fs p False False sandbox s1 = (s2, r2)" by fastforce
  let ?d1 = "d\<lparr>delta_exact := exact\<rparr>"
  let ?written = "push_change ?d1 dest (AddChange ?new c)"
  have cases: "(d' = ?d1\<lparr>delta_exact := False\<rparr> \<and> (\<exists>e. r = Inl e)) \<or>
    (r1 = Inr () \<and> s' = s1 \<and> d' = ?written \<and> (\<exists>e. r = Inl e)) \<or>
    (r1 = Inr () \<and> (\<exists>e. r2 = Inl e) \<and> s' = s2 \<and> (\<exists>e. r = Inl e) \<and>
       d' = ?written\<lparr>delta_exact := (exact \<and>
         remove_failure_was_side_effect_free fs sandbox p (Some (original_contents ap)) s2)\<rparr>) \<or>
    (r1 = Inr () \<and> r2 = Inr () \<and> s' = s2 \<and>
       d' = push_change ?d1 p (UpdateChange (Some dest) (original_contents ap) c ?new))"
    using assms(1) unfolding apply_update_move_def o w rm Let_def
    by (cases "with_context (ensure_not_directory fs sandbox p s1) (msg_original_failed p)"; cases r1; cases r2)
      (auto simp: rm)
  have v1: "view s1 = (view s)(dest \<mapsto> into_bytes ?new)" if "r1 = Inr ()"
    using write_retry_ok [OF assms(3)] w that by blast
  have v2: "view s2 = (view s1)(p := None)" if "r2 = Inr ()"
    using remove_ok [OF assms(2)] rm that by simp
  show "r = Inr paths' \<Longrightarrow> view s' = (view s)(dest \<mapsto> into_bytes ?new, p := None)"
    using cases v1 v2 by auto
  assume d: "delta_describes v0 d (view s)"
  have ow: "delta_exact d \<and> view s dest = map_option into_bytes c" if exact
    using read_optional_exact [OF o that assms(3)] .
  have d1: "delta_describes v0 ?d1 (view s)" using d ow by (auto intro: delta_describes_weaken)
  have written: "delta_describes v0 ?written (view s1)" if "r1 = Inr ()"
    by (rule delta_describes_push [OF d1]) (use v1 [OF that] ow in auto)
  have moved: "delta_describes v0 (push_change ?d1 p (UpdateChange (Some dest) (original_contents ap) c ?new)) (view s2)"
    if "r1 = Inr ()" "r2 = Inr ()"
  proof (rule delta_describes_push [OF d1])
    assume "delta_exact ?d1"
    with ow have "view s dest = map_option into_bytes c" by simp
    then show "replay_change p (UpdateChange (Some dest) (original_contents ap) c ?new) (view s) = view s2 \<and>
        undo_change p (UpdateChange (Some dest) (original_contents ap) c ?new) (view s2) = view s"
      using v1 v2 that orig by auto
  qed
  show "delta_describes v0 d' (view s')"
    using cases
  proof (elim disjE conjE exE)
    fix e e' assume *: "r1 = Inr ()" "r2 = Inl e" "s' = s2"
      "d' = ?written\<lparr>delta_exact := (exact \<and>
         remove_failure_was_side_effect_free fs sandbox p (Some (original_contents ap)) s2)\<rparr>"
    show ?thesis
    proof (cases "remove_failure_was_side_effect_free fs sandbox p (Some (original_contents ap)) s2")
      case True
      have "view s2 = view s1" using failed_remove_harmless [OF rm [unfolded *(2)] assms(2) True] .
      with written * show ?thesis by (auto intro!: delta_describes_weaken)
    qed (use * in \<open>simp add: delta_describes_def\<close>)
  qed (use written moved in \<open>simp_all add: delta_describes_def\<close>)
qed

lemma derive_from_chunks_ok:
  assumes "derive_new_contents_from_chunks fs sandbox p chunks s = Inr ap" and "normal_path p"
  shows "view s p = Some (into_bytes (original_contents ap)) \<and> spec_update p chunks (view s) = Some (new_contents ap)"
proof -
  from assms(1) obtain b where rd: "read_file fs p sandbox s = Inr b" "from_utf8 b = Inr (original_contents ap)"
    and dn: "derive_new_contents p (original_contents ap) chunks = Inr (new_contents ap)"
    by (cases "read_file fs p sandbox s")
      (auto simp: derive_new_contents_from_chunks_def read_file_text_def split: sum.splits derive_error.splits)
  from read_ok [OF assms(2) rd(1)] rd(2) dn from_utf8_sound [OF rd(2)] show ?thesis
    by (simp add: spec_update_def)
qed

lemma apply_hunk_step:
  assumes "apply_hunk fs sandbox home cwd h s d paths = (s', d', r)" and "is_absolute cwd"
  shows "delta_describes v0 d (view s) \<Longrightarrow> delta_describes v0 d' (view s')"
    and "r = Inr paths' \<Longrightarrow> spec_hunk home cwd h (view s) = Some (view s')"
proof -
  note n = resolve_path_normal [OF assms(2), of home h] resolve_normal [OF assms(2), of home]
  have both: "(delta_describes v0 d (view s) \<longrightarrow> delta_describes v0 d' (view s')) \<and>
    (r = Inr paths' \<longrightarrow> spec_hunk home cwd h (view s) = Some (view s'))"
  proof (cases h)
    case (AddFile p contents)
    with assms(1) have "apply_add fs sandbox (resolve_path home cwd h) (hunk_path h) contents s d paths = (s', d', r)"
      by (simp add: apply_hunk_def Let_def)
    from apply_add_step [OF this n(1)] AddFile show ?thesis by (simp add: resolve_path_def)
  next
    case (DeleteFile p)
    with assms(1) have "apply_delete fs sandbox (resolve_path home cwd h) (hunk_path h) s d paths = (s', d', r)"
      by (simp add: apply_hunk_def Let_def)
    from apply_delete_step [OF this n(1)] DeleteFile show ?thesis by (simp add: resolve_path_def)
  next
    case (UpdateFile p mv chunks)
    let ?p = "resolve_path home cwd h"
    let ?d = "d\<lparr>delta_exact := note_existing_path_delta_support fs sandbox ?p s (delta_exact d)\<rparr>"
    have weak: "delta_describes v0 d (view s) \<Longrightarrow> delta_describes v0 ?d (view s)"
      by (rule delta_describes_weaken) (auto dest: note_existing_exact)
    have p: "?p = resolve_path_against_base home p cwd" using UpdateFile by (simp add: resolve_path_def)
    show ?thesis
    proof (cases "derive_new_contents_from_chunks fs sandbox ?p chunks s")
      case (Inl e)
      with assms(1) UpdateFile weak show ?thesis by (auto simp: apply_hunk_def)
    next
      case (Inr ap)
      note ok = derive_from_chunks_ok [OF Inr n(1)]
      show ?thesis
      proof (cases mv)
        case None
        with assms(1) UpdateFile Inr
        have "apply_update_in_place fs sandbox ?p (hunk_path h) ap s ?d paths = (s', d', r)"
          by (simp add: apply_hunk_def Let_def)
        from apply_update_in_place_step [OF this n(1)] ok weak UpdateFile None show ?thesis
          by (auto simp: resolve_path_def Let_def)
      next
        case (Some dest)
        with assms(1) UpdateFile Inr
        have "apply_update_move fs sandbox ?p (resolve_path_against_base home dest cwd) (hunk_path h) ap s ?d paths
            = (s', d', r)"
          by (simp add: apply_hunk_def Let_def)
        from apply_update_move_step [OF this n] ok weak UpdateFile Some show ?thesis
          by (auto simp: resolve_path_def Let_def)
      qed
    qed
  qed
  then show "delta_describes v0 d (view s) \<Longrightarrow> delta_describes v0 d' (view s')"
    and "r = Inr paths' \<Longrightarrow> spec_hunk home cwd h (view s) = Some (view s')" by blast+
qed

lemma apply_hunks_loop_run:
  assumes "apply_hunks_loop fs sandbox home cwd hs s d paths = (s', d', r)" and "is_absolute cwd"
  shows "delta_describes v0 d (view s) \<Longrightarrow> delta_describes v0 d' (view s')"
    and "r = Inr paths' \<Longrightarrow> spec_hunks home cwd hs (view s) = Some (view s')"
proof -
  have "(delta_describes v0 d (view s) \<longrightarrow> delta_describes v0 d' (view s')) \<and>
    (r = Inr paths' \<longrightarrow> spec_hunks home cwd hs (view s) = Some (view s'))"
    using assms(1)
  proof (induction hs arbitrary: s d paths)
    case (Cons h hs)
    obtain s1 d1 r1 where st: "apply_hunk fs sandbox home cwd h s d paths = (s1, d1, r1)" by (metis prod_cases3)
    note step = apply_hunk_step [OF st assms(2)]
    show ?case
    proof (cases r1)
      case (Inl e)
      with Cons.prems st step(1) show ?thesis by auto
    next
      case (Inr paths1)
      with Cons.prems st have "apply_hunks_loop fs sandbox home cwd hs s1 d1 paths1 = (s', d', r)" by simp
      from Cons.IH [OF this] step(1) step(2) [OF Inr] show ?thesis by simp
    qed
  qed simp
  then show "delta_describes v0 d (view s) \<Longrightarrow> delta_describes v0 d' (view s')"
    and "r = Inr paths' \<Longrightarrow> spec_hunks home cwd hs (view s) = Some (view s')" by blast+
qed

lemma apply_hunks_run:
  assumes "is_absolute cwd"
  shows "delta_describes (view s) (tool_delta (apply_hunks fs sandbox home cwd hs s))
      (view (tool_state (apply_hunks fs sandbox home cwd hs s)))"
    and "tool_error (apply_hunks fs sandbox home cwd hs s) = None \<Longrightarrow>
      spec_hunks home cwd hs (view s) = Some (view (tool_state (apply_hunks fs sandbox home cwd hs s)))"
proof -
  obtain s' d' r where run: "apply_hunks_to_files fs sandbox home cwd hs s delta_empty = (s', d', r)"
    by (metis prod_cases3)
  have start: "delta_describes (view s) delta_empty (view s)"
    by (simp add: delta_describes_def delta_empty_def replay_def undo_def)
  have "delta_describes (view s) d' (view s') \<and> (\<forall>ps. r = Inr ps \<longrightarrow> spec_hunks home cwd hs (view s) = Some (view s'))"
  proof (cases "hs = []")
    case True
    with run start show ?thesis by (auto simp: apply_hunks_to_files_def)
  next
    case False
    with run apply_hunks_loop_run [OF _ assms] start show ?thesis
      by (simp add: apply_hunks_to_files_def) blast
  qed
  with run show "delta_describes (view s) (tool_delta (apply_hunks fs sandbox home cwd hs s))
      (view (tool_state (apply_hunks fs sandbox home cwd hs s)))"
    and "tool_error (apply_hunks fs sandbox home cwd hs s) = None \<Longrightarrow>
      spec_hunks home cwd hs (view s) = Some (view (tool_state (apply_hunks fs sandbox home cwd hs s)))"
    by (auto simp: apply_hunks_def split: sum.splits)
qed

end

subsection \<open>Properties\<close>



text \<open>C2. A successful patch does what its hunks say: for every file system that keeps the contract,
  if no error is reported, the files after the run are those of the specification, which performs the
  additions, deletions, updates and moves on the contents of the files, in order.\<close>

theorem apply_hunks_refines_spec:
  assumes "executor_file_system fs sandbox view" and "is_absolute cwd"
    and "tool_error (apply_hunks fs sandbox home cwd hs s) = None"
  shows "spec_hunks home cwd hs (view s) = Some (view (tool_state (apply_hunks fs sandbox home cwd hs s)))"
  by (rule executor_file_system.apply_hunks_run(2) [OF assms])

theorem apply_hunks_refines_spec_witness:
  "spec_hunks None (lit ''/'') [AddFile (lit ''d/a'') (lit ''x'')] (tree_view (DirNode [])) =
    Some (tree_view (tool_state (apply_hunks (tree_fs (\<lambda>_::unit. False)) None None (lit ''/'')
        [AddFile (lit ''d/a'') (lit ''x'')] (DirNode []))))"
proof (rule apply_hunks_refines_spec [OF tree_fs_laws])
  show "is_absolute (lit ''/'')" by (simp add: str_simps slash_code)
  show "tool_error (apply_hunks (tree_fs (\<lambda>_::unit. False)) None None (lit ''/'')
        [AddFile (lit ''d/a'') (lit ''x'')] (DirNode [])) = None" by code_simp
qed


end
