(* ===== verification/PatchInvocation.thy ===== *)
theory PatchInvocation
  imports PatchApply "HOL-Library.AList"
begin

text \<open>
  Calls of the patch tool, \<open>apply-patch/src/invocation.rs\<close>: recognising an \<open>apply_patch\<close> command, also
  inside a shell script, and verifying its hunks against the file system, which gives the changes that
  are shown and assessed before the patch is applied.  The tree-sitter query on the script and the text
  of a unified diff come from other packages and are arguments.  The hash map of changes is an
  association list, whose order no client uses.  The lemmas show that the text kept for the application
  has the hunks that were verified, and that applying hunks changes no file but their targets.
\<close>

subsection \<open>Commands\<close>

definition APPLY_PATCH_COMMANDS :: "str list" where
  "APPLY_PATCH_COMMANDS = [lit ''apply_patch'', lit ''applypatch'']"

datatype apply_patch_shell = UnixShell | PowerShellShell | CmdShell

datatype extract_heredoc_error =
    CommandDidNotStartWithApplyPatch
  | FailedToLoadBashGrammar str
  | HeredocNotUtf8 str
  | FailedToParsePatchIntoAst
  | FailedToFindHeredocBody

datatype maybe_apply_patch =
    PatchBody apply_patch_args
  | ShellParseError extract_heredoc_error
  | PatchParseError parse_error
  | NotApplyPatch

definition classify_shell_name :: "str \<Rightarrow> str option" where
  "classify_shell_name shell = map_option to_ascii_lowercase (path_file_stem shell)"

definition classify_shell :: "str \<Rightarrow> str \<Rightarrow> apply_patch_shell option" where
  "classify_shell shell flag =
     Option.bind (classify_shell_name shell) (\<lambda>name.
       if name \<in> set [lit ''bash'', lit ''zsh'', lit ''sh''] \<and> flag \<in> set [lit ''-lc'', lit ''-c''] then Some UnixShell
       else if name \<in> set [lit ''pwsh'', lit ''powershell''] \<and> eq_ignore_ascii_case flag (lit ''-command'') then Some PowerShellShell
       else if name = lit ''cmd'' \<and> eq_ignore_ascii_case flag (lit ''/c'') then Some CmdShell
       else None)"

definition can_skip_flag :: "str \<Rightarrow> str \<Rightarrow> bool" where
  "can_skip_flag shell flag =
     (case classify_shell_name shell of
        None \<Rightarrow> False
      | Some name \<Rightarrow> name \<in> set [lit ''pwsh'', lit ''powershell''] \<and> eq_ignore_ascii_case flag (lit ''-noprofile''))"

fun parse_shell_script :: "str list \<Rightarrow> (apply_patch_shell \<times> str) option" where
  "parse_shell_script [shell, flag, script] = map_option (\<lambda>shell_type. (shell_type, script)) (classify_shell shell flag)"
| "parse_shell_script [shell, skip_flag, flag, script] =
     (if can_skip_flag shell skip_flag
      then map_option (\<lambda>shell_type. (shell_type, script)) (classify_shell shell flag) else None)"
| "parse_shell_script _ = None"

subsection \<open>Scripts\<close>

text \<open>A match of the query: the captures in order, each a name and the text of its node.\<close>

type_synonym captures = "(str \<times> (str + str)) list"

type_synonym bash_query = "str \<Rightarrow> extract_heredoc_error + captures list"

definition trim_end_newlines :: "str \<Rightarrow> str" where
  "trim_end_newlines s = rev (dropWhile (\<lambda>c. c = nl) (rev s))"

definition unquote_raw :: "str \<Rightarrow> str" where
  "unquote_raw raw =
     (case Option.bind (strip_prefix [of_char (CHR 0x27)] raw) (strip_suffix [of_char (CHR 0x27)]) of
        Some s \<Rightarrow> s | None \<Rightarrow> raw)"

fun captures_loop :: "captures \<Rightarrow> str option \<Rightarrow> str option \<Rightarrow> extract_heredoc_error + str option \<times> str option" where
  "captures_loop [] heredoc_text cd_path = Inr (heredoc_text, cd_path)"
| "captures_loop ((name, node_text) # rest) heredoc_text cd_path =
     (if name = lit ''heredoc'' then
        (case node_text of
           Inl e \<Rightarrow> Inl (HeredocNotUtf8 e)
         | Inr text \<Rightarrow> captures_loop rest (Some (trim_end_newlines text)) cd_path)
      else if name = lit ''cd_path'' then
        (case node_text of
           Inl e \<Rightarrow> Inl (HeredocNotUtf8 e)
         | Inr text \<Rightarrow> captures_loop rest heredoc_text (Some text))
      else if name = lit ''cd_raw_string'' then
        (case node_text of
           Inl e \<Rightarrow> Inl (HeredocNotUtf8 e)
         | Inr raw \<Rightarrow> captures_loop rest heredoc_text (Some (unquote_raw raw)))
      else captures_loop rest heredoc_text cd_path)"

fun matches_loop :: "captures list \<Rightarrow> extract_heredoc_error + str \<times> str option" where
  "matches_loop [] = Inl CommandDidNotStartWithApplyPatch"
| "matches_loop (m # ms) =
     (case captures_loop m None None of
        Inl e \<Rightarrow> Inl e
      | Inr (Some heredoc, cd_path) \<Rightarrow> Inr (heredoc, cd_path)
      | Inr (None, cd_path) \<Rightarrow> matches_loop ms)"

definition extract_apply_patch_from_bash :: "bash_query \<Rightarrow> str \<Rightarrow> extract_heredoc_error + str \<times> str option" where
  "extract_apply_patch_from_bash query src = and_then (query src) matches_loop"

definition extract_apply_patch_from_shell ::
  "bash_query \<Rightarrow> apply_patch_shell \<Rightarrow> str \<Rightarrow> extract_heredoc_error + str \<times> str option" where
  "extract_apply_patch_from_shell query shell script = extract_apply_patch_from_bash query script"

definition parse_shell_patch :: "bash_query \<Rightarrow> str list \<Rightarrow> maybe_apply_patch" where
  "parse_shell_patch query argv =
     (case parse_shell_script argv of
        Some (shell, script) \<Rightarrow>
          (case extract_apply_patch_from_shell query shell script of
             Inr (body, workdir) \<Rightarrow>
               (case parse_patch body of
                  Inr source \<Rightarrow> PatchBody (source\<lparr>args_workdir := workdir\<rparr>)
                | Inl e \<Rightarrow> PatchParseError e)
           | Inl CommandDidNotStartWithApplyPatch \<Rightarrow> NotApplyPatch
           | Inl e \<Rightarrow> ShellParseError e)
      | None \<Rightarrow> NotApplyPatch)"

definition maybe_parse_apply_patch :: "bash_query \<Rightarrow> str list \<Rightarrow> maybe_apply_patch" where
  "maybe_parse_apply_patch query argv =
     (case argv of
        [cmd, body] \<Rightarrow>
          if cmd \<in> set APPLY_PATCH_COMMANDS
          then (case parse_patch body of Inr source \<Rightarrow> PatchBody source | Inl e \<Rightarrow> PatchParseError e)
          else parse_shell_patch query argv
      | _ \<Rightarrow> parse_shell_patch query argv)"

subsection \<open>Verified changes\<close>

datatype apply_patch_file_change =
    FileAdd str
  | FileDelete str
  | FileUpdate str "str option" str

record apply_patch_action =
  act_changes :: "(str \<times> apply_patch_file_change) list"
  act_patch :: str
  act_cwd :: str

datatype maybe_apply_patch_verified =
    VerifiedBody apply_patch_action
  | VerifiedShellParseError extract_heredoc_error
  | CorrectnessError apply_patch_error
  | VerifiedNotApplyPatch
  | VerifyPanic

record apply_patch_file_update =
  upd_unified_diff :: str
  upd_original_content :: str
  upd_content :: str

text \<open>The renderer of unified diffs: original and new text and the number of context lines.\<close>

type_synonym text_diff = "str \<Rightarrow> str \<Rightarrow> nat \<Rightarrow> str"

definition unified_diff_from_chunks_with_context ::
  "text_diff \<Rightarrow> ('s, 'sb) exec_fs \<Rightarrow> 'sb option \<Rightarrow> str \<Rightarrow> update_file_chunk list \<Rightarrow> nat \<Rightarrow> 's \<Rightarrow> anyhow + apply_patch_file_update" where
  "unified_diff_from_chunks_with_context diff fs sandbox path_abs chunks ctx s =
     and_then (derive_new_contents_from_chunks fs sandbox path_abs chunks s) (\<lambda>ap.
       Inr \<lparr>upd_unified_diff = diff (original_contents ap) (new_contents ap) ctx,
            upd_original_content = original_contents ap, upd_content = new_contents ap\<rparr>)"

definition unified_diff_from_chunks ::
  "text_diff \<Rightarrow> ('s, 'sb) exec_fs \<Rightarrow> 'sb option \<Rightarrow> str \<Rightarrow> update_file_chunk list \<Rightarrow> 's \<Rightarrow> anyhow + apply_patch_file_update" where
  "unified_diff_from_chunks diff fs sandbox path_abs chunks s =
     unified_diff_from_chunks_with_context diff fs sandbox path_abs chunks 1 s"

text \<open>The error of \<open>unified_diff_from_chunks\<close> is an \<open>ApplyPatchError\<close>; the other cases of the sum do not
  occur, a panic apart.\<close>

fun verify_failure :: "anyhow \<Rightarrow> maybe_apply_patch_verified" where
  "verify_failure (AnyApply e) = CorrectnessError e"
| "verify_failure _ = VerifyPanic"

fun verify_hunks_loop ::
  "text_diff \<Rightarrow> ('s, 'sb) exec_fs \<Rightarrow> 'sb option \<Rightarrow> str option \<Rightarrow> str \<Rightarrow> 's \<Rightarrow> hunk list \<Rightarrow>
   (str \<times> apply_patch_file_change) list \<Rightarrow> maybe_apply_patch_verified + (str \<times> apply_patch_file_change) list" where
  "verify_hunks_loop diff fs sandbox home effective_cwd s [] changes = Inr changes"
| "verify_hunks_loop diff fs sandbox home effective_cwd s (hunk # hunks) changes =
     (let path = resolve_path home effective_cwd hunk in
      case hunk of
        AddFile _ contents \<Rightarrow>
          verify_hunks_loop diff fs sandbox home effective_cwd s hunks (AList.update path (FileAdd contents) changes)
      | DeleteFile _ \<Rightarrow>
          (case read_file_text fs path sandbox s of
             Inr content \<Rightarrow>
               verify_hunks_loop diff fs sandbox home effective_cwd s hunks (AList.update path (FileDelete content) changes)
           | Inl e \<Rightarrow> Inl (CorrectnessError (IoErr (lit ''Failed to read '' @ path) e)))
      | UpdateFile _ move_path chunks \<Rightarrow>
          (case unified_diff_from_chunks diff fs sandbox path chunks s of
             Inr u \<Rightarrow>
               verify_hunks_loop diff fs sandbox home effective_cwd s hunks
                 (AList.update path (FileUpdate (upd_unified_diff u)
                   (map_option (abs_join home effective_cwd) move_path) (upd_content u)) changes)
           | Inl e \<Rightarrow> Inl (verify_failure e)))"

definition verify_apply_patch_args ::
  "text_diff \<Rightarrow> ('s, 'sb) exec_fs \<Rightarrow> 'sb option \<Rightarrow> str option \<Rightarrow> apply_patch_args \<Rightarrow> str \<Rightarrow> 's \<Rightarrow> maybe_apply_patch_verified" where
  "verify_apply_patch_args diff fs sandbox home args cwd s =
     (let effective_cwd = (case args_workdir args of Some dir \<Rightarrow> abs_join home cwd dir | None \<Rightarrow> cwd)
      in case verify_hunks_loop diff fs sandbox home effective_cwd s (args_hunks args) [] of
           Inl r \<Rightarrow> r
         | Inr changes \<Rightarrow> VerifiedBody \<lparr>act_changes = changes, act_patch = args_patch args, act_cwd = effective_cwd\<rparr>)"

definition implicit_invocation :: "str list \<Rightarrow> bool" where
  "implicit_invocation argv \<longleftrightarrow>
     (case argv of [body] \<Rightarrow> \<not> isl (parse_patch body) | _ \<Rightarrow> False)
     \<or> (case parse_shell_script argv of Some (_, script) \<Rightarrow> \<not> isl (parse_patch script) | None \<Rightarrow> False)"

definition maybe_parse_apply_patch_verified ::
  "bash_query \<Rightarrow> text_diff \<Rightarrow> ('s, 'sb) exec_fs \<Rightarrow> 'sb option \<Rightarrow> str option \<Rightarrow> str list \<Rightarrow> str \<Rightarrow> 's \<Rightarrow> maybe_apply_patch_verified" where
  "maybe_parse_apply_patch_verified query diff fs sandbox home argv cwd s =
     (if implicit_invocation argv then CorrectnessError ImplicitInvocation
      else (case maybe_parse_apply_patch query argv of
              PatchBody args \<Rightarrow> verify_apply_patch_args diff fs sandbox home args cwd s
            | ShellParseError e \<Rightarrow> VerifiedShellParseError e
            | PatchParseError e \<Rightarrow> CorrectnessError (ParseErr e)
            | NotApplyPatch \<Rightarrow> VerifiedNotApplyPatch))"

subsection \<open>Files that a patch leaves alone\<close>

definition hunk_targets :: "str option \<Rightarrow> str \<Rightarrow> hunk \<Rightarrow> str set" where
  "hunk_targets home cwd h =
     insert (resolve_path home cwd h)
       (case h of UpdateFile _ (Some dest) _ \<Rightarrow> {resolve_path_against_base home dest cwd} | _ \<Rightarrow> {})"

context executor_file_system
begin

lemma write_file_frame:
  assumes "normal_path p" "write_file fs p b sandbox s = (s', r)" "q \<noteq> p"
  shows "view s' q = view s q"
proof (cases r)
  case (Inl e)
  with assms write_failed show ?thesis by blast
next
  case (Inr u)
  with assms write_ok [of p b s s'] show ?thesis by simp
qed

lemma remove_frame:
  assumes "normal_path p" "remove_path fs p False False sandbox s = (s', r)" "q \<noteq> p"
  shows "view s' q = view s q"
proof (cases r)
  case (Inl e)
  with assms remove_failed show ?thesis by blast
next
  case (Inr u)
  with assms remove_ok [of p s s'] show ?thesis by simp
qed

lemma write_retry_frame:
  assumes "normal_path p" "write_file_with_missing_parent_retry fs sandbox p b s = (s', r)" "q \<noteq> p"
  shows "view s' q = view s q"
proof -
  obtain s1 r1 where w1: "write_file fs p b sandbox s = (s1, r1)" by fastforce
  have v1: "view s1 q = view s q" by (rule write_file_frame [OF assms(1) w1 assms(3)])
  show ?thesis
  proof (cases "s' = s1")
    case False
    then obtain e where e: "r1 = Inl e" "io_kind e = NotFound"
      using w1 assms(2) by (cases r1) (auto simp: write_file_with_missing_parent_retry_def split: if_splits)
    obtain s2 r2 where m: "(case abs_parent p of
                     Some parent_abs \<Rightarrow> create_directory fs parent_abs True sandbox s1
                   | None \<Rightarrow> (s1, Inr ())) = (s2, r2)" by fastforce
    have v2: "view s2 = view s1" using m mkdir abs_parent_normal [OF assms(1)] by (auto split: option.splits)
    obtain s3 r3 where w3: "write_file fs p b sandbox s2 = (s3, r3)" by fastforce
    have "s' = s2 \<or> s' = s3"
      using assms(2) w1 e m w3 by (cases r2) (auto simp: write_file_with_missing_parent_retry_def)
    with v1 v2 write_file_frame [OF assms(1) w3 assms(3)] show ?thesis by auto
  qed (use v1 in simp)
qed

lemma apply_hunk_frame:
  assumes "apply_hunk fs sandbox home cwd h s d paths = (s', d', r)" "is_absolute cwd" "q \<notin> hunk_targets home cwd h"
  shows "view s' q = view s q"
proof -
  note n = resolve_path_normal [OF assms(2), of home h] resolve_normal [OF assms(2), of home]
  let ?p = "resolve_path home cwd h"
  have q: "q \<noteq> ?p" using assms(3) by (simp add: hunk_targets_def)
  show ?thesis
  proof (cases h)
    case (AddFile p contents)
    obtain s1 r1 where "write_file_with_missing_parent_retry fs sandbox ?p (into_bytes contents) s = (s1, r1)" by fastforce
    with AddFile assms(1) write_retry_frame [OF n(1) _ q] show ?thesis
      by (auto simp: apply_hunk_def apply_add_def Let_def split: prod.splits sum.splits)
  next
    case (DeleteFile p)
    obtain s1 r1 where "remove_path fs ?p False False sandbox s = (s1, r1)" by fastforce
    with DeleteFile assms(1) remove_frame [OF n(1) _ q] show ?thesis
      by (auto simp: apply_hunk_def apply_delete_def Let_def split: prod.splits sum.splits)
  next
    case (UpdateFile p mv chunks)
    show ?thesis
    proof (cases "derive_new_contents_from_chunks fs sandbox ?p chunks s")
      case (Inl e)
      with assms(1) UpdateFile show ?thesis by (simp add: apply_hunk_def Let_def)
    next
      case (Inr ap)
      show ?thesis
      proof (cases mv)
        case None
        obtain s1 r1 where "write_file fs ?p (into_bytes (new_contents ap)) sandbox s = (s1, r1)" by fastforce
        with None UpdateFile Inr assms(1) write_file_frame [OF n(1) _ q] show ?thesis
          by (auto simp: apply_hunk_def apply_update_in_place_def Let_def split: sum.splits)
      next
        case (Some dest)
        let ?d = "resolve_path_against_base home dest cwd"
        have qd: "q \<noteq> ?d" using assms(3) UpdateFile Some by (simp add: hunk_targets_def)
        obtain s1 r1 where w: "write_file_with_missing_parent_retry fs sandbox ?d (into_bytes (new_contents ap)) s = (s1, r1)"
          by fastforce
        obtain s2 r2 where rm: "remove_path fs ?p False False sandbox s1 = (s2, r2)" by fastforce
        have "s' = s1 \<or> s' = s2"
          using Some UpdateFile Inr assms(1) w rm
          by (auto simp: apply_hunk_def apply_update_move_def Let_def split: prod.splits sum.splits)
        with write_retry_frame [OF n(2) w qd] remove_frame [OF n(1) rm q] show ?thesis by auto
      qed
    qed
  qed
qed

lemma apply_hunks_loop_frame:
  assumes "apply_hunks_loop fs sandbox home cwd hs s d paths = (s', d', r)" "is_absolute cwd"
    and "\<And>h. h \<in> set hs \<Longrightarrow> q \<notin> hunk_targets home cwd h"
  shows "view s' q = view s q"
  using assms(1,3)
proof (induction hs arbitrary: s d paths)
  case (Cons h hs)
  obtain s1 d1 r1 where st: "apply_hunk fs sandbox home cwd h s d paths = (s1, d1, r1)" by (metis prod_cases3)
  have v: "view s1 q = view s q" using apply_hunk_frame [OF st assms(2)] Cons.prems(2) by simp
  show ?case
  proof (cases r1)
    case (Inl e)
    with Cons.prems(1) st v show ?thesis by simp
  next
    case (Inr paths1)
    with Cons.prems(1) st have "apply_hunks_loop fs sandbox home cwd hs s1 d1 paths1 = (s', d', r)" by simp
    from Cons.IH [OF this] Cons.prems(2) v show ?thesis by simp
  qed
qed simp

lemma apply_hunks_frame:
  assumes "is_absolute cwd" "view (tool_state (apply_hunks fs sandbox home cwd hs s)) q \<noteq> view s q"
  obtains h where "h \<in> set hs" "q \<in> hunk_targets home cwd h"
proof -
  obtain s' d' r where run: "apply_hunks_to_files fs sandbox home cwd hs s delta_empty = (s', d', r)" by (metis prod_cases3)
  then have st: "tool_state (apply_hunks fs sandbox home cwd hs s) = s'"
    by (auto simp: apply_hunks_def split: sum.splits)
  show thesis
  proof (rule ccontr)
    assume "\<not> thesis"
    with that have "\<And>h. h \<in> set hs \<Longrightarrow> q \<notin> hunk_targets home cwd h" by blast
    with run assms(1) apply_hunks_loop_frame have "view s' q = view s q"
      by (auto simp: apply_hunks_to_files_def split: if_splits)
    with assms(2) st show False by simp
  qed
qed

end

subsection \<open>Changes of distinct files\<close>

fun change_of :: "str option \<Rightarrow> str \<Rightarrow> hunk \<Rightarrow> apply_patch_file_change \<Rightarrow> bool" where
  "change_of home cwd (AddFile _ contents) c \<longleftrightarrow> c = FileAdd contents"
| "change_of home cwd (DeleteFile _) c \<longleftrightarrow> (\<exists>content. c = FileDelete content)"
| "change_of home cwd (UpdateFile _ move_path _) c \<longleftrightarrow>
     (\<exists>diff content. c = FileUpdate diff (map_option (abs_join home cwd) move_path) content)"

lemma verify_hunks_loop_keeps:
  assumes "verify_hunks_loop diff fs sandbox home cwd s hs cs = Inr cs'" "p \<notin> resolve_path home cwd ` set hs"
  shows "map_of cs' p = map_of cs p"
  using assms
  by (induction hs arbitrary: cs)
    (auto simp: Let_def update_conv' split: hunk.splits sum.splits)

lemma verify_hunks_loop_changes:
  assumes "verify_hunks_loop diff fs sandbox home cwd s hs cs = Inr cs'"
    and "distinct (map (resolve_path home cwd) hs)" "h \<in> set hs"
  obtains c where "map_of cs' (resolve_path home cwd h) = Some c" "change_of home cwd h c"
proof -
  have "\<exists>c. map_of cs' (resolve_path home cwd h) = Some c \<and> change_of home cwd h c"
    using assms
  proof (induction hs arbitrary: cs)
    case (Cons h' hs)
    let ?p = "resolve_path home cwd h'"
    from Cons.prems(1) obtain c where c: "change_of home cwd h' c"
      "verify_hunks_loop diff fs sandbox home cwd s hs (AList.update ?p c cs) = Inr cs'"
      by (cases h') (auto simp: Let_def split: sum.splits)
    show ?case
    proof (cases "h = h'")
      case True
      have "?p \<notin> resolve_path home cwd ` set hs" using Cons.prems(2) by auto
      from verify_hunks_loop_keeps [OF c(2) this] c(1) True show ?thesis by (simp add: update_conv')
    next
      case False
      with Cons.IH [OF c(2)] Cons.prems(2,3) show ?thesis by simp
    qed
  qed simp
  with that show thesis by blast
qed

subsection \<open>The text kept for the application\<close>

lemma trim_start_append: "trim_start f \<noteq> [] \<Longrightarrow> trim_start (f @ t) = trim_start f @ t"
  by (induction f) (auto simp: trim_start_def)

lemma trim_end_append: "trim_end l \<noteq> [] \<Longrightarrow> trim_end (t @ l) = t @ trim_end l"
  using trim_start_append [of "rev l" "rev t"] by (simp add: trim_end_def trim_start_def)

lemma trim_parts:
  assumes "trim s \<noteq> []"
  shows "trim_start s \<noteq> []" "trim_end s \<noteq> []"
    and "set (trim_start s) \<subseteq> set s" "set (trim_end s) \<subseteq> set s" "trim (trim_start s) = trim s"
proof -
  show "trim_start s \<noteq> []" using assms by (auto simp: trim_def)
  show "trim_end s \<noteq> []" using assms trim_trim_end [of s] by (metis trim_simps(1))
  show "set (trim_start s) \<subseteq> set s" by (auto simp: trim_start_def dest: set_dropWhileD)
  show "set (trim_end s) \<subseteq> set s" by (auto simp: trim_end_def dest: set_dropWhileD)
  show "trim (trim_start s) = trim s" by (simp add: trim_def trim_start_def dropWhile_idem)
qed

lemma set_join: "s \<in> set ss \<Longrightarrow> set s \<subseteq> set (join sep ss)"
proof (induction ss)
  case (Cons x ss)
  then show ?case by (cases "ss = []") (auto simp: join_Cons)
qed simp

lemma set_strip_cr: "set (strip_cr s) \<subseteq> set s"
  by (auto simp: strip_cr_def strip_suffix_Some split: option.splits)

lemma lines_of_pieces_from: "l \<in> set (lines_of_pieces ps) \<Longrightarrow> \<exists>p \<in> set ps. set l \<subseteq> set p"
  using set_strip_cr by (induction ps rule: lines_of_pieces.induct) (auto split: if_splits)

lemma str_lines_chars:
  assumes "l \<in> set (str_lines s)"
  shows "set l \<subseteq> set s" "nl \<notin> set l"
proof -
  from lines_of_pieces_from assms obtain p where p: "p \<in> set (split_on nl s)" "set l \<subseteq> set p"
    unfolding str_lines_def by blast
  from p(1) have "set p \<subseteq> set s" using set_join [of p "split_on nl s" "[nl]"] by (simp add: join_split_on)
  with p(2) show "set l \<subseteq> set s" by blast
  from set_split_on [OF p(1)] p(2) show "nl \<notin> set l" by blast
qed

lemma check_patch_boundaries_lenient_Inr:
  assumes "check_patch_boundaries_lenient ls = Inr (p, h)"
  obtains f l where "p = f # h @ [l]" "set p \<subseteq> set ls" "trim f = BEGIN_PATCH_MARKER" "trim l = END_PATCH_MARKER"
proof (cases "check_patch_boundaries_strict ls")
  case (Inr r)
  with assms check_patch_boundaries_strict_Inr [of ls p h] that show thesis
    by (auto simp: check_patch_boundaries_lenient_def)
next
  case (Inl e)
  let ?inner = "take (length ls - 2) (drop 1 ls)"
  from Inl assms have "check_patch_boundaries_strict ?inner = Inr (p, h)"
    by (auto simp: check_patch_boundaries_lenient_def split: list.splits if_splits)
  from check_patch_boundaries_strict_Inr [OF this] that show thesis
    using set_take_subset [of "length ls - 2" "drop 1 ls"] set_drop_subset [of 1 ls] by fastforce
qed

lemma parse_patch_Inr:
  assumes "parse_patch t = Inr a"
  obtains p h env rest n where "check_patch_boundaries_lenient (str_lines (trim t)) = Inr (p, h)"
    "parse_environment_id_preamble h = Inr (env, rest, n)" "hunks_loop rest n [] = Inr (args_hunks a)"
    "args_patch a = join [nl] p"
  using assms
  by (auto simp: parse_patch_def parse_patch_text_def PARSE_IN_STRICT_MODE_def Let_def and_then_def split: sum.splits)

text \<open>A patch without carriage returns is parsed to the same hunks again from the text that is kept.\<close>

lemma reparse_kept_text:
  assumes "parse_patch t = Inr a" "cr \<notin> set t"
  shows "\<exists>a'. parse_patch (args_patch a) = Inr a' \<and> args_hunks a' = args_hunks a"
proof -
  from assms(1) obtain p h env rest n where ph: "check_patch_boundaries_lenient (str_lines (trim t)) = Inr (p, h)"
    and rest: "parse_environment_id_preamble h = Inr (env, rest, n)" "hunks_loop rest n [] = Inr (args_hunks a)"
      "args_patch a = join [nl] p" by (rule parse_patch_Inr)
  from ph obtain f l where fl: "p = f # h @ [l]" "set p \<subseteq> set (str_lines (trim t))"
    "trim f = BEGIN_PATCH_MARKER" "trim l = END_PATCH_MARKER" by (rule check_patch_boundaries_lenient_Inr)
  have ne: "trim f \<noteq> []" "trim l \<noteq> []" using fl(3,4) by (simp_all add: marker_defs str_simps)
  note f = trim_parts [OF ne(1)]
  note l = trim_parts [OF ne(2)]
  have chars: "set x \<subseteq> set t" "nl \<notin> set x" if "x \<in> set p" for x
  proof -
    have x: "x \<in> set (str_lines (trim t))" using that fl(2) by blast
    have "set (trim t) \<subseteq> set t" by (auto simp: trim_def trim_end_def trim_start_def dest!: set_dropWhileD)
    with str_lines_chars [OF x] show "set x \<subseteq> set t" "nl \<notin> set x" by blast+
  qed
  let ?ls = "trim_start f # h @ [trim_end l]"
  have kept: "trim (args_patch a) = join [nl] ?ls"
  proof (cases "h = []")
    case True
    then show ?thesis
      using trim_start_append [OF f(1), of "nl # l"] trim_end_append [OF l(2), of "trim_start f @ [nl]"] rest(3) fl(1)
      by (simp add: trim_def)
  next
    case False
    then show ?thesis
      using trim_start_append [OF f(1), of "nl # join [nl] h @ nl # l"]
        trim_end_append [OF l(2), of "trim_start f @ nl # join [nl] h @ [nl]"] rest(3) fl(1)
      by (simp add: trim_def join_Cons join_snoc)
  qed
  have "str_lines (join [nl] ?ls) = ?ls"
  proof (rule str_lines_join)
    fix x assume "x \<in> set ?ls"
    then obtain y where "y \<in> set p" "set x \<subseteq> set y" using fl(1) f(3) l(4) by auto
    with chars [of y] have x: "set x \<subseteq> set t" "nl \<notin> set x" by blast+
    from x(2) show "nl \<notin> set x" .
    show "x = [] \<or> last x \<noteq> cr" using x(1) assms(2) by (metis last_in_set subsetD)
  qed (use l(2) in auto)
  moreover have "check_patch_boundaries_strict ?ls = Inr (?ls, h)"
    by (rule check_patch_boundaries_strict_ok) (use fl f l in simp_all)
  ultimately show ?thesis using kept rest
    by (simp add: parse_patch_def parse_patch_text_def PARSE_IN_STRICT_MODE_def check_patch_boundaries_lenient_def)
qed

end
