(* ===== verification/ExecPolicy.thy ===== *)
theory ExecPolicy
  imports AbsolutePath "HOL-Library.AList" "HOL-Library.List_Lexorder"
begin

text \<open>
  The command and network policy of \<open>execpolicy\<close>: decisions (\<open>decision.rs\<close>), prefix rules and
  network hosts (\<open>rule.rs\<close>), and policies with their evaluation and merging (\<open>policy.rs\<close>).  A
  \<open>MultiMap\<close> is an association list from programs to their rules in insertion order; the order of
  the programs, which the hash map leaves open, is that of the list.  The panic of an evaluation
  without matches is \<open>None\<close>.  The lemmas characterise the decision of a command as the strictest
  matching rule, merging as the union of the rules, and the compiled domains by the last decisive
  rule of a host.
\<close>

subsection \<open>Decisions\<close>

datatype decision = Allow | Prompt | Forbidden

fun severity :: "decision \<Rightarrow> nat" where
  "severity Allow = 0"
| "severity Prompt = 1"
| "severity Forbidden = 2"

lemma severity_inj [simp]: "severity a = severity b \<longleftrightarrow> a = b"
  by (cases a; cases b) simp_all

text \<open>The derived \<open>Ord\<close> of the enum follows the order of its variants.\<close>

instantiation decision :: linorder
begin

definition less_eq_decision :: "decision \<Rightarrow> decision \<Rightarrow> bool" where
  "less_eq_decision a b \<longleftrightarrow> severity a \<le> severity b"

definition less_decision :: "decision \<Rightarrow> decision \<Rightarrow> bool" where
  "less_decision a b \<longleftrightarrow> severity a < severity b"

instance
  by standard (auto simp: less_eq_decision_def less_decision_def)

end

instantiation decision :: order_top
begin

definition top_decision :: decision where
  "top_decision = Forbidden"

instance
proof
  fix a :: decision
  show "a \<le> top" by (cases a) (simp_all add: less_eq_decision_def top_decision_def)
qed

end

lemma Forbidden_top [simp]: "a \<le> Forbidden" "Forbidden \<le> a \<longleftrightarrow> a = Forbidden"
  by (cases a; simp add: less_eq_decision_def)+

record error_location =
  loc_path :: str
  loc_start :: "nat \<times> nat"
  loc_end :: "nat \<times> nat"

datatype policy_error =
    InvalidDecision str
  | InvalidPattern str
  | InvalidExample str
  | InvalidRule str
  | ExampleDidNotMatch "str list" "str list" "error_location option"
  | ExampleDidMatch str str "error_location option"

fun with_location :: "error_location \<Rightarrow> policy_error \<Rightarrow> policy_error" where
  "with_location l (ExampleDidNotMatch rules examples None) = ExampleDidNotMatch rules examples (Some l)"
| "with_location l (ExampleDidMatch rule example None) = ExampleDidMatch rule example (Some l)"
| "with_location l other = other"

definition decision_parse :: "str \<Rightarrow> policy_error + decision" where
  "decision_parse raw =
     (if raw = lit ''allow'' then Inr Allow
      else if raw = lit ''prompt'' then Inr Prompt
      else if raw = lit ''forbidden'' then Inr Forbidden
      else Inl (InvalidDecision raw))"

subsection \<open>Rules\<close>

datatype pattern_token = Single str | Alts "str list"

fun token_matches :: "pattern_token \<Rightarrow> str \<Rightarrow> bool" where
  "token_matches (Single expected) token \<longleftrightarrow> expected = token"
| "token_matches (Alts alternatives) token \<longleftrightarrow> list_ex (\<lambda>alt. alt = token) alternatives"

fun token_alternatives :: "pattern_token \<Rightarrow> str list" where
  "token_alternatives (Single expected) = [expected]"
| "token_alternatives (Alts alternatives) = alternatives"

record prefix_pattern =
  pat_first :: str
  pat_rest :: "pattern_token list"

definition matches_prefix :: "prefix_pattern \<Rightarrow> str list \<Rightarrow> str list option" where
  "matches_prefix p cmd =
     (let pattern_length = length (pat_rest p) + 1 in
      if length cmd < pattern_length \<or> hd cmd \<noteq> pat_first p then None
      else if \<not> list_all (\<lambda>(pattern_token, cmd_token). token_matches pattern_token cmd_token)
                 (zip (pat_rest p) (take (pattern_length - 1) (drop 1 cmd))) then None
      else Some (take pattern_length cmd))"

datatype rule_match =
    PrefixRuleMatch "str list" decision "str option" "str option"
  | HeuristicsRuleMatch "str list" decision

fun match_decision :: "rule_match \<Rightarrow> decision" where
  "match_decision (PrefixRuleMatch matched_prefix d resolved justification) = d"
| "match_decision (HeuristicsRuleMatch command d) = d"

fun with_resolved_program :: "str \<Rightarrow> rule_match \<Rightarrow> rule_match" where
  "with_resolved_program program (PrefixRuleMatch matched_prefix d resolved justification) =
     PrefixRuleMatch matched_prefix d (Some program) justification"
| "with_resolved_program program other = other"

record prefix_rule =
  rule_pattern :: prefix_pattern
  rule_decision :: decision
  rule_justification :: "str option"

definition rule_program :: "prefix_rule \<Rightarrow> str" where
  "rule_program r = pat_first (rule_pattern r)"

definition rule_matches :: "str list \<Rightarrow> prefix_rule \<Rightarrow> rule_match option" where
  "rule_matches cmd r =
     map_option (\<lambda>matched_prefix. PrefixRuleMatch matched_prefix (rule_decision r) None (rule_justification r))
       (matches_prefix (rule_pattern r) cmd)"

datatype network_rule_protocol = Http | Https | Socks5Tcp | Socks5Udp

definition protocol_parse :: "str \<Rightarrow> policy_error + network_rule_protocol" where
  "protocol_parse raw =
     (if raw = lit ''http'' then Inr Http
      else if raw \<in> {lit ''https'', lit ''https_connect'', lit ''http-connect''} then Inr Https
      else if raw = lit ''socks5_tcp'' then Inr Socks5Tcp
      else if raw = lit ''socks5_udp'' then Inr Socks5Udp
      else Inl (InvalidRule
        (lit ''network_rule protocol must be one of http, https, socks5_tcp, socks5_udp (got '' @ raw @ lit '')'')))"

fun as_policy_string :: "network_rule_protocol \<Rightarrow> str" where
  "as_policy_string Http = lit ''http''"
| "as_policy_string Https = lit ''https''"
| "as_policy_string Socks5Tcp = lit ''socks5_tcp''"
| "as_policy_string Socks5Udp = lit ''socks5_udp''"

record network_rule =
  net_host :: str
  net_protocol :: network_rule_protocol
  net_decision :: decision
  net_justification :: "str option"

definition colon :: uchar where
  "colon = of_char CHR '':''"

definition trim_end_dots :: "str \<Rightarrow> str" where
  "trim_end_dots s = rev (dropWhile (\<lambda>c. c = of_char CHR ''.'') (rev s))"

definition is_port :: "str \<Rightarrow> bool" where
  "is_port p \<longleftrightarrow> p \<noteq> [] \<and> list_all is_ascii_digit p"

text \<open>The part of the host before a port: a bracketed literal, or the text before a single colon.\<close>

definition strip_port :: "str \<Rightarrow> str \<Rightarrow> policy_error + str" where
  "strip_port raw host =
     (case strip_prefix (lit ''['') host of
        Some stripped \<Rightarrow>
          (case split_once (of_char CHR '']'') stripped of
             None \<Rightarrow> Inl (InvalidRule (lit ''network_rule host has an invalid bracketed IPv6 literal''))
           | Some (inside, rest) \<Rightarrow>
               (let port_ok = (case strip_prefix (lit '':'') rest of Some port \<Rightarrow> is_port port | None \<Rightarrow> False) in
                if rest \<noteq> [] \<and> \<not> port_ok
                then Inl (InvalidRule (lit ''network_rule host contains an unsupported suffix: '' @ raw))
                else Inr inside))
      | None \<Rightarrow>
          (if count_list host colon = 1 then
             (case rsplit_once colon host of
                Some (candidate, port) \<Rightarrow>
                  if candidate \<noteq> [] \<and> is_port port then Inr candidate else Inr host
              | None \<Rightarrow> Inr host)
           else Inr host))"

definition normalize_network_rule_host :: "str \<Rightarrow> policy_error + str" where
  "normalize_network_rule_host raw =
     (let host = trim raw in
      if host = [] then Inl (InvalidRule (lit ''network_rule host cannot be empty''))
      else if contains (lit ''://'') host \<or> of_char CHR ''/'' \<in> set host \<or> of_char CHR ''?'' \<in> set host
           \<or> of_char CHR ''#'' \<in> set host
      then Inl (InvalidRule (lit ''network_rule host must be a hostname or IP literal (without scheme or path)''))
      else
        and_then (strip_port raw host) (\<lambda>host.
          let normalized = to_ascii_lowercase (trim (trim_end_dots host)) in
          if normalized = [] then Inl (InvalidRule (lit ''network_rule host cannot be empty''))
          else if of_char CHR ''*'' \<in> set normalized
          then Inl (InvalidRule (lit ''network_rule host must be a specific host; wildcards are not allowed''))
          else if list_ex is_ws normalized
          then Inl (InvalidRule (lit ''network_rule host cannot contain whitespace''))
          else Inr normalized))"

subsection \<open>Policies\<close>

type_synonym rule_map = "(str \<times> prefix_rule list) list"

definition mm_insert :: "str \<Rightarrow> prefix_rule \<Rightarrow> rule_map \<Rightarrow> rule_map" where
  "mm_insert program r m =
     (case map_of m program of
        None \<Rightarrow> m @ [(program, [r])]
      | Some rules \<Rightarrow> AList.update program (rules @ [r]) m)"

record policy =
  rules_by_program :: rule_map
  network_rules :: "network_rule list"
  host_executables_by_name :: "(str \<times> str list) list"

definition policy_empty :: policy where
  "policy_empty = \<lparr>rules_by_program = [], network_rules = [], host_executables_by_name = []\<rparr>"

definition add_prefix_rule :: "str list \<Rightarrow> decision \<Rightarrow> policy \<Rightarrow> policy \<times> (policy_error + unit)" where
  "add_prefix_rule tokens d p =
     (case tokens of
        [] \<Rightarrow> (p, Inl (InvalidPattern (lit ''prefix cannot be empty'')))
      | first_token # rest \<Rightarrow>
          (p\<lparr>rules_by_program := mm_insert first_token
               \<lparr>rule_pattern = \<lparr>pat_first = first_token, pat_rest = map Single rest\<rparr>,
                rule_decision = d, rule_justification = None\<rparr> (rules_by_program p)\<rparr>, Inr ()))"

definition justification_ok :: "str option \<Rightarrow> bool" where
  "justification_ok justification = (case justification of Some raw \<Rightarrow> trim raw \<noteq> [] | None \<Rightarrow> True)"

definition add_network_rule ::
  "str \<Rightarrow> network_rule_protocol \<Rightarrow> decision \<Rightarrow> str option \<Rightarrow> policy \<Rightarrow> policy \<times> (policy_error + unit)" where
  "add_network_rule host protocol d justification p =
     (case normalize_network_rule_host host of
        Inl e \<Rightarrow> (p, Inl e)
      | Inr host \<Rightarrow>
          if \<not> justification_ok justification
          then (p, Inl (InvalidRule (lit ''justification cannot be empty'')))
          else (p\<lparr>network_rules := network_rules p @
                  [\<lparr>net_host = host, net_protocol = protocol, net_decision = d, net_justification = justification\<rparr>]\<rparr>,
                Inr ()))"

definition set_host_executable_paths :: "str \<Rightarrow> str list \<Rightarrow> policy \<Rightarrow> policy" where
  "set_host_executable_paths name paths p =
     p\<lparr>host_executables_by_name := AList.update name paths (host_executables_by_name p)\<rparr>"

fun insert_rules :: "str \<Rightarrow> prefix_rule list \<Rightarrow> rule_map \<Rightarrow> rule_map" where
  "insert_rules program [] m = m"
| "insert_rules program (r # rs) m = insert_rules program rs (mm_insert program r m)"

fun insert_all :: "rule_map \<Rightarrow> rule_map \<Rightarrow> rule_map" where
  "insert_all [] m = m"
| "insert_all ((program, rules) # rest) m = insert_all rest (insert_rules program rules m)"

definition merge_overlay :: "policy \<Rightarrow> policy \<Rightarrow> policy" where
  "merge_overlay self overlay =
     \<lparr>rules_by_program = insert_all (rules_by_program overlay) (rules_by_program self),
      network_rules = network_rules self @ network_rules overlay,
      host_executables_by_name =
        AList.merge (host_executables_by_name self) (host_executables_by_name overlay)\<rparr>"

definition upsert_domain :: "str list \<Rightarrow> str \<Rightarrow> str list" where
  "upsert_domain entries host = filter (\<lambda>entry. entry \<noteq> host) entries @ [host]"

fun compile_rules :: "network_rule list \<Rightarrow> str list \<times> str list \<Rightarrow> str list \<times> str list" where
  "compile_rules [] (allowed, denied) = (allowed, denied)"
| "compile_rules (r # rs) (allowed, denied) =
     (case net_decision r of
        Allow \<Rightarrow> compile_rules rs
          (upsert_domain allowed (net_host r), filter (\<lambda>entry. entry \<noteq> net_host r) denied)
      | Forbidden \<Rightarrow> compile_rules rs
          (filter (\<lambda>entry. entry \<noteq> net_host r) allowed, upsert_domain denied (net_host r))
      | Prompt \<Rightarrow> compile_rules rs (allowed, denied))"

definition compiled_network_domains :: "policy \<Rightarrow> str list \<times> str list" where
  "compiled_network_domains p = compile_rules (network_rules p) ([], [])"

fun render_pattern_token :: "pattern_token \<Rightarrow> str" where
  "render_pattern_token (Single value) = value"
| "render_pattern_token (Alts alternatives) = lit ''['' @ join (lit ''|'') alternatives @ lit '']''"

definition allowed_prefix :: "prefix_rule \<Rightarrow> str list list" where
  "allowed_prefix r =
     (if rule_decision r \<noteq> Allow then []
      else [pat_first (rule_pattern r) # map render_pattern_token (pat_rest (rule_pattern r))])"

definition get_allowed_prefixes :: "policy \<Rightarrow> str list list" where
  "get_allowed_prefixes p =
     remdups_adj (sort (concat (map (\<lambda>(program, rules). concat (map allowed_prefix rules)) (rules_by_program p))))"

subsection \<open>Evaluation\<close>

definition match_exact_rules :: "policy \<Rightarrow> str list \<Rightarrow> rule_match list option" where
  "match_exact_rules p cmd =
     (case cmd of
        [] \<Rightarrow> None
      | first # _ \<Rightarrow>
          Some (case map_of (rules_by_program p) first of
                  Some rules \<Rightarrow> List.map_filter (rule_matches cmd) rules
                | None \<Rightarrow> []))"

definition executable_lookup_key :: "str \<Rightarrow> str" where
  "executable_lookup_key raw = raw"

definition executable_path_lookup_key :: "str \<Rightarrow> str option" where
  "executable_path_lookup_key path = map_option executable_lookup_key (path_file_name path)"

text \<open>The environment an absolute path is built in: the home and the current directory.\<close>

record path_env =
  env_home :: "str option"
  env_cwd :: "str + str"

definition match_host_executable_rules :: "path_env \<Rightarrow> policy \<Rightarrow> str list \<Rightarrow> rule_match list" where
  "match_host_executable_rules env p cmd =
     (case cmd of
        [] \<Rightarrow> []
      | first # args \<Rightarrow>
          (case from_absolute_path (env_home env) (env_cwd env) first of
             Inl _ \<Rightarrow> []
           | Inr program \<Rightarrow>
               (case executable_path_lookup_key program of
                  None \<Rightarrow> []
                | Some basename \<Rightarrow>
                    (case map_of (rules_by_program p) basename of
                       None \<Rightarrow> []
                     | Some rules \<Rightarrow>
                         if (case map_of (host_executables_by_name p) basename of
                               Some paths \<Rightarrow> \<not> list_ex (\<lambda>path. path = program) paths
                             | None \<Rightarrow> False)
                         then []
                         else map (with_resolved_program program)
                                (List.map_filter (rule_matches (basename # args)) rules)))))"

definition matches_for_command_with_options ::
  "path_env \<Rightarrow> policy \<Rightarrow> str list \<Rightarrow> (str list \<Rightarrow> decision) option \<Rightarrow> bool \<Rightarrow> rule_match list" where
  "matches_for_command_with_options env p cmd heuristics_fallback resolve_host_executables =
     (let nonempty = (\<lambda>ms. case ms of Some (m # ms) \<Rightarrow> Some (m # ms) | _ \<Rightarrow> None);
          matched_rules =
            (case nonempty (match_exact_rules p cmd) of
               Some ms \<Rightarrow> ms
             | None \<Rightarrow>
                 (case nonempty (if resolve_host_executables
                                 then Some (match_host_executable_rules env p cmd) else None) of
                    Some ms \<Rightarrow> ms
                  | None \<Rightarrow> []))
      in case (matched_rules, heuristics_fallback) of
           ([], Some fallback) \<Rightarrow> [HeuristicsRuleMatch cmd (fallback cmd)]
         | _ \<Rightarrow> matched_rules)"

definition matches_for_command ::
  "path_env \<Rightarrow> policy \<Rightarrow> str list \<Rightarrow> (str list \<Rightarrow> decision) option \<Rightarrow> rule_match list" where
  "matches_for_command env p cmd heuristics_fallback =
     matches_for_command_with_options env p cmd heuristics_fallback False"

record evaluation =
  eval_decision :: decision
  eval_matched_rules :: "rule_match list"

definition eval_is_match :: "evaluation \<Rightarrow> bool" where
  "eval_is_match e = list_ex (\<lambda>m. case m of HeuristicsRuleMatch _ _ \<Rightarrow> False | _ \<Rightarrow> True) (eval_matched_rules e)"

definition evaluation_from_matches :: "rule_match list \<Rightarrow> evaluation option" where
  "evaluation_from_matches ms =
     (case map match_decision ms of
        [] \<Rightarrow> None
      | d # ds \<Rightarrow> Some \<lparr>eval_decision = fold max ds d, eval_matched_rules = ms\<rparr>)"

definition check_with_options ::
  "path_env \<Rightarrow> policy \<Rightarrow> str list \<Rightarrow> (str list \<Rightarrow> decision) \<Rightarrow> bool \<Rightarrow> evaluation option" where
  "check_with_options env p cmd fallback resolve =
     evaluation_from_matches (matches_for_command_with_options env p cmd (Some fallback) resolve)"

definition check :: "path_env \<Rightarrow> policy \<Rightarrow> str list \<Rightarrow> (str list \<Rightarrow> decision) \<Rightarrow> evaluation option" where
  "check env p cmd fallback =
     evaluation_from_matches (matches_for_command_with_options env p cmd (Some fallback) False)"

definition check_multiple_with_options ::
  "path_env \<Rightarrow> policy \<Rightarrow> str list list \<Rightarrow> (str list \<Rightarrow> decision) \<Rightarrow> bool \<Rightarrow> evaluation option" where
  "check_multiple_with_options env p commands fallback resolve =
     evaluation_from_matches
       (concat (map (\<lambda>command. matches_for_command_with_options env p command (Some fallback) resolve) commands))"

definition check_multiple ::
  "path_env \<Rightarrow> policy \<Rightarrow> str list list \<Rightarrow> (str list \<Rightarrow> decision) \<Rightarrow> evaluation option" where
  "check_multiple env p commands fallback = check_multiple_with_options env p commands fallback False"

subsection \<open>The rules of a program\<close>

definition rules_for :: "rule_map \<Rightarrow> str \<Rightarrow> prefix_rule list" where
  "rules_for m program = (case map_of m program of Some rules \<Rightarrow> rules | None \<Rightarrow> [])"

definition policy_wf :: "policy \<Rightarrow> bool" where
  "policy_wf p \<longleftrightarrow> distinct (map fst (rules_by_program p)) \<and> distinct (map fst (host_executables_by_name p)) \<and>
     (\<forall>(program, rules) \<in> set (rules_by_program p). \<forall>r \<in> set rules. rule_program r = program)"

lemma map_of_mm_insert: "map_of (mm_insert k r m) = (map_of m)(k \<mapsto> rules_for m k @ [r])"
  by (auto simp: mm_insert_def rules_for_def AList.update_conv map_add_def fun_eq_iff split: option.splits)

lemma rules_for_mm_insert [simp]:
  "rules_for (mm_insert k r m) q = (if q = k then rules_for m q @ [r] else rules_for m q)"
  by (simp add: rules_for_def map_of_mm_insert)

lemma rules_for_insert_rules [simp]:
  "rules_for (insert_rules k rs m) q = (if q = k then rules_for m q @ rs else rules_for m q)"
  by (induction rs arbitrary: m) auto

lemma rules_for_Cons: "rules_for ((k, rs) # m) q = (if q = k then rs else rules_for m q)"
  by (simp add: rules_for_def)

lemma rules_for_absent: "q \<notin> fst ` set m \<Longrightarrow> rules_for m q = []"
  by (simp add: rules_for_def map_of_eq_None_iff [symmetric])

lemma rules_for_insert_all:
  "distinct (map fst n) \<Longrightarrow> rules_for (insert_all n m) q = rules_for m q @ rules_for n q"
proof (induction n m rule: insert_all.induct)
  case (2 k rs n m)
  then show ?case by (auto simp: rules_for_Cons rules_for_absent)
qed (simp add: rules_for_def)

lemma distinct_mm_insert: "distinct (map fst m) \<Longrightarrow> distinct (map fst (mm_insert k r m))"
  by (auto simp: mm_insert_def distinct_update map_of_eq_None_iff split: option.splits)

lemma distinct_insert_rules: "distinct (map fst m) \<Longrightarrow> distinct (map fst (insert_rules k rs m))"
  by (induction rs arbitrary: m) (simp_all add: distinct_mm_insert)

lemma distinct_insert_all: "distinct (map fst m) \<Longrightarrow> distinct (map fst (insert_all n m))"
  by (induction n m rule: insert_all.induct) (simp_all add: distinct_insert_rules)

lemma rules_for_in:
  assumes "distinct (map fst m)"
  shows "(\<exists>rs. (k, rs) \<in> set m \<and> r \<in> set rs) \<longleftrightarrow> r \<in> set (rules_for m k)"
  using assms by (auto simp: rules_for_def split: option.splits dest: map_of_SomeD)

lemma policy_wf_programs:
  "policy_wf p \<longleftrightarrow> distinct (map fst (rules_by_program p)) \<and> distinct (map fst (host_executables_by_name p)) \<and>
     (\<forall>k. \<forall>r \<in> set (rules_for (rules_by_program p) k). rule_program r = k)"
  unfolding policy_wf_def using rules_for_in [of "rules_by_program p"] by fastforce

lemma policy_wf_empty: "policy_wf policy_empty"
  by (simp add: policy_wf_def policy_empty_def)

lemma policy_wf_add_prefix_rule: "policy_wf p \<Longrightarrow> policy_wf (fst (add_prefix_rule tokens d p))"
  by (cases tokens) (auto simp: add_prefix_rule_def policy_wf_programs distinct_mm_insert rule_program_def)

lemma policy_wf_add_network_rule: "policy_wf p \<Longrightarrow> policy_wf (fst (add_network_rule h pr d j p))"
  by (auto simp: add_network_rule_def policy_wf_def split: sum.splits)

lemma policy_wf_set_host: "policy_wf p \<Longrightarrow> policy_wf (set_host_executable_paths name paths p)"
  by (simp add: set_host_executable_paths_def policy_wf_def distinct_update)

lemma policy_wf_merge: "policy_wf a \<Longrightarrow> policy_wf b \<Longrightarrow> policy_wf (merge_overlay a b)"
  by (auto simp: merge_overlay_def policy_wf_programs distinct_insert_all rules_for_insert_all distinct_merge)

subsection \<open>Matching\<close>

definition applies :: "str list \<Rightarrow> prefix_rule \<Rightarrow> bool" where
  "applies cmd r \<longleftrightarrow> (\<exists>args rest. cmd = rule_program r # args @ rest \<and>
     list_all2 token_matches (pat_rest (rule_pattern r)) args)"

lemma list_all_zip_list_all2:
  "length xs = length ys \<Longrightarrow> list_all (\<lambda>(x, y). P x y) (zip xs ys) \<longleftrightarrow> list_all2 P xs ys"
  by (auto simp: list_all2_iff list_all_iff)

lemma matches_prefix_iff: "matches_prefix (rule_pattern r) cmd \<noteq> None \<longleftrightarrow> applies cmd r"
proof
  let ?n = "length (pat_rest (rule_pattern r))"
  assume m: "matches_prefix (rule_pattern r) cmd \<noteq> None"
  then obtain args where cmd: "cmd = rule_program r # args" "?n \<le> length args"
    by (cases cmd) (auto simp: matches_prefix_def rule_program_def Let_def split: if_splits)
  with m have "list_all2 token_matches (pat_rest (rule_pattern r)) (take ?n args)"
    by (auto simp: matches_prefix_def Let_def list_all_zip_list_all2 split: if_splits)
  with cmd show "applies cmd r"
    unfolding applies_def by (intro exI [of _ "take ?n args"] exI [of _ "drop ?n args"]) simp
next
  assume "applies cmd r"
  then obtain args rest where cmd: "cmd = rule_program r # args @ rest"
    and l: "list_all2 token_matches (pat_rest (rule_pattern r)) args" by (auto simp: applies_def)
  from l have "length args = length (pat_rest (rule_pattern r))" by (simp add: list_all2_lengthD)
  with l cmd show "matches_prefix (rule_pattern r) cmd \<noteq> None"
    by (simp add: matches_prefix_def rule_program_def Let_def list_all_zip_list_all2)
qed

lemma rule_matches_iff: "rule_matches cmd r \<noteq> None \<longleftrightarrow> applies cmd r"
  using matches_prefix_iff [of r cmd] by (simp add: rule_matches_def)

lemma decisions_map_filter:
  "map match_decision (List.map_filter (rule_matches cmd) rs) = map rule_decision (filter (applies cmd) rs)"
proof (induction rs)
  case (Cons r rs)
  then show ?case
    using rule_matches_iff [of cmd r] by (auto simp: List.map_filter_def rule_matches_def)
qed (simp add: List.map_filter_def)

lemma exact_matches:
  "cmd \<noteq> [] \<Longrightarrow> match_exact_rules p cmd =
     Some (List.map_filter (rule_matches cmd) (rules_for (rules_by_program p) (hd cmd)))"
  by (cases cmd) (simp_all add: match_exact_rules_def rules_for_def List.map_filter_def split: option.splits)

lemma fold_max_eq_Max: "fold max ds (d::decision) = Max (set (d # ds))"
  by (simp only: Max.set_eq_fold)

lemma evaluation_from_matches_decision:
  "ms \<noteq> [] \<Longrightarrow> evaluation_from_matches ms =
     Some \<lparr>eval_decision = Max (match_decision ` set ms), eval_matched_rules = ms\<rparr>"
  by (cases ms) (simp_all add: evaluation_from_matches_def fold_max_eq_Max del: Max_insert)

lemma matches_with_fallback_not_Nil [simp]:
  "matches_for_command_with_options env p cmd (Some fb) resolve \<noteq> []"
  by (simp add: matches_for_command_with_options_def Let_def split: list.splits option.splits)

text \<open>The reference: the strictest decision of the rules that apply, else the heuristic's.\<close>

definition spec_decision :: "policy \<Rightarrow> (str list \<Rightarrow> decision) \<Rightarrow> str list \<Rightarrow> decision" where
  "spec_decision p fb cmd =
     (let ds = map rule_decision (filter (applies cmd) (rules_for (rules_by_program p) (hd cmd)))
      in if cmd = [] \<or> ds = [] then fb cmd else Max (set ds))"

lemma check_decisions:
  "match_decision ` set (matches_for_command_with_options env p cmd (Some fb) False) =
     (let ds = map rule_decision (filter (applies cmd) (rules_for (rules_by_program p) (hd cmd)))
      in if cmd = [] \<or> ds = [] then {fb cmd} else set ds)"
proof (cases "cmd = []")
  case False
  define ms where "ms = List.map_filter (rule_matches cmd) (rules_for (rules_by_program p) (hd cmd))"
  have ds: "map match_decision ms = map rule_decision (filter (applies cmd) (rules_for (rules_by_program p) (hd cmd)))"
    by (simp add: ms_def decisions_map_filter)
  have "matches_for_command_with_options env p cmd (Some fb) False =
      (if ms = [] then [HeuristicsRuleMatch cmd (fb cmd)] else ms)"
    using exact_matches [OF False, of p]
    by (simp add: matches_for_command_with_options_def ms_def [symmetric] split: list.splits)
  then show ?thesis
    using False by (cases "ms = []") (auto simp: Let_def ds [symmetric])
qed (simp add: matches_for_command_with_options_def match_exact_rules_def)

lemma check_spec:
  "\<exists>ms. check env p cmd fb = Some \<lparr>eval_decision = spec_decision p fb cmd, eval_matched_rules = ms\<rparr>"
  using evaluation_from_matches_decision [OF matches_with_fallback_not_Nil]
  by (simp add: check_def check_decisions spec_decision_def Let_def)

lemma check_multiple_spec:
  assumes "cmds \<noteq> []"
  shows "\<exists>ms. check_multiple env p cmds fb =
    Some \<lparr>eval_decision = Max (set (map (spec_decision p fb) cmds)), eval_matched_rules = ms\<rparr>"
proof -
  let ?m = "\<lambda>c. matches_for_command_with_options env p c (Some fb) False"
  let ?ds = "\<lambda>c. match_decision ` set (?m c)"
  have ne: "concat (map ?m cmds) \<noteq> []" using assms by (cases cmds) simp_all
  have one: "Max (?ds c) = spec_decision p fb c" for c
    by (simp add: check_decisions spec_decision_def Let_def)
  have "match_decision ` set (concat (map ?m cmds)) = (\<Union>c \<in> set cmds. ?ds c)" by auto
  moreover have "Max (\<Union>c \<in> set cmds. ?ds c) = Max (spec_decision p fb ` set cmds)"
  proof (rule Max_eqI)
    show "finite (\<Union>c \<in> set cmds. ?ds c)" by simp
    show "d \<le> Max (spec_decision p fb ` set cmds)" if "d \<in> (\<Union>c \<in> set cmds. ?ds c)" for d
    proof -
      from that obtain c where c: "c \<in> set cmds" "d \<in> ?ds c" by blast
      then have "d \<le> spec_decision p fb c" by (simp add: one [symmetric])
      also have "\<dots> \<le> Max (spec_decision p fb ` set cmds)" using c(1) by simp
      finally show ?thesis .
    qed
    have "Max (spec_decision p fb ` set cmds) \<in> spec_decision p fb ` set cmds" using assms by (intro Max_in) simp_all
    then obtain c where c: "c \<in> set cmds" "Max (spec_decision p fb ` set cmds) = Max (?ds c)" by (auto simp: one)
    have "Max (?ds c) \<in> ?ds c" by (intro Max_in) simp_all
    with c(1) have "Max (?ds c) \<in> (\<Union>c \<in> set cmds. ?ds c)" by (rule UN_I)
    then show "Max (spec_decision p fb ` set cmds) \<in> (\<Union>c \<in> set cmds. ?ds c)" by (simp only: c(2))
  qed
  ultimately show ?thesis
    using evaluation_from_matches_decision [OF ne]
    by (simp add: check_multiple_def check_multiple_with_options_def)
qed

subsection \<open>Merging\<close>

definition governs :: "policy \<Rightarrow> str list \<Rightarrow> bool" where
  "governs p cmd \<longleftrightarrow> cmd \<noteq> [] \<and> list_ex (applies cmd) (rules_for (rules_by_program p) (hd cmd))"

lemma governs_iff: "governs p cmd \<longleftrightarrow> cmd \<noteq> [] \<and> filter (applies cmd) (rules_for (rules_by_program p) (hd cmd)) \<noteq> []"
  by (auto simp: governs_def list_ex_iff filter_empty_conv)

lemma spec_decision_merge:
  assumes "policy_wf b"
  shows "spec_decision (merge_overlay a b) fb cmd =
    (if governs a cmd \<and> governs b cmd then max (spec_decision a fb cmd) (spec_decision b fb cmd)
     else if governs a cmd then spec_decision a fb cmd
     else if governs b cmd then spec_decision b fb cmd
     else fb cmd)"
proof -
  have "rules_for (rules_by_program (merge_overlay a b)) (hd cmd) =
      rules_for (rules_by_program a) (hd cmd) @ rules_for (rules_by_program b) (hd cmd)"
    using assms by (simp add: merge_overlay_def policy_wf_def rules_for_insert_all)
  moreover define da db where "da = map rule_decision (filter (applies cmd) (rules_for (rules_by_program a) (hd cmd)))"
    and "db = map rule_decision (filter (applies cmd) (rules_for (rules_by_program b) (hd cmd)))"
  ultimately have m: "spec_decision (merge_overlay a b) fb cmd =
      (if cmd = [] \<or> da @ db = [] then fb cmd else Max (set da \<union> set db))"
    by (simp add: spec_decision_def)
  have "spec_decision a fb cmd = (if cmd = [] \<or> da = [] then fb cmd else Max (set da))"
    "spec_decision b fb cmd = (if cmd = [] \<or> db = [] then fb cmd else Max (set db))"
    "governs a cmd \<longleftrightarrow> cmd \<noteq> [] \<and> da \<noteq> []" "governs b cmd \<longleftrightarrow> cmd \<noteq> [] \<and> db \<noteq> []"
    by (simp_all add: spec_decision_def governs_iff da_def db_def)
  with m show ?thesis by (cases "cmd = []"; cases "da = []"; cases "db = []") (simp_all add: Max_Un)
qed

subsection \<open>Compiled domains\<close>

fun decisive :: "decision option \<Rightarrow> network_rule list \<Rightarrow> str \<Rightarrow> decision option" where
  "decisive d [] host = d"
| "decisive d (r # rs) host =
     decisive (if net_host r = host \<and> net_decision r \<noteq> Prompt then Some (net_decision r) else d) rs host"

lemma set_upsert_domain [simp]: "set (upsert_domain xs h) = insert h (set xs)"
  by (auto simp: upsert_domain_def)

lemma distinct_upsert_domain: "distinct xs \<Longrightarrow> distinct (upsert_domain xs h)"
  by (simp add: upsert_domain_def)

lemma compile_rules_decisive:
  assumes "compile_rules rs (allowed, denied) = (allowed', denied')" and "distinct allowed" "distinct denied"
    and "\<And>h. h \<in> set allowed \<longleftrightarrow> d h = Some Allow" "\<And>h. h \<in> set denied \<longleftrightarrow> d h = Some Forbidden"
  shows "distinct allowed' \<and> distinct denied' \<and>
    (\<forall>h. (h \<in> set allowed' \<longleftrightarrow> decisive (d h) rs h = Some Allow) \<and>
         (h \<in> set denied' \<longleftrightarrow> decisive (d h) rs h = Some Forbidden))"
  using assms
proof (induction rs arbitrary: allowed denied d)
  case (Cons r rs)
  let ?d = "\<lambda>h. if net_host r = h \<and> net_decision r \<noteq> Prompt then Some (net_decision r) else d h"
  show ?case
  proof (cases "net_decision r")
    case Allow
    with Cons.prems have c: "compile_rules rs (upsert_domain allowed (net_host r),
        filter (\<lambda>entry. entry \<noteq> net_host r) denied) = (allowed', denied')" by simp
    have "distinct allowed' \<and> distinct denied' \<and>
      (\<forall>h. (h \<in> set allowed' \<longleftrightarrow> decisive (?d h) rs h = Some Allow) \<and>
           (h \<in> set denied' \<longleftrightarrow> decisive (?d h) rs h = Some Forbidden))"
      by (rule Cons.IH [OF c]) (use Cons.prems Allow in \<open>auto simp: distinct_upsert_domain\<close>)
    then show ?thesis by simp
  next
    case Forbidden
    with Cons.prems have c: "compile_rules rs (filter (\<lambda>entry. entry \<noteq> net_host r) allowed,
        upsert_domain denied (net_host r)) = (allowed', denied')" by simp
    have "distinct allowed' \<and> distinct denied' \<and>
      (\<forall>h. (h \<in> set allowed' \<longleftrightarrow> decisive (?d h) rs h = Some Allow) \<and>
           (h \<in> set denied' \<longleftrightarrow> decisive (?d h) rs h = Some Forbidden))"
      by (rule Cons.IH [OF c]) (use Cons.prems Forbidden in \<open>auto simp: distinct_upsert_domain\<close>)
    then show ?thesis by simp
  next
    case Prompt
    with Cons show ?thesis by simp
  qed
qed simp

subsection \<open>Hosts\<close>

lemma set_trim_subset: "set (trim s) \<subseteq> set s"
  by (auto simp: trim_def trim_end_def trim_start_def dest!: set_dropWhileD)

lemma set_trim_end_dots: "set (trim_end_dots s) \<subseteq> set s"
  by (auto simp: trim_end_dots_def dest: set_dropWhileD)

lemma strip_port_subset: "strip_port raw host = Inr h \<Longrightarrow> set h \<subseteq> set host"
  by (auto simp: strip_port_def Let_def strip_prefix_Some split_once_Some rsplit_once_Some
      split: option.splits if_splits prod.splits)

lemma to_ascii_lowercase_idem [simp]: "to_ascii_lowercase (to_ascii_lowercase s) = to_ascii_lowercase s"
  by (induction s) (auto simp: to_ascii_lowercase_def to_ascii_lower_char_def)

lemma lowercase_no_sep:
  "c \<in> {47, 63, 35} \<Longrightarrow> c \<in> set (to_ascii_lowercase s) \<Longrightarrow> c \<in> set s"
  by (auto simp: to_ascii_lowercase_def to_ascii_lower_char_def split: if_splits)

lemma normalize_host_Inr:
  assumes "normalize_network_rule_host raw = Inr h"
  shows "h \<noteq> [] \<and> to_ascii_lowercase h = h \<and> of_char CHR ''*'' \<notin> set h \<and> \<not> list_ex is_ws h \<and>
    of_char CHR ''/'' \<notin> set h \<and> of_char CHR ''?'' \<notin> set h \<and> of_char CHR ''#'' \<notin> set h"
proof -
  from assms obtain host where host: "strip_port raw (trim raw) = Inr host"
    and h: "h = to_ascii_lowercase (trim (trim_end_dots host))"
    and ok: "h \<noteq> []" "of_char CHR ''*'' \<notin> set h" "\<not> list_ex is_ws h"
      "of_char CHR ''/'' \<notin> set (trim raw)" "of_char CHR ''?'' \<notin> set (trim raw)" "of_char CHR ''#'' \<notin> set (trim raw)"
    by (auto simp: normalize_network_rule_host_def Let_def and_then_eq_Inr split: if_splits)
  have "set (trim (trim_end_dots host)) \<subseteq> set (trim raw)"
    using strip_port_subset [OF host] set_trim_subset set_trim_end_dots by blast
  moreover have "c \<in> set (trim (trim_end_dots host))" if "c \<in> {47, 63, 35}" "c \<in> set h" for c
    using lowercase_no_sep that by (simp add: h)
  ultimately show ?thesis using ok by (auto simp: h)
qed

lemma trim_no_ws: "\<not> list_ex is_ws s \<Longrightarrow> trim s = s"
  by (cases "s = []") (auto simp: list_ex_iff intro!: trim_id)

lemma trim_end_dots_id: "s \<noteq> [] \<Longrightarrow> last s \<noteq> of_char CHR ''.'' \<Longrightarrow> trim_end_dots s = s"
  by (cases s rule: rev_cases) (auto simp: trim_end_dots_def)

lemma normalize_host_plain:
  assumes "normalize_network_rule_host raw = Inr h"
    and "strip_prefix (lit ''['') h = None \<and> colon \<notin> set h \<and> last h \<noteq> of_char CHR ''.''"
  shows "normalize_network_rule_host h = Inr h"
proof -
  note h = normalize_host_Inr [OF assms(1)]
  have "\<not> contains (lit ''://'') h"
    using h by (auto simp: contains_iff sublist_def str_simps)
  with h assms(2) show ?thesis
    by (auto simp: normalize_network_rule_host_def trim_no_ws trim_end_dots_id strip_port_def count_list_0_iff)
qed

lemma sorted_distinct_remdups_adj: "sorted xs \<Longrightarrow> sorted_wrt (<) (remdups_adj (xs :: 'a :: linorder list))"
  by (induction xs rule: remdups_adj.induct) (auto simp: order_le_less dest: bspec)

subsection \<open>Properties\<close>

text \<open>C37. The decision for a command is the strictest one of the rules that apply to it, and the
  heuristic's when none applies; checking never panics.\<close>

theorem check_is_strictest:
  "\<exists>ms. check env p cmd fb = Some \<lparr>eval_decision = spec_decision p fb cmd, eval_matched_rules = ms\<rparr>"
  by (rule check_spec)

text \<open>Checking several commands gives the strictest decision of the single ones, so one
  forbidden command forbids the whole; it panics exactly for an empty list of commands.\<close>

theorem check_multiple_strictest:
  "map_option eval_decision (check_multiple env p cmds fb) =
     (if cmds = [] then None else Some (Max (set (map (spec_decision p fb) cmds))))"
  using check_multiple_spec [of cmds env p fb]
  by (auto simp: check_multiple_def check_multiple_with_options_def evaluation_from_matches_def)



text \<open>In the compiled domain lists the last rule of a host that is not \<open>Prompt\<close> wins: a host is
  allowed exactly when that rule allows it, denied exactly when it forbids it, and no list holds a
  host twice.\<close>

theorem compiled_domains_last_rule_wins:
  "case compiled_network_domains p of (allowed, denied) \<Rightarrow>
     distinct allowed \<and> distinct denied \<and>
     (\<forall>host. (host \<in> set allowed) = (decisive None (network_rules p) host = Some Allow) \<and>
             (host \<in> set denied) = (decisive None (network_rules p) host = Some Forbidden))"
proof -
  obtain allowed denied where c: "compile_rules (network_rules p) ([], []) = (allowed, denied)" by fastforce
  from compile_rules_decisive [OF c, of "\<lambda>_. None"] show ?thesis
    by (simp add: compiled_network_domains_def c)
qed

text \<open>An accepted network host is normalised: it is not empty, lower-case, without wildcards,
  white space or path characters; and a plain host name among them is accepted unchanged.\<close>

theorem normalize_host_normal:
  assumes "normalize_network_rule_host raw = Inr h"
  shows "h \<noteq> [] \<and> to_ascii_lowercase h = h \<and> of_char CHR ''*'' \<notin> set h \<and> \<not> list_ex is_ws h \<and>
    of_char CHR ''/'' \<notin> set h \<and> of_char CHR ''?'' \<notin> set h \<and> of_char CHR ''#'' \<notin> set h \<and>
    (strip_prefix (lit ''['') h = None \<and> colon \<notin> set h \<and> last h \<noteq> of_char CHR ''.'' \<longrightarrow>
      normalize_network_rule_host h = Inr h)"
  using normalize_host_Inr [OF assms] normalize_host_plain [OF assms] by blast

theorem normalize_host_normal_witness:
  "normalize_network_rule_host (lit ''  Example.COM.:443 '') = Inr (lit ''example.com'') \<and>
   normalize_network_rule_host (lit ''example.com'') = Inr (lit ''example.com'')"
proof -
  have n: "normalize_network_rule_host (lit ''  Example.COM.:443 '') = Inr (lit ''example.com'')" by code_simp
  with normalize_host_normal [OF n] show ?thesis by (simp add: str_simps colon_def)
qed

text \<open>The allowed prefixes are listed strictly increasing, so without duplicates, and are
  exactly the renderings of the rules that allow.\<close>

theorem get_allowed_prefixes_spec:
  "sorted_wrt (<) (get_allowed_prefixes p) \<and>
   set (get_allowed_prefixes p) =
     {pat_first (rule_pattern r) # map render_pattern_token (pat_rest (rule_pattern r)) | r.
       r \<in> (\<Union>(program, rules) \<in> set (rules_by_program p). set rules) \<and> rule_decision r = Allow}"
proof -
  have "sorted_wrt (<) (get_allowed_prefixes p)"
    by (simp add: get_allowed_prefixes_def sorted_distinct_remdups_adj)
  moreover have "set (get_allowed_prefixes p) =
     {pat_first (rule_pattern r) # map render_pattern_token (pat_rest (rule_pattern r)) | r.
       r \<in> (\<Union>(program, rules) \<in> set (rules_by_program p). set rules) \<and> rule_decision r = Allow}"
    by (fastforce simp: get_allowed_prefixes_def allowed_prefix_def split: if_splits)
  ultimately show ?thesis ..
qed

end
