(* ===== verification/PolicyBuilder.thy ===== *)
theory PolicyBuilder
  imports ExecPolicy
begin

text \<open>
  How policies come about: the functions a policy file calls (\<open>execpolicy/src/parser.rs\<close>) as
  steps on the builder's state, the validation of a file's examples (\<open>rule.rs\<close>), and the lines
  the program itself appends to a policy file (\<open>amend.rs\<close>).  The Starlark interpreter is not
  modelled: a policy file is the sequence of calls it makes.  \<open>shlex\<close>, the JSON printer and the
  debug rendering of rules are arguments.
\<close>

subsection \<open>Values of the interpreter\<close>

datatype starlark_value = StrValue str | ListValue "starlark_value list" | OtherValue str

fun get_type :: "starlark_value \<Rightarrow> str" where
  "get_type (StrValue s) = lit ''string''"
| "get_type (ListValue vs) = lit ''list''"
| "get_type (OtherValue t) = t"

fun unpack_str :: "starlark_value \<Rightarrow> str option" where
  "unpack_str (StrValue s) = Some s"
| "unpack_str v = None"

text \<open>\<open>collect::<Result<Vec<_>>>\<close>: the first error ends the collection.\<close>

fun collect_results :: "('a \<Rightarrow> 'e + 'b) \<Rightarrow> 'a list \<Rightarrow> 'e + 'b list" where
  "collect_results f [] = Inr []"
| "collect_results f (x # xs) = and_then (f x) (\<lambda>y. and_then (collect_results f xs) (\<lambda>ys. Inr (y # ys)))"

definition string_or :: "(str \<Rightarrow> policy_error) \<Rightarrow> starlark_value \<Rightarrow> policy_error + str" where
  "string_or err v = (case unpack_str v of Some s \<Rightarrow> Inr s | None \<Rightarrow> Inl (err (get_type v)))"

definition parse_pattern_token :: "starlark_value \<Rightarrow> policy_error + pattern_token" where
  "parse_pattern_token value =
     (case value of
        StrValue s \<Rightarrow> Inr (Single s)
      | ListValue vs \<Rightarrow>
          and_then
            (collect_results (string_or (\<lambda>t. InvalidPattern
               (lit ''pattern alternative must be a string (got '' @ t @ lit '')''))) vs)
            (\<lambda>tokens. case tokens of
                [] \<Rightarrow> Inl (InvalidPattern (lit ''pattern alternatives cannot be empty''))
              | [single] \<Rightarrow> Inr (Single single)
              | _ \<Rightarrow> Inr (Alts tokens))
      | OtherValue t \<Rightarrow> Inl (InvalidPattern
          (lit ''pattern element must be a string or list of strings (got '' @ t @ lit '')'')))"

definition parse_pattern :: "starlark_value list \<Rightarrow> policy_error + pattern_token list" where
  "parse_pattern items =
     and_then (collect_results parse_pattern_token items)
       (\<lambda>tokens. if tokens = [] then Inl (InvalidPattern (lit ''pattern cannot be empty'')) else Inr tokens)"

definition parse_string_example :: "(str \<Rightarrow> str list option) \<Rightarrow> str \<Rightarrow> policy_error + str list" where
  "parse_string_example shlex_split raw =
     (case shlex_split raw of
        None \<Rightarrow> Inl (InvalidExample (lit ''example string has invalid shell syntax''))
      | Some tokens \<Rightarrow>
          if tokens = [] then Inl (InvalidExample (lit ''example cannot be an empty string'')) else Inr tokens)"

definition parse_list_example :: "starlark_value list \<Rightarrow> policy_error + str list" where
  "parse_list_example vs =
     and_then (collect_results (string_or (\<lambda>t. InvalidExample
         (lit ''example tokens must be strings (got '' @ t @ lit '')''))) vs)
       (\<lambda>tokens. if tokens = [] then Inl (InvalidExample (lit ''example cannot be an empty list'')) else Inr tokens)"

definition parse_example :: "(str \<Rightarrow> str list option) \<Rightarrow> starlark_value \<Rightarrow> policy_error + str list" where
  "parse_example shlex_split value =
     (case value of
        StrValue raw \<Rightarrow> parse_string_example shlex_split raw
      | ListValue vs \<Rightarrow> parse_list_example vs
      | OtherValue t \<Rightarrow> Inl (InvalidExample
          (lit ''example must be a string or list of strings (got '' @ t @ lit '')'')))"

definition parse_examples ::
  "(str \<Rightarrow> str list option) \<Rightarrow> starlark_value list option \<Rightarrow> policy_error + str list list" where
  "parse_examples shlex_split examples =
     (case examples of None \<Rightarrow> Inr [] | Some vs \<Rightarrow> collect_results (parse_example shlex_split) vs)"

definition parse_literal_absolute_path :: "path_env \<Rightarrow> str \<Rightarrow> policy_error + str" where
  "parse_literal_absolute_path env raw =
     (if \<not> is_absolute raw
      then Inl (InvalidRule (lit ''host_executable paths must be absolute (got '' @ raw @ lit '')''))
      else (case from_absolute_path (env_home env) (env_cwd env) raw of
              Inr p \<Rightarrow> Inr p
            | Inl e \<Rightarrow> Inl (InvalidRule (lit ''invalid absolute path `'' @ raw @ lit ''`: '' @ e))))"

definition validate_host_executable_name :: "str \<Rightarrow> policy_error + unit" where
  "validate_host_executable_name name =
     (if name = [] then Inl (InvalidRule (lit ''host_executable name cannot be empty''))
      else if length (path_components name) \<noteq> 1 \<or> path_file_name name \<noteq> Some name
      then Inl (InvalidRule
        (lit ''host_executable name must be a bare executable name (got '' @ name @ lit '')''))
      else Inr ())"

definition parse_network_rule_decision :: "str \<Rightarrow> policy_error + decision" where
  "parse_network_rule_decision raw = (if raw = lit ''deny'' then Inr Forbidden else decision_parse raw)"

subsection \<open>The builder\<close>

record pending_example_validation =
  pv_rules :: "prefix_rule list"
  pv_matches :: "str list list"
  pv_not_matches :: "str list list"
  pv_location :: "error_location option"

record policy_builder =
  b_rules_by_program :: rule_map
  b_network_rules :: "network_rule list"
  b_host_executables :: "(str \<times> str list) list"
  b_pending :: "pending_example_validation list"

definition builder_new :: policy_builder where
  "builder_new = \<lparr>b_rules_by_program = [], b_network_rules = [], b_host_executables = [], b_pending = []\<rparr>"

definition add_rule :: "prefix_rule \<Rightarrow> policy_builder \<Rightarrow> policy_builder" where
  "add_rule r b = b\<lparr>b_rules_by_program := mm_insert (rule_program r) r (b_rules_by_program b)\<rparr>"

definition add_host_executable :: "str \<Rightarrow> str list \<Rightarrow> policy_builder \<Rightarrow> policy_builder" where
  "add_host_executable name paths b =
     b\<lparr>b_host_executables := AList.update name paths (b_host_executables b)\<rparr>"

definition build :: "policy_builder \<Rightarrow> policy" where
  "build b = \<lparr>rules_by_program = b_rules_by_program b, network_rules = b_network_rules b,
     host_executables_by_name = b_host_executables b\<rparr>"

definition checked_justification :: "str option \<Rightarrow> policy_error + str option" where
  "checked_justification justification =
     (if justification_ok justification then Inr justification
      else Inl (InvalidRule (lit ''justification cannot be empty'')))"

definition prefix_rules_of :: "pattern_token list \<Rightarrow> decision \<Rightarrow> str option \<Rightarrow> prefix_rule list" where
  "prefix_rules_of tokens d justification =
     map (\<lambda>head. \<lparr>rule_pattern = \<lparr>pat_first = head, pat_rest = tl tokens\<rparr>, rule_decision = d,
                 rule_justification = justification\<rparr>) (token_alternatives (hd tokens))"

text \<open>The arguments of one call of \<open>prefix_rule\<close>; the location is that of the call.\<close>

record prefix_rule_args =
  pra_pattern :: "starlark_value list"
  pra_decision :: "str option"
  pra_match :: "starlark_value list option"
  pra_not_match :: "starlark_value list option"
  pra_justification :: "str option"
  pra_location :: "error_location option"

definition call_prefix_rule ::
  "(str \<Rightarrow> str list option) \<Rightarrow> prefix_rule_args \<Rightarrow> policy_builder \<Rightarrow> policy_builder \<times> (policy_error + unit)" where
  "call_prefix_rule shlex_split a b =
     (case and_then (case pra_decision a of Some raw \<Rightarrow> decision_parse raw | None \<Rightarrow> Inr Allow) (\<lambda>d.
           and_then (checked_justification (pra_justification a)) (\<lambda>justification.
           and_then (parse_pattern (pra_pattern a)) (\<lambda>tokens.
           and_then (parse_examples shlex_split (pra_match a)) (\<lambda>matches.
           and_then (parse_examples shlex_split (pra_not_match a)) (\<lambda>not_matches.
             Inr (prefix_rules_of tokens d justification, matches, not_matches)))))) of
        Inl e \<Rightarrow> (b, Inl e)
      | Inr (rules, matches, not_matches) \<Rightarrow>
          (fold add_rule rules (b\<lparr>b_pending := b_pending b @
             [\<lparr>pv_rules = rules, pv_matches = matches, pv_not_matches = not_matches,
               pv_location = pra_location a\<rparr>]\<rparr>), Inr ()))"

definition call_network_rule ::
  "str \<Rightarrow> str \<Rightarrow> str \<Rightarrow> str option \<Rightarrow> policy_builder \<Rightarrow> policy_builder \<times> (policy_error + unit)" where
  "call_network_rule host protocol d justification b =
     (case and_then (protocol_parse protocol) (\<lambda>protocol.
           and_then (parse_network_rule_decision d) (\<lambda>d.
           and_then (checked_justification justification) (\<lambda>justification.
           and_then (normalize_network_rule_host host) (\<lambda>host.
             Inr \<lparr>net_host = host, net_protocol = protocol, net_decision = d,
                  net_justification = justification\<rparr>)))) of
        Inl e \<Rightarrow> (b, Inl e)
      | Inr r \<Rightarrow> (b\<lparr>b_network_rules := b_network_rules b @ [r]\<rparr>, Inr ()))"

definition msg_basename :: "str \<Rightarrow> str \<Rightarrow> str" where
  "msg_basename raw name =
     lit ''host_executable path `'' @ raw @ lit ''` must have basename `'' @ name @ lit ''`''"

fun parse_host_paths :: "path_env \<Rightarrow> str \<Rightarrow> starlark_value list \<Rightarrow> str list \<Rightarrow> policy_error + str list" where
  "parse_host_paths env name [] parsed = Inr parsed"
| "parse_host_paths env name (v # vs) parsed =
     and_then (string_or (\<lambda>t. InvalidRule
       (lit ''host_executable paths must be strings (got '' @ t @ lit '')'')) v) (\<lambda>raw.
     and_then (parse_literal_absolute_path env raw) (\<lambda>path.
       if executable_path_lookup_key path \<noteq> Some (executable_lookup_key name)
       then Inl (InvalidRule (msg_basename raw name))
       else parse_host_paths env name vs
              (if list_ex (\<lambda>existing. existing = path) parsed then parsed else parsed @ [path])))"

definition call_host_executable ::
  "path_env \<Rightarrow> str \<Rightarrow> starlark_value list \<Rightarrow> policy_builder \<Rightarrow> policy_builder \<times> (policy_error + unit)" where
  "call_host_executable env name paths b =
     (case and_then (validate_host_executable_name name) (\<lambda>_. parse_host_paths env name paths []) of
        Inl e \<Rightarrow> (b, Inl e)
      | Inr parsed \<Rightarrow> (add_host_executable (executable_lookup_key name) parsed b, Inr ()))"

subsection \<open>Examples\<close>

text \<open>What the error texts need of \<open>shlex\<close> and of the debug format.\<close>

record renderers =
  try_join :: "str list \<Rightarrow> str option"
  rule_debug :: "prefix_rule \<Rightarrow> str"
  match_debug :: "rule_match \<Rightarrow> str"

definition render_example :: "renderers \<Rightarrow> str list \<Rightarrow> str" where
  "render_example rd example =
     (case try_join rd example of Some s \<Rightarrow> s | None \<Rightarrow> lit ''unable to render example'')"

definition validate_match_examples ::
  "renderers \<Rightarrow> path_env \<Rightarrow> policy \<Rightarrow> prefix_rule list \<Rightarrow> str list list \<Rightarrow> policy_error + unit" where
  "validate_match_examples rd env p rules matches =
     (let unmatched = filter (\<lambda>example. matches_for_command_with_options env p example None True = []) matches in
      if unmatched = [] then Inr ()
      else Inl (ExampleDidNotMatch (map (rule_debug rd) rules) (map (render_example rd) unmatched) None))"

fun validate_not_match_examples ::
  "renderers \<Rightarrow> path_env \<Rightarrow> policy \<Rightarrow> str list list \<Rightarrow> policy_error + unit" where
  "validate_not_match_examples rd env p [] = Inr ()"
| "validate_not_match_examples rd env p (example # rest) =
     (case matches_for_command_with_options env p example None True of
        r # _ \<Rightarrow> Inl (ExampleDidMatch (match_debug rd r) (render_example rd example) None)
      | [] \<Rightarrow> validate_not_match_examples rd env p rest)"

definition attach_validation_location :: "error_location option \<Rightarrow> policy_error \<Rightarrow> policy_error" where
  "attach_validation_location l e = (case l of Some l \<Rightarrow> with_location l e | None \<Rightarrow> e)"

definition validation_policy :: "policy_builder \<Rightarrow> pending_example_validation \<Rightarrow> policy" where
  "validation_policy b v =
     \<lparr>rules_by_program = fold (\<lambda>r. mm_insert (rule_program r) r) (pv_rules v) [], network_rules = [],
      host_executables_by_name = b_host_executables b\<rparr>"

fun validate_pending :: "renderers \<Rightarrow> path_env \<Rightarrow> policy_builder \<Rightarrow> pending_example_validation list \<Rightarrow> policy_error + unit" where
  "validate_pending rd env b [] = Inr ()"
| "validate_pending rd env b (v # vs) =
     (case validate_not_match_examples rd env (validation_policy b v) (pv_not_matches v) of
        Inl e \<Rightarrow> Inl (attach_validation_location (pv_location v) e)
      | Inr _ \<Rightarrow>
          (case validate_match_examples rd env (validation_policy b v) (pv_rules v) (pv_matches v) of
             Inl e \<Rightarrow> Inl (attach_validation_location (pv_location v) e)
           | Inr _ \<Rightarrow> validate_pending rd env b vs))"

definition validate_pending_examples_from ::
  "renderers \<Rightarrow> path_env \<Rightarrow> policy_builder \<Rightarrow> nat \<Rightarrow> policy_error + unit" where
  "validate_pending_examples_from rd env b start = validate_pending rd env b (drop start (b_pending b))"

subsection \<open>A policy file\<close>

datatype builtin_call =
    PrefixRuleCall prefix_rule_args
  | NetworkRuleCall str str str "str option"
  | HostExecutableCall str "starlark_value list"

fun run_call ::
  "(str \<Rightarrow> str list option) \<Rightarrow> path_env \<Rightarrow> builtin_call \<Rightarrow> policy_builder \<Rightarrow> policy_builder \<times> (policy_error + unit)" where
  "run_call sh env (PrefixRuleCall a) b = call_prefix_rule sh a b"
| "run_call sh env (NetworkRuleCall host protocol d j) b = call_network_rule host protocol d j b"
| "run_call sh env (HostExecutableCall name paths) b = call_host_executable env name paths b"

fun run_calls ::
  "(str \<Rightarrow> str list option) \<Rightarrow> path_env \<Rightarrow> builtin_call list \<Rightarrow> policy_builder \<Rightarrow> policy_builder \<times> (policy_error + unit)" where
  "run_calls sh env [] b = (b, Inr ())"
| "run_calls sh env (c # cs) b =
     (case run_call sh env c b of
        (b', Inl e) \<Rightarrow> (b', Inl e)
      | (b', Inr _) \<Rightarrow> run_calls sh env cs b')"

definition parse_policy ::
  "(str \<Rightarrow> str list option) \<Rightarrow> renderers \<Rightarrow> path_env \<Rightarrow> builtin_call list \<Rightarrow> policy_builder \<Rightarrow> policy_builder \<times> (policy_error + unit)" where
  "parse_policy sh rd env calls b =
     (let pending_validation_count = length (b_pending b) in
      case run_calls sh env calls b of
        (b', Inl e) \<Rightarrow> (b', Inl e)
      | (b', Inr _) \<Rightarrow> (b', validate_pending_examples_from rd env b' pending_validation_count))"

subsection \<open>Appending to a policy file\<close>

definition append_locked_line :: "str \<Rightarrow> str \<Rightarrow> str" where
  "append_locked_line contents line =
     (if list_ex (\<lambda>existing. existing = line) (str_lines contents) then contents
      else contents
           @ (if contents \<noteq> [] \<and> \<not> ends_with [nl] contents then [nl] else [])
           @ line @ [nl])"

datatype amend_error = EmptyPrefix | InvalidNetworkRule str

definition blocking_append_allow_prefix_rule ::
  "(str \<Rightarrow> str) \<Rightarrow> str list \<Rightarrow> str \<Rightarrow> str \<times> (amend_error + unit)" where
  "blocking_append_allow_prefix_rule to_json tokens contents =
     (if tokens = [] then (contents, Inl EmptyPrefix)
      else
        (let pattern = lit ''['' @ join (lit '', '') (map to_json tokens) @ lit '']'';
             rule = lit ''prefix_rule(pattern='' @ pattern @ lit '', decision=\"allow\")''
         in (append_locked_line contents rule, Inr ())))"

fun amend_decision_text :: "decision \<Rightarrow> str" where
  "amend_decision_text Allow = lit ''allow''"
| "amend_decision_text Prompt = lit ''prompt''"
| "amend_decision_text Forbidden = lit ''deny''"

text \<open>\<open>dbg\<close> is the debug format of a vector of strings.\<close>

fun policy_error_text :: "(str list \<Rightarrow> str) \<Rightarrow> policy_error \<Rightarrow> str" where
  "policy_error_text dbg (InvalidDecision m) = lit ''invalid decision: '' @ m"
| "policy_error_text dbg (InvalidPattern m) = lit ''invalid pattern element: '' @ m"
| "policy_error_text dbg (InvalidExample m) = lit ''invalid example: '' @ m"
| "policy_error_text dbg (InvalidRule m) = lit ''invalid rule: '' @ m"
| "policy_error_text dbg (ExampleDidNotMatch rules examples l) =
     lit ''expected every example to match at least one rule. rules: '' @ dbg rules
     @ lit ''; unmatched examples: '' @ dbg examples"
| "policy_error_text dbg (ExampleDidMatch rule example l) =
     lit ''expected example to not match rule `'' @ rule @ lit ''`: '' @ example"

definition blocking_append_network_rule ::
  "(str \<Rightarrow> str) \<Rightarrow> (str list \<Rightarrow> str) \<Rightarrow> str \<Rightarrow> network_rule_protocol \<Rightarrow> decision \<Rightarrow> str option \<Rightarrow> str \<Rightarrow> str \<times> (amend_error + unit)" where
  "blocking_append_network_rule to_json dbg host protocol d justification contents =
     (case normalize_network_rule_host host of
        Inl e \<Rightarrow> (contents, Inl (InvalidNetworkRule (policy_error_text dbg e)))
      | Inr host \<Rightarrow>
          if \<not> justification_ok justification
          then (contents, Inl (InvalidNetworkRule (lit ''justification cannot be empty'')))
          else
            (let args = [lit ''host='' @ to_json host, lit ''protocol='' @ to_json (as_policy_string protocol),
                         lit ''decision='' @ to_json (amend_decision_text d)]
                        @ (case justification of None \<Rightarrow> [] | Some j \<Rightarrow> [lit ''justification='' @ to_json j])
             in (append_locked_line contents (lit ''network_rule('' @ join (lit '', '') args @ lit '')''), Inr ())))"

subsection \<open>The builder's invariant\<close>

definition host_paths_ok :: "(str \<times> str list) list \<Rightarrow> bool" where
  "host_paths_ok hs \<longleftrightarrow> (\<forall>(name, paths) \<in> set hs. distinct paths \<and>
     (\<forall>path \<in> set paths. normal_path path \<and> executable_path_lookup_key path = Some name))"

definition rules_recorded :: "policy_builder \<Rightarrow> bool" where
  "rules_recorded b \<longleftrightarrow> (\<forall>v \<in> set (b_pending b). \<forall>r \<in> set (pv_rules v).
     r \<in> set (rules_for (b_rules_by_program b) (rule_program r)))"

definition builder_inv :: "policy_builder \<Rightarrow> bool" where
  "builder_inv b \<longleftrightarrow> policy_wf (build b) \<and> host_paths_ok (b_host_executables b) \<and> rules_recorded b"

lemma add_rule_fields [simp]:
  "b_network_rules (add_rule r b) = b_network_rules b" "b_host_executables (add_rule r b) = b_host_executables b"
  "b_pending (add_rule r b) = b_pending b"
  "b_rules_by_program (add_rule r b) = mm_insert (rule_program r) r (b_rules_by_program b)"
  by (simp_all add: add_rule_def)

lemma fold_add_rule_fields [simp]:
  "b_host_executables (fold add_rule rs b) = b_host_executables b" "b_pending (fold add_rule rs b) = b_pending b"
  by (induction rs arbitrary: b) simp_all

lemma rules_for_fold_add_rule:
  "set (rules_for (b_rules_by_program (fold add_rule rs b)) k) =
     set (rules_for (b_rules_by_program b) k) \<union> {r \<in> set rs. rule_program r = k}"
  by (induction rs arbitrary: b) auto

lemma policy_wf_fold_add_rule: "policy_wf (build b) \<Longrightarrow> policy_wf (build (fold add_rule rs b))"
proof (induction rs arbitrary: b)
  case (Cons r rs)
  have "policy_wf (build (add_rule r b))"
    using Cons.prems by (auto simp: policy_wf_programs build_def distinct_mm_insert)
  with Cons.IH show ?case by simp
qed simp

lemma call_prefix_rule_inv:
  assumes "builder_inv b"
  shows "builder_inv (fst (call_prefix_rule sh a b))"
proof -
  have *: "builder_inv (fold add_rule rs (b\<lparr>b_pending := b_pending b @ [v]\<rparr>))" if "pv_rules v = rs" for rs v
  proof -
    have "policy_wf (build (b\<lparr>b_pending := b_pending b @ [v]\<rparr>))"
      using assms by (simp add: builder_inv_def build_def)
    then show ?thesis
      using assms that policy_wf_fold_add_rule
      by (auto simp: builder_inv_def rules_recorded_def rules_for_fold_add_rule)
  qed
  have "builder_inv (fold add_rule rs (b\<lparr>b_pending := b_pending b @
      [\<lparr>pv_rules = rs, pv_matches = ms, pv_not_matches = ns, pv_location = l\<rparr>]\<rparr>))" for rs ms ns l
    by (rule *) simp
  with assms show ?thesis
    unfolding call_prefix_rule_def by (auto split: sum.splits prod.splits)
qed

lemma parse_host_paths_ok:
  assumes "parse_host_paths env name vs parsed = Inr paths"
    and "distinct parsed" "\<forall>path \<in> set parsed. normal_path path \<and> executable_path_lookup_key path = Some name"
  shows "distinct paths \<and> (\<forall>path \<in> set paths. normal_path path \<and> executable_path_lookup_key path = Some name)"
  using assms
proof (induction env name vs parsed rule: parse_host_paths.induct)
  case (2 env name v vs parsed)
  from "2.prems"(1) obtain raw path where r: "string_or (\<lambda>t. InvalidRule
       (lit ''host_executable paths must be strings (got '' @ t @ lit '')'')) v = Inr raw"
    "parse_literal_absolute_path env raw = Inr path"
    and k: "executable_path_lookup_key path = Some (executable_lookup_key name)"
    and rest: "parse_host_paths env name vs (if list_ex (\<lambda>existing. existing = path) parsed then parsed else parsed @ [path])
      = Inr paths"
    by (auto simp: and_then_eq_Inr split: if_splits)
  have "normal_path path"
    using r(2) by (auto simp: parse_literal_absolute_path_def from_absolute_path_def absolutize_def expand_home_absolute
        normalize_path_absolute split: if_splits sum.splits)
  with k "2.prems"(2,3) have ok:
    "distinct (if list_ex (\<lambda>existing. existing = path) parsed then parsed else parsed @ [path])"
    "\<forall>p \<in> set (if list_ex (\<lambda>existing. existing = path) parsed then parsed else parsed @ [path]).
      normal_path p \<and> executable_path_lookup_key p = Some name"
    by (auto simp: executable_lookup_key_def list_ex_iff)
  show ?case by (rule "2.IH" [OF _ rest ok]) (simp add: k)
qed simp

lemma set_alist_update: "x \<in> set (AList.update k v al) \<Longrightarrow> x = (k, v) \<or> x \<in> set al"
  by (induction al) (auto split: if_splits)

lemma call_host_executable_inv:
  assumes "builder_inv b"
  shows "builder_inv (fst (call_host_executable env name paths b))"
proof (cases "and_then (validate_host_executable_name name) (\<lambda>_. parse_host_paths env name paths [])")
  case (Inr parsed)
  then have "parse_host_paths env name paths [] = Inr parsed" by (auto simp: and_then_eq_Inr)
  from parse_host_paths_ok [OF this] have ok: "distinct parsed \<and>
      (\<forall>path \<in> set parsed. normal_path path \<and> executable_path_lookup_key path = Some name)" by simp
  have "policy_wf (build (add_host_executable name parsed b))"
    using assms by (simp add: builder_inv_def policy_wf_def build_def add_host_executable_def distinct_update)
  moreover have "host_paths_ok (AList.update name parsed (b_host_executables b))"
    using assms ok by (fastforce simp: builder_inv_def host_paths_ok_def dest!: set_alist_update)
  ultimately show ?thesis
    using assms by (simp add: call_host_executable_def Inr builder_inv_def executable_lookup_key_def
        add_host_executable_def rules_recorded_def)
qed (use assms in \<open>simp add: call_host_executable_def\<close>)

lemma call_network_rule_inv: "builder_inv b \<Longrightarrow> builder_inv (fst (call_network_rule h pr d j b))"
  by (simp add: call_network_rule_def builder_inv_def policy_wf_def build_def rules_recorded_def split: sum.split)

lemma run_calls_inv: "builder_inv b \<Longrightarrow> builder_inv (fst (run_calls sh env cs b))"
proof (induction cs arbitrary: b)
  case (Cons c cs)
  have "builder_inv (fst (run_call sh env c b))"
    using Cons.prems by (cases c) (simp_all add: call_prefix_rule_inv call_network_rule_inv call_host_executable_inv)
  with Cons.IH Cons.prems show ?case by (auto split: prod.splits sum.splits)
qed simp

lemma builder_inv_new: "builder_inv builder_new"
  by (simp add: builder_inv_def builder_new_def build_def policy_wf_def host_paths_ok_def rules_recorded_def)

subsection \<open>Examples are honoured by the policy\<close>

lemma rules_for_fold_mm_insert:
  "set (rules_for (fold (\<lambda>r. mm_insert (rule_program r) r) rs m) k) =
     set (rules_for m k) \<union> {r \<in> set rs. rule_program r = k}"
  by (induction rs arbitrary: m) auto

lemma map_filter_rule_matches_Nil:
  "List.map_filter (rule_matches cmd) rs = [] \<longleftrightarrow> \<not> (\<exists>r \<in> set rs. applies cmd r)"
  using decisions_map_filter [of cmd rs] by (auto simp: filter_empty_conv simp flip: map_is_Nil_conv [of match_decision])

definition host_allowed :: "policy \<Rightarrow> str \<Rightarrow> str \<Rightarrow> bool" where
  "host_allowed p basename program =
     (case map_of (host_executables_by_name p) basename of Some paths \<Rightarrow> program \<in> set paths | None \<Rightarrow> True)"

lemma match_host_executable_rules_not_Nil:
  "match_host_executable_rules env p cmd \<noteq> [] \<longleftrightarrow>
     (\<exists>first args program basename. cmd = first # args \<and>
        from_absolute_path (env_home env) (env_cwd env) first = Inr program \<and>
        executable_path_lookup_key program = Some basename \<and> host_allowed p basename program \<and>
        (\<exists>r \<in> set (rules_for (rules_by_program p) basename). applies (basename # args) r))"
proof (cases cmd)
  case (Cons first args)
  show ?thesis
  proof (cases "from_absolute_path (env_home env) (env_cwd env) first")
    case (Inr program)
    then show ?thesis
      by (cases "executable_path_lookup_key program")
        (auto simp: match_host_executable_rules_def Cons rules_for_def host_allowed_def list_ex_iff
          map_filter_rule_matches_Nil split: option.splits if_splits)
  qed (simp add: match_host_executable_rules_def Cons)
qed (simp add: match_host_executable_rules_def)

lemma matches_not_Nil:
  "matches_for_command_with_options env p cmd None True \<noteq> [] \<longleftrightarrow>
     governs p cmd \<or> match_host_executable_rules env p cmd \<noteq> []"
proof (cases "cmd = []")
  case True
  then show ?thesis
    by (simp add: matches_for_command_with_options_def match_exact_rules_def match_host_executable_rules_def governs_def)
next
  case False
  then show ?thesis
    using exact_matches [OF False, of p] map_filter_rule_matches_Nil [of cmd "rules_for (rules_by_program p) (hd cmd)"]
    by (auto simp: matches_for_command_with_options_def governs_def list_ex_iff split: list.splits)
qed

lemma matches_mono:
  assumes "\<And>k. set (rules_for (rules_by_program p) k) \<subseteq> set (rules_for (rules_by_program q) k)"
    and "host_executables_by_name p = host_executables_by_name q"
    and "matches_for_command_with_options env p cmd None True \<noteq> []"
  shows "matches_for_command_with_options env q cmd None True \<noteq> []"
  using assms(3) unfolding matches_not_Nil
proof
  assume "governs p cmd"
  then have "governs q cmd" using assms(1) [of "hd cmd"] by (auto simp: governs_def list_ex_iff)
  then show "governs q cmd \<or> match_host_executable_rules env q cmd \<noteq> []" ..
next
  assume "match_host_executable_rules env p cmd \<noteq> []"
  then have "match_host_executable_rules env q cmd \<noteq> []"
    unfolding match_host_executable_rules_not_Nil using assms(1) by (fastforce simp: host_allowed_def assms(2))
  then show "governs q cmd \<or> match_host_executable_rules env q cmd \<noteq> []" ..
qed

lemma validation_policy_sub:
  assumes "builder_inv b" and "v \<in> set (b_pending b)"
  shows "set (rules_for (rules_by_program (validation_policy b v)) k) \<subseteq> set (rules_for (rules_by_program (build b)) k)"
proof -
  have "set (rules_for (rules_by_program (validation_policy b v)) k) = {r \<in> set (pv_rules v). rule_program r = k}"
    by (simp add: validation_policy_def rules_for_fold_mm_insert) (simp add: rules_for_def)
  with assms show ?thesis by (auto simp: builder_inv_def rules_recorded_def build_def)
qed

lemma validate_not_match_ok:
  "validate_not_match_examples rd env p es = Inr () \<longleftrightarrow>
     (\<forall>e \<in> set es. matches_for_command_with_options env p e None True = [])"
  by (induction es) (auto split: list.splits)

lemma validate_match_ok:
  "validate_match_examples rd env p rules es = Inr () \<longleftrightarrow>
     (\<forall>e \<in> set es. matches_for_command_with_options env p e None True \<noteq> [])"
  by (auto simp: validate_match_examples_def Let_def filter_empty_conv)

lemma validate_pending_ok:
  "validate_pending rd env b vs = Inr () \<longleftrightarrow> (\<forall>v \<in> set vs.
     (\<forall>e \<in> set (pv_matches v). matches_for_command_with_options env (validation_policy b v) e None True \<noteq> []) \<and>
     (\<forall>e \<in> set (pv_not_matches v). matches_for_command_with_options env (validation_policy b v) e None True = []))"
proof (induction vs)
  case (Cons v vs)
  show ?case
    using Cons validate_not_match_ok [of rd env "validation_policy b v" "pv_not_matches v"]
      validate_match_ok [of rd env "validation_policy b v" "pv_rules v" "pv_matches v"]
    by (auto split: sum.splits)
qed simp

subsection \<open>Lines of a policy file\<close>

lemma lines_of_pieces_append:
  assumes "qs \<noteq> []"
  shows "lines_of_pieces (ps @ qs) = map strip_cr ps @ lines_of_pieces qs"
  using assms by (induction ps) (auto simp: lines_of_pieces_Cons)

lemma str_lines_append_nl: "str_lines (a @ nl # b) = map strip_cr (split_on nl a) @ str_lines b"
  by (simp add: str_lines_def split_on_append lines_of_pieces_append)

lemma str_lines_single: "nl \<notin> set l \<Longrightarrow> l = [] \<or> last l \<noteq> cr \<Longrightarrow> str_lines (l @ [nl]) = [l]"
  by (simp add: str_lines_append_nl split_on_no_sep strip_cr_no_cr) (simp add: str_lines_def)

text \<open>Ending a text that has no final line terminator with one does not change its lines, unless it
  ends in a bare carriage return.\<close>

lemma last_split_on: "s \<noteq> [] \<Longrightarrow> last s \<noteq> c \<Longrightarrow> last (split_on c s) \<noteq> [] \<and> last (last (split_on c s)) = last s"
proof (induction s)
  case (Cons x s)
  then show ?case by (cases "s = []") (auto split: list.splits)
qed simp

lemma map_strip_cr_split:
  assumes "c \<noteq> []" "last c \<noteq> nl" "last c \<noteq> cr"
  shows "map strip_cr (split_on nl c) = str_lines c"
proof -
  obtain ps q where pq: "split_on nl c = ps @ [q]" by (metis rev_exhaust split_on_not_Nil)
  with last_split_on [OF assms(1,2)] have q: "q \<noteq> []" "last q = last c" by auto
  then show ?thesis using assms(3)
    by (simp add: str_lines_def pq lines_of_pieces_append strip_cr_no_cr)
qed

lemma append_locked_line_lines:
  assumes "nl \<notin> set line" and "line = [] \<or> last line \<noteq> cr" and "contents = [] \<or> last contents \<noteq> cr"
  shows "str_lines (append_locked_line contents line) =
    (if line \<in> set (str_lines contents) then str_lines contents else str_lines contents @ [line])"
proof -
  note l = str_lines_single [OF assms(1,2)]
  consider "contents = []" | c where "contents = c @ [nl]" | "contents \<noteq> []" "last contents \<noteq> nl"
    by (cases contents rule: rev_cases) auto
  then show ?thesis
  proof cases
    case 1
    then show ?thesis using l by (auto simp: append_locked_line_def str_lines_def)
  next
    case (2 c)
    then have "str_lines (contents @ line @ [nl]) = str_lines contents @ [line]"
      using l str_lines_append_nl [of c "line @ [nl]"] str_lines_append_nl [of c "[]"] by (simp add: str_lines_def)
    with 2 show ?thesis by (auto simp: append_locked_line_def list_ex_iff ends_with_iff)
  next
    case 3
    then have "str_lines (contents @ nl # line @ [nl]) = str_lines contents @ [line]"
      using assms(3) by (simp add: str_lines_append_nl [of contents] map_strip_cr_split l)
    with 3 show ?thesis by (auto simp: append_locked_line_def list_ex_iff ends_with_iff)
  qed
qed

subsection \<open>Properties\<close>



text \<open>Appending a rule line is idempotent and keeps the file: the lines of the file afterwards are
  those before it, followed by the new line unless it was there already, and appending it again
  changes nothing.\<close>

theorem append_locked_line_idempotent:
  assumes "nl \<notin> set line" and "line = [] \<or> last line \<noteq> cr" and "contents = [] \<or> last contents \<noteq> cr"
  shows "str_lines (append_locked_line contents line) =
      (if line \<in> set (str_lines contents) then str_lines contents else str_lines contents @ [line]) \<and>
    append_locked_line (append_locked_line contents line) line = append_locked_line contents line"
proof -
  have "line \<in> set (str_lines (append_locked_line contents line))"
    using append_locked_line_lines [OF assms] by auto
  then have "append_locked_line (append_locked_line contents line) line = append_locked_line contents line"
    by (subst append_locked_line_def) (simp add: list_ex_iff)
  with append_locked_line_lines [OF assms] show ?thesis by blast
qed

theorem append_locked_line_idempotent_witness:
  "str_lines (append_locked_line (lit ''x'') (lit ''y'')) =
      (if lit ''y'' \<in> set (str_lines (lit ''x'')) then str_lines (lit ''x'') else str_lines (lit ''x'') @ [lit ''y'']) \<and>
    append_locked_line (append_locked_line (lit ''x'') (lit ''y'')) (lit ''y'') = append_locked_line (lit ''x'') (lit ''y'')"
  by (rule append_locked_line_idempotent) (simp_all add: str_simps nl_def cr_def)



end
