(* ===== verification/ShellScript.thy ===== *)
theory ShellScript
  imports AbsolutePath "HOL-Library.Multiset"
begin

text \<open>
  Shell invocations, \<open>shell-command/src/bash.rs\<close> and \<open>shell_detect.rs\<close>.  A syntax tree of
  \<open>tree-sitter-bash\<close> is a \<open>ts_node\<close>: the kind of the node, whether it is named, its source text, its
  start position and its children, anonymous ones included; the parser is an argument.  The walk of
  the source over an explicit stack is compared with the set of all nodes of the tree.
\<close>

subsection \<open>Shells\<close>

datatype shell_type = Zsh | Bash | PowerShell | Sh | Cmd

fun shell_type_name :: "shell_type \<Rightarrow> str" where
  "shell_type_name Zsh = lit ''zsh''"
| "shell_type_name Bash = lit ''bash''"
| "shell_type_name PowerShell = lit ''powershell''"
| "shell_type_name Sh = lit ''sh''"
| "shell_type_name Cmd = lit ''cmd''"

definition known_shell :: "str \<Rightarrow> shell_type option" where
  "known_shell s =
     (if s = lit ''zsh'' then Some Zsh
      else if s = lit ''sh'' then Some Sh
      else if s = lit ''cmd'' then Some Cmd
      else if s = lit ''bash'' then Some Bash
      else if s = lit ''pwsh'' then Some PowerShell
      else if s = lit ''powershell'' then Some PowerShell
      else None)"

lemma length_split_on_piece: "p \<in> set (split_on c s) \<Longrightarrow> length p \<le> length s"
proof (induction s arbitrary: p)
  case (Cons x s)
  obtain y ys where y: "split_on c s = y # ys" by (cases "split_on c s") simp_all
  have "length y \<le> length s" using Cons.IH [of y] y by simp
  with Cons y show ?case by (auto split: if_splits intro: le_SucI)
qed simp

lemma split_on_full_piece:
  assumes "p \<in> set (split_on c s)" "length p = length s"
  shows "p = s"
  using assms
proof (induction s arbitrary: p)
  case (Cons x s)
  obtain y ys where y: "split_on c s = y # ys" by (cases "split_on c s") simp_all
  have le: "q \<in> set (split_on c s) \<Longrightarrow> length q \<le> length s" for q by (rule length_split_on_piece)
  show ?case
  proof (cases "x = c")
    case True
    with Cons.prems le show ?thesis by fastforce
  next
    case False
    with Cons.prems y have "p = x # y \<or> p \<in> set ys" by auto
    then show ?thesis
    proof
      assume "p = x # y"
      with Cons y show ?thesis by simp
    next
      assume "p \<in> set ys"
      with le [of p] y Cons.prems(2) show ?thesis by simp
    qed
  qed
qed simp

lemma path_file_name_piece:
  assumes "path_file_name p = Some n"
  shows "n \<in> set (split_on slash p)"
proof -
  from assms have "last_opt (path_components p) = Some (Normal n)"
    by (auto simp: path_file_name_def split: option.splits component.splits)
  then have "Normal n \<in> set (path_components p)" by (auto simp: last_opt_Some)
  then show ?thesis
    by (auto simp: path_components_def body_component_def Let_def split: if_splits)
qed

lemma path_file_stem_shorter:
  assumes "path_file_stem p = Some n" "\<not> path_eq n p"
  shows "length n < length p"
proof -
  from assms(1) obtain f where f: "path_file_name p = Some f"
    and n: "n = f \<or> (\<exists>after. rsplit_once (of_char CHR ''.'') f = Some (n, after))"
    by (auto simp: path_file_stem_def split: option.splits if_splits)
  note piece = path_file_name_piece [OF f]
  from n show ?thesis
  proof
    assume "n = f"
    with length_split_on_piece [OF piece] split_on_full_piece [OF piece] assms(2) show ?thesis
      by (cases "length n = length p") (auto simp: path_eq_def)
  next
    assume "\<exists>after. rsplit_once (of_char CHR ''.'') f = Some (n, after)"
    then have "length n < length f" by (auto simp: rsplit_once_Some)
    with length_split_on_piece [OF piece] show ?thesis by simp
  qed
qed

function detect_shell_type :: "str \<Rightarrow> shell_type option" where
  "detect_shell_type shell_path =
     (case known_shell shell_path of
        Some t \<Rightarrow> Some t
      | None \<Rightarrow>
          (case path_file_stem shell_path of
             Some shell_name \<Rightarrow>
               if \<not> path_eq shell_name shell_path then detect_shell_type shell_name else None
           | None \<Rightarrow> None))"
  by auto
termination
  by (relation "measure length") (auto dest: path_file_stem_shorter)

declare detect_shell_type.simps [simp del]

text \<open>What the search for a shell asks of the host: the shell of the user, whether a path is a file,
  and the search path.\<close>

record shell_host =
  user_shell_path :: "str option"
  is_regular_file :: "str \<Rightarrow> bool"
  which_path :: "str \<Rightarrow> str option"

record detected_shell =
  det_type :: shell_type
  det_path :: str

definition shell_file_exists :: "shell_host \<Rightarrow> str \<Rightarrow> str option" where
  "shell_file_exists h path = (if is_regular_file h path then Some path else None)"

definition get_shell_path :: "shell_host \<Rightarrow> shell_type \<Rightarrow> str option \<Rightarrow> str \<Rightarrow> str list \<Rightarrow> str option" where
  "get_shell_path h t provided_path binary_name fallback_paths =
     (case Option.bind provided_path (shell_file_exists h) of
        Some path \<Rightarrow> Some path
      | None \<Rightarrow>
          (let search =
             (case which_path h binary_name of
                Some path \<Rightarrow> Some path
              | None \<Rightarrow> find (is_regular_file h) fallback_paths)
           in case user_shell_path h of
                Some default_shell_path \<Rightarrow>
                  if detect_shell_type default_shell_path = Some t \<and> shell_file_exists h default_shell_path \<noteq> None
                  then Some default_shell_path else search
              | None \<Rightarrow> search))"

definition get_zsh_shell :: "shell_host \<Rightarrow> str option \<Rightarrow> detected_shell option" where
  "get_zsh_shell h path =
     map_option (\<lambda>p. \<lparr>det_type = Zsh, det_path = p\<rparr>) (get_shell_path h Zsh path (lit ''zsh'') [lit ''/bin/zsh''])"

definition get_bash_shell :: "shell_host \<Rightarrow> str option \<Rightarrow> detected_shell option" where
  "get_bash_shell h path =
     map_option (\<lambda>p. \<lparr>det_type = Bash, det_path = p\<rparr>)
       (get_shell_path h Bash path (lit ''bash'') [lit ''/bin/bash'', lit ''/usr/bin/bash''])"

definition get_sh_shell :: "shell_host \<Rightarrow> str option \<Rightarrow> detected_shell option" where
  "get_sh_shell h path =
     map_option (\<lambda>p. \<lparr>det_type = Sh, det_path = p\<rparr>) (get_shell_path h Sh path (lit ''sh'') [lit ''/bin/sh''])"

definition get_powershell_shell :: "shell_host \<Rightarrow> str option \<Rightarrow> detected_shell option" where
  "get_powershell_shell h path =
     map_option (\<lambda>p. \<lparr>det_type = PowerShell, det_path = p\<rparr>)
       (case get_shell_path h PowerShell path (lit ''pwsh'') [lit ''/usr/local/bin/pwsh''] of
          Some p \<Rightarrow> Some p
        | None \<Rightarrow> get_shell_path h PowerShell path (lit ''powershell'') [])"

definition get_cmd_shell :: "shell_host \<Rightarrow> str option \<Rightarrow> detected_shell option" where
  "get_cmd_shell h path =
     map_option (\<lambda>p. \<lparr>det_type = Cmd, det_path = p\<rparr>) (get_shell_path h Cmd path (lit ''cmd'') [])"

definition get_shell :: "shell_host \<Rightarrow> shell_type \<Rightarrow> str option \<Rightarrow> detected_shell option" where
  "get_shell h t path =
     (case t of
        Zsh \<Rightarrow> get_zsh_shell h path
      | Bash \<Rightarrow> get_bash_shell h path
      | PowerShell \<Rightarrow> get_powershell_shell h path
      | Sh \<Rightarrow> get_sh_shell h path
      | Cmd \<Rightarrow> get_cmd_shell h path)"

definition ultimate_fallback_shell :: detected_shell where
  "ultimate_fallback_shell = \<lparr>det_type = Sh, det_path = lit ''/bin/sh''\<rparr>"

definition get_shell_by_model_provided_path :: "shell_host \<Rightarrow> str \<Rightarrow> detected_shell" where
  "get_shell_by_model_provided_path h shell_path =
     (case Option.bind (detect_shell_type shell_path) (\<lambda>t. get_shell h t (Some shell_path)) of
        Some sh \<Rightarrow> sh | None \<Rightarrow> ultimate_fallback_shell)"

text \<open>The Linux order of the fallbacks.\<close>

definition default_user_shell_from_path :: "shell_host \<Rightarrow> str option \<Rightarrow> detected_shell" where
  "default_user_shell_from_path h user_shell =
     (case Option.bind (Option.bind user_shell detect_shell_type) (\<lambda>t. get_shell h t None) of
        Some sh \<Rightarrow> sh
      | None \<Rightarrow>
          (case get_shell h Bash None of
             Some sh \<Rightarrow> sh
           | None \<Rightarrow> (case get_shell h Zsh None of Some sh \<Rightarrow> sh | None \<Rightarrow> ultimate_fallback_shell)))"

definition default_user_shell :: "shell_host \<Rightarrow> detected_shell" where
  "default_user_shell h = default_user_shell_from_path h (user_shell_path h)"

subsection \<open>Syntax trees\<close>

datatype ts_node =
  TsNode (ts_kind: str) (ts_named: bool) (ts_text: "str option") (ts_start: nat) (ts_children: "ts_node list")

record ts_tree =
  root_node :: ts_node
  has_error :: bool

type_synonym script_parser = "str \<Rightarrow> ts_tree option"

definition named_children :: "ts_node \<Rightarrow> ts_node list" where
  "named_children n = filter ts_named (ts_children n)"

definition ALLOWED_KINDS :: "str list" where
  "ALLOWED_KINDS = map lit [''program'', ''list'', ''pipeline'', ''command'', ''command_name'', ''word'', ''string'',
     ''string_content'', ''raw_string'', ''number'', ''concatenation'']"

definition ALLOWED_PUNCT_TOKENS :: "str list" where
  "ALLOWED_PUNCT_TOKENS = [lit ''&&'', lit ''||'', lit '';'', lit ''|'', [34], [39]]"

definition is_command :: "ts_node \<Rightarrow> bool" where
  "is_command n \<longleftrightarrow> ts_kind n = lit ''command''"

definition node_allowed :: "ts_node \<Rightarrow> bool" where
  "node_allowed n =
     (if ts_named n then ts_kind n \<in> set ALLOWED_KINDS
      else \<not> (list_ex (\<lambda>c. c \<in> set (lit ''&;|'')) (ts_kind n) \<and> ts_kind n \<notin> set ALLOWED_PUNCT_TOKENS) \<and>
           (ts_kind n \<in> set ALLOWED_PUNCT_TOKENS \<or> trim (ts_kind n) = []))"

definition stack_size :: "ts_node list \<Rightarrow> nat" where
  "stack_size stack = sum_list (map size stack)"

lemma stack_size_simps [simp]:
  "stack_size [] = 0" "stack_size (n # ns) = size n + stack_size ns"
  "stack_size (xs @ ys) = stack_size xs + stack_size ys" "stack_size (rev xs) = stack_size xs"
  by (simp_all add: stack_size_def rev_map [symmetric] sum_list_rev)

lemma stack_size_children: "stack_size (ts_children n) < size n"
proof -
  have "stack_size xs \<le> size_list size xs" for xs by (induction xs) simp_all
  then show ?thesis by (cases n) (simp add: le_imp_less_Suc)
qed

lemma stack_size_filter: "stack_size (filter P xs) \<le> stack_size xs"
  by (induction xs) auto

lemma stack_size_named_children: "stack_size (named_children n) < size n"
  using stack_size_children [of n] stack_size_filter [of ts_named "ts_children n"] by (simp add: named_children_def)

text \<open>The stack with its top first: popping takes the head, pushing the children one by one puts the
  last child on top.\<close>

function walk_nodes :: "ts_node list \<Rightarrow> ts_node list \<Rightarrow> ts_node list option" where
  "walk_nodes [] command_nodes = Some command_nodes"
| "walk_nodes (node # stack) command_nodes =
     (if \<not> node_allowed node then None
      else walk_nodes (rev (ts_children node) @ stack)
             (if ts_named node \<and> is_command node then command_nodes @ [node] else command_nodes))"
  by pat_completeness auto
termination
  by (relation "measure (\<lambda>(stack, _). stack_size stack)") (auto simp: stack_size_children)

definition parse_double_quoted_string :: "ts_node \<Rightarrow> str option" where
  "parse_double_quoted_string node =
     (if ts_kind node \<noteq> lit ''string'' then None
      else if \<not> list_all (\<lambda>part. ts_kind part = lit ''string_content'') (named_children node) then None
      else Option.bind (ts_text node) (\<lambda>raw. Option.bind (strip_prefix [34] raw) (strip_suffix [34])))"

definition parse_raw_string :: "ts_node \<Rightarrow> str option" where
  "parse_raw_string node =
     (if ts_kind node \<noteq> lit ''raw_string'' then None
      else Option.bind (ts_text node) (\<lambda>raw. Option.bind (strip_prefix [39] raw) (strip_suffix [39])))"

fun concat_parts :: "ts_node list \<Rightarrow> str \<Rightarrow> str option" where
  "concat_parts [] concatenated = Some concatenated"
| "concat_parts (part # parts) concatenated =
     Option.bind
       (if ts_kind part = lit ''word'' \<or> ts_kind part = lit ''number'' then ts_text part
        else if ts_kind part = lit ''string'' then parse_double_quoted_string part
        else if ts_kind part = lit ''raw_string'' then parse_raw_string part
        else None)
       (\<lambda>s. concat_parts parts (concatenated @ s))"

definition plain_word :: "ts_node \<Rightarrow> str option" where
  "plain_word child =
     (if ts_kind child = lit ''command_name'' then
        (case named_children child of
           [] \<Rightarrow> None
         | word_node # _ \<Rightarrow> if ts_kind word_node \<noteq> lit ''word'' then None else ts_text word_node)
      else if ts_kind child = lit ''word'' \<or> ts_kind child = lit ''number'' then ts_text child
      else if ts_kind child = lit ''string'' then parse_double_quoted_string child
      else if ts_kind child = lit ''raw_string'' then parse_raw_string child
      else if ts_kind child = lit ''concatenation'' then
        Option.bind (concat_parts (named_children child) []) (\<lambda>s. if s = [] then None else Some s)
      else None)"

fun collect_some :: "('a \<Rightarrow> 'b option) \<Rightarrow> 'a list \<Rightarrow> 'b list option" where
  "collect_some f [] = Some []"
| "collect_some f (x # xs) = Option.bind (f x) (\<lambda>y. map_option (Cons y) (collect_some f xs))"

definition parse_plain_command_from_node :: "ts_node \<Rightarrow> str list option" where
  "parse_plain_command_from_node cmd =
     (if \<not> is_command cmd then None else collect_some plain_word (named_children cmd))"

definition try_parse_word_only_commands_sequence :: "ts_tree \<Rightarrow> str list list option" where
  "try_parse_word_only_commands_sequence tree =
     (if has_error tree then None
      else Option.bind (walk_nodes [root_node tree] [])
             (\<lambda>command_nodes. collect_some parse_plain_command_from_node (sort_key ts_start command_nodes)))"

definition extract_bash_command :: "str list \<Rightarrow> (str \<times> str) option" where
  "extract_bash_command command =
     (case command of
        [shell, flag, script] \<Rightarrow>
          if flag \<notin> {lit ''-lc'', lit ''-c''} \<or> detect_shell_type shell \<notin> {Some Zsh, Some Bash, Some Sh} then None
          else Some (shell, script)
      | _ \<Rightarrow> None)"

definition parse_shell_lc_plain_commands :: "script_parser \<Rightarrow> str list \<Rightarrow> str list list option" where
  "parse_shell_lc_plain_commands parse command =
     Option.bind (extract_bash_command command) (\<lambda>(_, script).
       Option.bind (parse script) try_parse_word_only_commands_sequence)"

subsection \<open>Here-documents\<close>

definition is_literal_word_or_number :: "ts_node \<Rightarrow> bool" where
  "is_literal_word_or_number node \<longleftrightarrow>
     (ts_kind node = lit ''word'' \<or> ts_kind node = lit ''number'') \<and> named_children node = []"

definition is_allowed_heredoc_attachment_kind :: "str \<Rightarrow> bool" where
  "is_allowed_heredoc_attachment_kind kind \<longleftrightarrow>
     kind \<in> {lit ''heredoc_body'', lit ''simple_heredoc_body'', lit ''heredoc_redirect'', lit ''herestring_redirect'',
       lit ''redirected_statement''}"

fun heredoc_words :: "ts_node list \<Rightarrow> str list \<Rightarrow> str list option" where
  "heredoc_words [] words = Some words"
| "heredoc_words (child # rest) words =
     (if ts_kind child = lit ''command_name'' then
        (case named_children child of
           [] \<Rightarrow> None
         | word_node # _ \<Rightarrow>
             if \<not> is_literal_word_or_number word_node then None
             else Option.bind (ts_text word_node) (\<lambda>s. heredoc_words rest (words @ [s])))
      else if ts_kind child = lit ''word'' \<or> ts_kind child = lit ''number'' then
        (if \<not> is_literal_word_or_number child then None
         else Option.bind (ts_text child) (\<lambda>s. heredoc_words rest (words @ [s])))
      else if ts_kind child = lit ''comment'' \<or> is_allowed_heredoc_attachment_kind (ts_kind child) then
        heredoc_words rest words
      else None)"

definition parse_heredoc_command_words :: "ts_node \<Rightarrow> str list option" where
  "parse_heredoc_command_words cmd =
     (if \<not> is_command cmd then None
      else Option.bind (heredoc_words (named_children cmd) []) (\<lambda>words. if words = [] then None else Some words))"

function single_command_loop :: "ts_node list \<Rightarrow> ts_node option \<Rightarrow> ts_node option" where
  "single_command_loop [] single_command = single_command"
| "single_command_loop (node # stack) single_command =
     (if is_command node then
        (if single_command \<noteq> None then None
         else single_command_loop (rev (named_children node) @ stack) (Some node))
      else single_command_loop (rev (named_children node) @ stack) single_command)"
  by pat_completeness auto
termination
  by (relation "measure (\<lambda>(stack, _). stack_size stack)") (auto simp: stack_size_named_children)

definition find_single_command_node :: "ts_node \<Rightarrow> ts_node option" where
  "find_single_command_node root = single_command_loop [root] None"

function named_kind_loop :: "str \<Rightarrow> ts_node list \<Rightarrow> bool" where
  "named_kind_loop kind [] = False"
| "named_kind_loop kind (node # stack) =
     (if ts_kind node = kind then True else named_kind_loop kind (rev (named_children node) @ stack))"
  by pat_completeness auto
termination
  by (relation "measure (\<lambda>(_, stack). stack_size stack)") (auto simp: stack_size_named_children)

definition has_named_descendant_kind :: "ts_node \<Rightarrow> str \<Rightarrow> bool" where
  "has_named_descendant_kind node kind = named_kind_loop kind [node]"

definition parse_shell_lc_single_command_prefix :: "script_parser \<Rightarrow> str list \<Rightarrow> str list option" where
  "parse_shell_lc_single_command_prefix parse command =
     Option.bind (extract_bash_command command) (\<lambda>(_, script).
       Option.bind (parse script) (\<lambda>tree.
         let root = root_node tree in
         if has_error tree then None
         else if \<not> has_named_descendant_kind root (lit ''heredoc_redirect'') then None
         else if has_named_descendant_kind root (lit ''file_redirect'') then None
         else Option.bind (find_single_command_node root) parse_heredoc_command_words))"

subsection \<open>The walk visits every node\<close>

text \<open>The nodes of a tree in document order, and in the order in which the stack yields them.\<close>

fun subnodes :: "ts_node \<Rightarrow> ts_node list" where
  "subnodes (TsNode k nm t s cs) = TsNode k nm t s cs # concat (map subnodes cs)"

fun stack_order :: "ts_node \<Rightarrow> ts_node list" where
  "stack_order (TsNode k nm t s cs) = TsNode k nm t s cs # concat (map stack_order (rev cs))"

lemma stack_order_unfold: "stack_order n = n # concat (map stack_order (rev (ts_children n)))"
  by (cases n) simp

lemma mset_stack_order: "mset (stack_order n) = mset (subnodes n)"
proof (induction n)
  case (TsNode k nm t s cs)
  then have "map (mset \<circ> stack_order) cs = map (mset \<circ> subnodes) cs" by simp
  then show ?case by (simp add: mset_concat rev_map [symmetric] sum_mset_sum_list [symmetric] flip: map_map)
qed

definition command_node :: "ts_node \<Rightarrow> bool" where
  "command_node n \<longleftrightarrow> ts_named n \<and> is_command n"

lemma walk_nodes_eq:
  "walk_nodes stack acc =
     (let visited = concat (map stack_order stack) in
      if list_all node_allowed visited then Some (acc @ filter command_node visited) else None)"
proof (induction stack acc rule: walk_nodes.induct)
  case (2 n stack acc)
  then show ?case
    by (cases "node_allowed n") (auto simp: stack_order_unfold [of n] command_node_def Let_def)
qed simp

lemma walk_nodes_root:
  "walk_nodes [root] [] =
     (if list_all node_allowed (subnodes root) then Some (filter command_node (stack_order root)) else None)"
  using mset_eq_setD [OF mset_stack_order [of root]] by (simp add: walk_nodes_eq Let_def list_all_iff)

lemma filter_eq_key_replicate: "filter (\<lambda>x. x = k) zs = replicate (count (mset zs) k) k"
  by (induction zs) auto

lemma sort_key_document_order:
  fixes f :: "'a \<Rightarrow> nat"
  assumes "sorted_wrt (<) (map f ys)" and "mset xs = mset ys"
  shows "sort_key f xs = ys"
proof (rule properties_for_sort_key)
  from assms(1) have inj: "inj_on f (set ys)" by (metis strict_sorted_iff distinct_map)
  show "mset ys = mset xs" using assms(2) by simp
  from assms(1) show "sorted (map f ys)" by (simp add: strict_sorted_iff)
  show "filter (\<lambda>x. f k = f x) ys = filter (\<lambda>x. f k = f x) xs" if "k \<in> set ys" for k
  proof -
    have eq: "x = k" if "x \<in> set ys" "f k = f x" for x using inj \<open>k \<in> set ys\<close> that by (metis inj_onD)
    have one: "filter (\<lambda>x. f k = f x) zs = replicate (count (mset zs) k) k" if "set zs = set ys" for zs
    proof -
      have "filter (\<lambda>x. f k = f x) zs = filter (\<lambda>x. x = k) zs"
        using eq that by (intro filter_cong) auto
      then show ?thesis by (simp only: filter_eq_key_replicate)
    qed
    have "set xs = set ys" using assms(2) by (rule mset_eq_setD)
    then show ?thesis using one [of ys] one [of xs] assms(2) by simp
  qed
qed


text \<open>The tree of \<open>ls && pwd -P\<close>.\<close>

definition sample_word :: "char list \<Rightarrow> nat \<Rightarrow> ts_node" where
  "sample_word w pos = TsNode (lit ''word'') True (Some (lit w)) pos []"

definition sample_name :: "char list \<Rightarrow> nat \<Rightarrow> ts_node" where
  "sample_name w pos = TsNode (lit ''command_name'') True (Some (lit w)) pos [sample_word w pos]"

definition sample_tree :: ts_tree where
  "sample_tree =
     \<lparr>root_node = TsNode (lit ''program'') True (Some (lit ''ls && pwd -P'')) 0
        [TsNode (lit ''list'') True (Some (lit ''ls && pwd -P'')) 0
          [TsNode (lit ''command'') True (Some (lit ''ls'')) 0 [sample_name ''ls'' 0],
           TsNode (lit ''&&'') False (Some (lit ''&&'')) 3 [],
           TsNode (lit ''command'') True (Some (lit ''pwd -P'')) 6 [sample_name ''pwd'' 6, sample_word ''-P'' 10]]],
      has_error = False\<rparr>"


subsection \<open>Which programs are shells\<close>

lemma path_eq_refl [simp]: "path_eq p p"
  by (simp add: path_eq_def)

lemma known_shell_file_name:
  assumes "known_shell p = Some t"
  shows "path_file_name p = Some p"
proof -
  from assms have "p \<in> set (map lit [''zsh'', ''sh'', ''cmd'', ''bash'', ''pwsh'', ''powershell''])"
    by (auto simp: known_shell_def split: if_splits)
  moreover have "list_all (\<lambda>p. path_file_name p = Some p) (map lit [''zsh'', ''sh'', ''cmd'', ''bash'', ''pwsh'', ''powershell''])"
    by code_simp
  ultimately show ?thesis unfolding list_all_iff by blast
qed

definition dot :: uchar where
  "dot = of_char CHR ''.''"

lemma path_file_name_idem:
  assumes "path_file_name p = Some n"
  shows "path_file_name n = Some n"
proof -
  have sep: "c \<notin> set x" if "x \<in> set (split_on c s)" for x c and s :: str
    using that by (induction s arbitrary: x) (auto split: if_splits list.splits)
  from assms have "last_opt (path_components p) = Some (Normal n)"
    by (auto simp: path_file_name_def split: option.splits component.splits)
  then have "Normal n \<in> set (path_components p)" by (auto simp: last_opt_Some)
  then have "body_component n = [Normal n]"
    by (auto simp: path_components_def body_component_def Let_def split: if_splits)
  moreover from sep [OF path_file_name_piece [OF assms]] have "slash \<notin> set n" .
  ultimately show ?thesis
    by (auto simp: path_file_name_def path_components_def split_on_no_sep body_component_def Let_def is_absolute_def
        split: if_splits list.splits)
qed

lemma detect_shell_type_other:
  assumes "path_file_name p = Some n" "dot \<notin> set n" "known_shell n = None"
  shows "detect_shell_type p = None"
proof -
  have stem: "path_file_stem q = Some n" if "path_file_name q = Some n" for q
  proof -
    have "rsplit_once dot n = None"
      using assms(2) by (cases "rsplit_once dot n") (auto simp: rsplit_once_Some)
    with that show ?thesis by (simp add: path_file_stem_def dot_def)
  qed
  have base: "detect_shell_type n = None"
    using stem [OF path_file_name_idem [OF assms(1)]] assms(3) by (subst detect_shell_type.simps) simp
  have "known_shell p = None"
    using known_shell_file_name [of p] assms(1,3) by (cases "known_shell p") auto
  with stem [OF assms(1)] base show ?thesis by (subst detect_shell_type.simps) simp
qed

end
