(* ===== verification/CommandSafety.thy ===== *)
theory CommandSafety
  imports ShellScript
begin

text \<open>
  Which commands are known to be safe and which might be dangerous,
  \<open>shell-command/src/command_safety/is_safe_command.rs\<close> and \<open>is_dangerous_command.rs\<close>, as compiled
  for Linux.  The script of a shell invocation is read by the definitions of \<open>ShellScript\<close>.
\<close>

subsection \<open>Git options\<close>

definition executable_name_lookup_key :: "str \<Rightarrow> str option" where
  "executable_name_lookup_key raw = path_file_name raw"

definition is_git_global_option_with_value :: "str \<Rightarrow> bool" where
  "is_git_global_option_with_value arg \<longleftrightarrow>
     arg \<in> set (map lit [''-C'', ''-c'', ''--config-env'', ''--exec-path'', ''--git-dir'', ''--namespace'',
       ''--super-prefix'', ''--work-tree''])"

definition is_git_global_option_with_inline_value :: "str \<Rightarrow> bool" where
  "is_git_global_option_with_inline_value arg \<longleftrightarrow>
     list_ex (\<lambda>p. starts_with (lit p) arg)
       [''--config-env='', ''--exec-path='', ''--git-dir='', ''--namespace='', ''--super-prefix='', ''--work-tree='']
     \<or> ((starts_with (lit ''-C'') arg \<or> starts_with (lit ''-c'') arg) \<and> utf8_len arg > 2)"

fun git_subcommand_loop :: "str list \<Rightarrow> nat \<Rightarrow> str list \<Rightarrow> bool \<Rightarrow> (nat \<times> str) option" where
  "git_subcommand_loop subcommands idx [] skip_next = None"
| "git_subcommand_loop subcommands idx (arg # args) skip_next =
     (if skip_next then git_subcommand_loop subcommands (idx + 1) args False
      else if is_git_global_option_with_inline_value arg then git_subcommand_loop subcommands (idx + 1) args False
      else if is_git_global_option_with_value arg then git_subcommand_loop subcommands (idx + 1) args True
      else if arg = lit ''--'' \<or> starts_with (lit ''-'') arg then git_subcommand_loop subcommands (idx + 1) args False
      else if arg \<in> set subcommands then Some (idx, arg)
      else None)"

definition find_git_subcommand :: "str list \<Rightarrow> str list \<Rightarrow> (nat \<times> str) option" where
  "find_git_subcommand command subcommands =
     (case command of
        [] \<Rightarrow> None
      | cmd0 # args \<Rightarrow>
          if executable_name_lookup_key cmd0 \<noteq> Some (lit ''git'') then None
          else git_subcommand_loop subcommands 1 args False)"

datatype git_option_pattern = Exact str | ShortWithInlineValue str | Prefix str

fun git_option_matches :: "git_option_pattern \<Rightarrow> str \<Rightarrow> bool" where
  "git_option_matches (Exact option) arg \<longleftrightarrow> arg = option"
| "git_option_matches (ShortWithInlineValue option) arg \<longleftrightarrow> starts_with option arg \<and> utf8_len arg > utf8_len option"
| "git_option_matches (Prefix pat) arg \<longleftrightarrow> starts_with pat arg"

definition UNSAFE_GIT_GLOBAL_OPTIONS :: "git_option_pattern list" where
  "UNSAFE_GIT_GLOBAL_OPTIONS =
     [Exact (lit ''-C''), ShortWithInlineValue (lit ''-C''), Exact (lit ''-c''), ShortWithInlineValue (lit ''-c''),
      Exact (lit ''-p''), Exact (lit ''--config-env''), Prefix (lit ''--config-env=''),
      Exact (lit ''--exec-path''), Prefix (lit ''--exec-path=''), Exact (lit ''--git-dir''), Prefix (lit ''--git-dir=''),
      Exact (lit ''--namespace''), Prefix (lit ''--namespace=''), Exact (lit ''--paginate''),
      Exact (lit ''--super-prefix''), Prefix (lit ''--super-prefix=''), Exact (lit ''--work-tree''),
      Prefix (lit ''--work-tree='')]"

definition UNSAFE_GIT_SUBCOMMAND_OPTIONS :: "git_option_pattern list" where
  "UNSAFE_GIT_SUBCOMMAND_OPTIONS =
     [Exact (lit ''--output''), Prefix (lit ''--output=''), Exact (lit ''--ext-diff''), Exact (lit ''--textconv''),
      Exact (lit ''--exec''), Prefix (lit ''--exec='')]"

definition git_matches_option_pattern :: "str \<Rightarrow> git_option_pattern list \<Rightarrow> bool" where
  "git_matches_option_pattern arg patterns \<longleftrightarrow> list_ex (\<lambda>pattern. git_option_matches pattern arg) patterns"

definition git_has_unsafe_global_option :: "str list \<Rightarrow> bool" where
  "git_has_unsafe_global_option global_args \<longleftrightarrow>
     list_ex (\<lambda>arg. git_matches_option_pattern arg UNSAFE_GIT_GLOBAL_OPTIONS) global_args"

definition git_subcommand_args_are_read_only :: "str list \<Rightarrow> bool" where
  "git_subcommand_args_are_read_only args \<longleftrightarrow>
     \<not> list_ex (\<lambda>arg. git_matches_option_pattern arg UNSAFE_GIT_SUBCOMMAND_OPTIONS) args"

definition read_only_branch_flag :: "str \<Rightarrow> bool" where
  "read_only_branch_flag arg \<longleftrightarrow>
     arg \<in> set (map lit [''--list'', ''-l'', ''--show-current'', ''-a'', ''--all'', ''-r'', ''--remotes'', ''-v'', ''-vv'',
       ''--verbose'']) \<or> starts_with (lit ''--format='') arg"

fun branch_args_loop :: "str list \<Rightarrow> bool \<Rightarrow> bool" where
  "branch_args_loop [] saw_read_only_flag = saw_read_only_flag"
| "branch_args_loop (arg # args) saw_read_only_flag =
     (if read_only_branch_flag arg then branch_args_loop args True else False)"

definition git_branch_is_read_only :: "str list \<Rightarrow> bool" where
  "git_branch_is_read_only branch_args = (if branch_args = [] then True else branch_args_loop branch_args False)"

definition is_safe_git_command :: "str list \<Rightarrow> bool" where
  "is_safe_git_command command =
     (case find_git_subcommand command (map lit [''status'', ''log'', ''diff'', ''show'', ''branch'']) of
        None \<Rightarrow> False
      | Some (subcommand_idx, subcommand) \<Rightarrow>
          (let global_args = drop 1 (take subcommand_idx command);
               subcommand_args = drop (subcommand_idx + 1) command
           in if git_has_unsafe_global_option global_args then False
              else if subcommand \<in> set (map lit [''status'', ''log'', ''diff'', ''show''])
              then git_subcommand_args_are_read_only subcommand_args
              else if subcommand = lit ''branch''
              then git_subcommand_args_are_read_only subcommand_args \<and> git_branch_is_read_only subcommand_args
              else False))"

subsection \<open>Safe commands\<close>

definition is_valid_sed_n_arg :: "str option \<Rightarrow> bool" where
  "is_valid_sed_n_arg arg =
     (case arg of
        None \<Rightarrow> False
      | Some s \<Rightarrow>
          (case strip_suffix (lit ''p'') s of
             None \<Rightarrow> False
           | Some core \<Rightarrow>
               (case split_on (of_char CHR '','') core of
                  [num] \<Rightarrow> num \<noteq> [] \<and> list_all is_ascii_digit num
                | [a, b] \<Rightarrow> a \<noteq> [] \<and> b \<noteq> [] \<and> list_all is_ascii_digit a \<and> list_all is_ascii_digit b
                | _ \<Rightarrow> False)))"

definition get_arg :: "str list \<Rightarrow> nat \<Rightarrow> str option" where
  "get_arg command i = (if i < length command then Some (command ! i) else None)"

definition ALWAYS_SAFE :: "str list" where
  "ALWAYS_SAFE = map lit [''cat'', ''cd'', ''cut'', ''echo'', ''expr'', ''false'', ''grep'', ''head'', ''id'', ''ls'', ''nl'',
     ''paste'', ''pwd'', ''rev'', ''seq'', ''stat'', ''tail'', ''tr'', ''true'', ''uname'', ''uniq'', ''wc'', ''which'', ''whoami'']"

definition safe_base64_arg :: "str \<Rightarrow> bool" where
  "safe_base64_arg arg \<longleftrightarrow>
     \<not> (arg \<in> {lit ''-o'', lit ''--output''} \<or> starts_with (lit ''--output='') arg
        \<or> (starts_with (lit ''-o'') arg \<and> arg \<noteq> lit ''-o''))"

definition UNSAFE_FIND_OPTIONS :: "str list" where
  "UNSAFE_FIND_OPTIONS = map lit [''-exec'', ''-execdir'', ''-ok'', ''-okdir'', ''-delete'', ''-fls'', ''-fprint'',
     ''-fprint0'', ''-fprintf'']"

definition safe_rg_arg :: "str \<Rightarrow> bool" where
  "safe_rg_arg arg \<longleftrightarrow>
     \<not> (arg \<in> {lit ''--search-zip'', lit ''-z''}
        \<or> list_ex (\<lambda>opt. arg = opt \<or> starts_with (opt @ lit ''='') arg) [lit ''--pre'', lit ''--hostname-bin''])"

definition is_safe_to_call_with_exec :: "str list \<Rightarrow> bool" where
  "is_safe_to_call_with_exec command =
     (case command of
        [] \<Rightarrow> False
      | cmd0 # args \<Rightarrow>
          (case executable_name_lookup_key cmd0 of
             None \<Rightarrow> False
           | Some cmd \<Rightarrow>
               if cmd \<in> {lit ''numfmt'', lit ''tac''} then True
               else if cmd \<in> set ALWAYS_SAFE then True
               else if cmd = lit ''base64'' then list_all safe_base64_arg args
               else if cmd = lit ''find'' then \<not> list_ex (\<lambda>arg. arg \<in> set UNSAFE_FIND_OPTIONS) command
               else if cmd = lit ''rg'' then list_all safe_rg_arg command
               else if cmd = lit ''git'' then is_safe_git_command command
               else if cmd = lit ''sed'' then
                 length command \<le> 4 \<and> get_arg command 1 = Some (lit ''-n'') \<and> is_valid_sed_n_arg (get_arg command 2)
               else False))"

definition zsh_as_bash :: "str \<Rightarrow> str" where
  "zsh_as_bash s = (if s = lit ''zsh'' then lit ''bash'' else s)"

definition is_known_safe_command :: "script_parser \<Rightarrow> str list \<Rightarrow> bool" where
  "is_known_safe_command parse original =
     (let command = map zsh_as_bash original in
      if is_safe_to_call_with_exec command then True
      else (case parse_shell_lc_plain_commands parse command of
              Some all_commands \<Rightarrow> all_commands \<noteq> [] \<and> list_all is_safe_to_call_with_exec all_commands
            | None \<Rightarrow> False))"

subsection \<open>Dangerous commands\<close>

fun is_dangerous_to_call_with_exec :: "str list \<Rightarrow> bool" where
  "is_dangerous_to_call_with_exec [] = False"
| "is_dangerous_to_call_with_exec (cmd0 # args) =
     (if cmd0 = lit ''rm'' then get_arg (cmd0 # args) 1 \<in> {Some (lit ''-f''), Some (lit ''-rf'')}
      else if cmd0 = lit ''sudo'' then is_dangerous_to_call_with_exec args
      else False)"

definition command_might_be_dangerous :: "script_parser \<Rightarrow> str list \<Rightarrow> bool" where
  "command_might_be_dangerous parse command =
     (if is_dangerous_to_call_with_exec command then True
      else (case parse_shell_lc_plain_commands parse command of
              Some all_commands \<Rightarrow> list_ex is_dangerous_to_call_with_exec all_commands
            | None \<Rightarrow> False))"

subsection \<open>Safe git commands only query\<close>

lemma git_option_with_value_unsafe:
  assumes "is_git_global_option_with_value arg \<or> is_git_global_option_with_inline_value arg"
  shows "git_matches_option_pattern arg UNSAFE_GIT_GLOBAL_OPTIONS"
proof -
  have "utf8_len (lit ''-C'') = 2" "utf8_len (lit ''-c'') = 2" by code_simp+
  with assms show ?thesis
    by (auto simp: is_git_global_option_with_value_def is_git_global_option_with_inline_value_def
        git_matches_option_pattern_def UNSAFE_GIT_GLOBAL_OPTIONS_def)
qed

lemma git_subcommand_loop_Some:
  assumes "git_subcommand_loop subs idx args skip = Some (i, sub)"
  shows "\<exists>pre post. args = pre @ sub # post \<and> i = idx + length pre \<and> sub \<in> set subs \<and> \<not> starts_with (lit ''-'') sub \<and>
    (\<not> skip \<longrightarrow> \<not> list_ex (\<lambda>a. git_matches_option_pattern a UNSAFE_GIT_GLOBAL_OPTIONS) pre \<longrightarrow>
      list_all (starts_with (lit ''-'')) pre)"
  using assms
proof (induction args arbitrary: idx skip)
  case (Cons arg args)
  let ?bad = "\<lambda>a. git_matches_option_pattern a UNSAFE_GIT_GLOBAL_OPTIONS"
  have step: ?case if "git_subcommand_loop subs (idx + 1) args s = Some (i, sub)"
    and "\<not> skip \<Longrightarrow> \<not> ?bad arg \<Longrightarrow> starts_with (lit ''-'') arg \<and> \<not> s" for s
  proof -
    from Cons.IH [OF that(1)] obtain pre post where "args = pre @ sub # post" "i = idx + 1 + length pre"
      "sub \<in> set subs" "\<not> starts_with (lit ''-'') sub"
      "\<not> s \<longrightarrow> \<not> list_ex ?bad pre \<longrightarrow> list_all (starts_with (lit ''-'')) pre" by blast
    with that(2) show ?thesis by (intro exI [of _ "arg # pre"] exI [of _ post]) auto
  qed
  show ?case
  proof (cases "skip \<or> is_git_global_option_with_inline_value arg \<or> is_git_global_option_with_value arg
      \<or> arg = lit ''--'' \<or> starts_with (lit ''-'') arg")
    case True
    then show ?thesis
      using Cons.prems step git_option_with_value_unsafe [of arg]
      by (auto split: if_splits simp: starts_with_def str_simps)
  next
    case False
    with Cons.prems show ?thesis by (intro exI [of _ "[]"] exI [of _ args]) (auto split: if_splits)
  qed
qed simp

lemma branch_args_loop_iff: "branch_args_loop args saw \<longleftrightarrow> list_all read_only_branch_flag args \<and> (args \<noteq> [] \<or> saw)"
  by (induction args arbitrary: saw) auto

lemma git_branch_is_read_only_iff: "git_branch_is_read_only args \<longleftrightarrow> list_all read_only_branch_flag args"
  by (simp add: git_branch_is_read_only_def branch_args_loop_iff)



subsection \<open>Safe commands are never dangerous\<close>

definition SAFE_NAMES :: "str list" where
  "SAFE_NAMES = ALWAYS_SAFE @ map lit [''numfmt'', ''tac'', ''base64'', ''find'', ''rg'', ''git'', ''sed'']"

lemma is_safe_to_call_with_exec_name:
  assumes "is_safe_to_call_with_exec command"
  shows "\<exists>cmd0 args name. command = cmd0 # args \<and> path_file_name cmd0 = Some name \<and> name \<in> set SAFE_NAMES"
  using assms
  by (auto simp: is_safe_to_call_with_exec_def SAFE_NAMES_def executable_name_lookup_key_def
      split: list.splits option.splits if_splits)

lemma safe_names_plain:
  assumes "name \<in> set SAFE_NAMES"
  shows "dot \<notin> set name" "known_shell name = None" "name \<noteq> lit ''rm''" "name \<noteq> lit ''sudo''"
proof -
  have "list_all (\<lambda>name. dot \<notin> set name \<and> known_shell name = None \<and> name \<noteq> lit ''rm'' \<and> name \<noteq> lit ''sudo'') SAFE_NAMES"
    by code_simp
  with assms show "dot \<notin> set name" "known_shell name = None" "name \<noteq> lit ''rm''" "name \<noteq> lit ''sudo''"
    unfolding list_all_iff by blast+
qed

lemma safe_exec_not_dangerous:
  assumes "is_safe_to_call_with_exec command"
  shows "\<not> is_dangerous_to_call_with_exec command"
proof -
  from is_safe_to_call_with_exec_name [OF assms] obtain cmd0 args name where
    cmd: "command = cmd0 # args" "path_file_name cmd0 = Some name" and name: "name \<in> set SAFE_NAMES" by blast
  have "path_file_name (lit ''rm'') = Some (lit ''rm'')" "path_file_name (lit ''sudo'') = Some (lit ''sudo'')"
    by code_simp+
  with cmd safe_names_plain [OF name] show ?thesis by auto
qed

lemma safe_exec_not_shell:
  assumes "is_safe_to_call_with_exec command"
  shows "extract_bash_command command = None"
proof -
  from is_safe_to_call_with_exec_name [OF assms] obtain cmd0 args name where
    cmd: "command = cmd0 # args" and fn: "path_file_name cmd0 = Some name" and name: "name \<in> set SAFE_NAMES" by blast
  have "detect_shell_type cmd0 = None"
    by (rule detect_shell_type_other [OF fn]) (rule safe_names_plain [OF name])+
  then show ?thesis by (auto simp: extract_bash_command_def cmd split: list.splits)
qed

lemma dangerous_exec_not_shell:
  assumes "is_dangerous_to_call_with_exec command"
  shows "extract_bash_command command = None"
proof -
  from assms obtain cmd0 args where cmd: "command = cmd0 # args" "cmd0 = lit ''rm'' \<or> cmd0 = lit ''sudo''"
    by (cases command) (auto split: if_splits)
  have "detect_shell_type (lit ''rm'') = None" by (rule detect_shell_type_other [of _ "lit ''rm''"]) code_simp+
  moreover have "detect_shell_type (lit ''sudo'') = None"
    by (rule detect_shell_type_other [of _ "lit ''sudo''"]) code_simp+
  ultimately show ?thesis using cmd by (auto simp: extract_bash_command_def split: list.splits)
qed

lemma map_zsh_as_bash_id: "lit ''zsh'' \<notin> set xs \<Longrightarrow> map zsh_as_bash xs = xs"
  by (induction xs) (auto simp: zsh_as_bash_def)

lemma detect_shell_type_zsh_as_bash: "(detect_shell_type (zsh_as_bash s) \<in> {Some Zsh, Some Bash, Some Sh}) = (detect_shell_type s \<in> {Some Zsh, Some Bash, Some Sh})"
proof (cases "s = lit ''zsh''")
  case True
  have "detect_shell_type (lit ''zsh'') = Some Zsh" "detect_shell_type (lit ''bash'') = Some Bash"
    by (subst detect_shell_type.simps, code_simp)+
  with True show ?thesis by (simp add: zsh_as_bash_def)
qed (simp add: zsh_as_bash_def)

lemma extract_bash_command_zsh_as_bash:
  assumes "lit ''zsh'' \<notin> set (tl command)"
  shows "map_option snd (extract_bash_command (map zsh_as_bash command)) = map_option snd (extract_bash_command command)"
proof (cases command)
  case (Cons shell args)
  with assms have "map zsh_as_bash command = zsh_as_bash shell # args" by (simp add: map_zsh_as_bash_id)
  with Cons detect_shell_type_zsh_as_bash [of shell] show ?thesis
    unfolding extract_bash_command_def by (auto split: list.splits simp del: insert_iff)
qed simp

lemma parse_plain_by_script:
  "parse_shell_lc_plain_commands parse command =
     Option.bind (map_option snd (extract_bash_command command))
       (\<lambda>script. Option.bind (parse script) try_parse_word_only_commands_sequence)"
  by (cases "extract_bash_command command") (auto simp: parse_shell_lc_plain_commands_def)

text \<open>No command is both known to be safe and possibly dangerous, whatever the parser makes of
  a script, when \<open>zsh\<close> occurs at most as the program: the safety check, and only it, reads every
  word \<open>zsh\<close> of the command as \<open>bash\<close>.\<close>

lemma safe_command_not_dangerous:
  assumes "is_known_safe_command parse command" and "lit ''zsh'' \<notin> set (tl command)"
  shows "\<not> command_might_be_dangerous parse command"
proof (cases "is_safe_to_call_with_exec (map zsh_as_bash command)")
  case True
  then have none: "parse_shell_lc_plain_commands parse command = None"
    using extract_bash_command_zsh_as_bash [OF assms(2)] safe_exec_not_shell [OF True]
    by (simp add: parse_plain_by_script)
  have "command \<noteq> [] \<and> zsh_as_bash (hd command) = hd command"
  proof -
    have "path_file_name (lit ''bash'') = Some (lit ''bash'')" "lit ''bash'' \<notin> set SAFE_NAMES" by code_simp+
    with is_safe_to_call_with_exec_name [OF True] show ?thesis by (cases command) (auto simp: zsh_as_bash_def)
  qed
  then have "map zsh_as_bash command = command"
    using map_zsh_as_bash_id [OF assms(2)] by (cases command) simp_all
  with True have "is_safe_to_call_with_exec command" by simp
  with none safe_exec_not_dangerous show ?thesis by (simp add: command_might_be_dangerous_def)
next
  case False
  have plain: "parse_shell_lc_plain_commands parse (map zsh_as_bash command) = parse_shell_lc_plain_commands parse command"
    using extract_bash_command_zsh_as_bash [OF assms(2)] by (simp add: parse_plain_by_script)
  from False assms(1) obtain cmds where cmds: "parse_shell_lc_plain_commands parse command = Some cmds"
    and safe: "list_all is_safe_to_call_with_exec cmds"
    by (auto simp: is_known_safe_command_def plain Let_def split: option.splits)
  have "\<not> is_dangerous_to_call_with_exec command"
    using cmds dangerous_exec_not_shell [of command] by (auto simp: parse_shell_lc_plain_commands_def)
  with cmds safe safe_exec_not_dangerous show ?thesis
    by (auto simp: command_might_be_dangerous_def list_all_iff list_ex_iff)
qed

definition sample_parser :: script_parser where
  "sample_parser script = (if script = lit ''ls && pwd -P'' then Some sample_tree else None)"

end
