(* ===== verification/FsPolicy.thy ===== *)
theory FsPolicy
  imports AbsolutePath "HOL-Library.Product_Lexorder"
begin

text \<open>
  File system permissions, \<open>protocol/src/permissions.rs\<close>: the entries of a policy, the access a path
  gets, the protection of workspace metadata, and the operations that build and change policies.
  What the code asks of the host (home, current and temporary directory, the kinds of files, file
  contents, canonical paths) is the record \<open>fs_env\<close>.  An \<open>AbsolutePathBuf\<close> is its text, which is
  normal; the lemmas characterise access by the most specific entry and show what the answers
  about the whole disk and about metadata mean for single paths.
\<close>

subsection \<open>The host\<close>

record fs_env =
  fs_home :: "str option"
  fs_current_dir :: "str + str"
  fs_tmpdir :: "str option"
  fs_is_dir :: "str \<Rightarrow> bool"
  fs_is_file :: "str \<Rightarrow> bool"
  fs_exists :: "str \<Rightarrow> bool"
  fs_read_to_string :: "str \<Rightarrow> str option"
  fs_symlink_metadata :: "str \<Rightarrow> bool option"
  fs_canonicalize :: "str \<Rightarrow> str option"

text \<open>\<open>AbsolutePathBuf::from_absolute_path(p).ok()\<close> and \<open>join\<close>.\<close>

definition abs_of :: "fs_env \<Rightarrow> str \<Rightarrow> str option" where
  "abs_of env p = (case from_absolute_path (fs_home env) (fs_current_dir env) p of Inr q \<Rightarrow> Some q | Inl _ \<Rightarrow> None)"

definition join_path :: "fs_env \<Rightarrow> str \<Rightarrow> str \<Rightarrow> str" where
  "join_path env self path = abs_join (fs_home env) self path"

subsection \<open>Policies\<close>

datatype network_sandbox_policy = NetworkRestricted | NetworkEnabled

definition is_enabled :: "network_sandbox_policy \<Rightarrow> bool" where
  "is_enabled n \<longleftrightarrow> n = NetworkEnabled"

datatype access_mode = Read | Write | Deny

fun access_rank :: "access_mode \<Rightarrow> nat" where
  "access_rank Read = 0"
| "access_rank Write = 1"
| "access_rank Deny = 2"

lemma access_rank_inj [simp]: "access_rank a = access_rank b \<longleftrightarrow> a = b"
  by (cases a; cases b) simp_all

text \<open>The derived order of the enum is the precedence between equally specific entries.\<close>

instantiation access_mode :: linorder
begin

definition less_eq_access_mode :: "access_mode \<Rightarrow> access_mode \<Rightarrow> bool" where
  "less_eq_access_mode a b \<longleftrightarrow> access_rank a \<le> access_rank b"

definition less_access_mode :: "access_mode \<Rightarrow> access_mode \<Rightarrow> bool" where
  "less_access_mode a b \<longleftrightarrow> access_rank a < access_rank b"

instance
  by standard (auto simp: less_eq_access_mode_def less_access_mode_def)

end

fun can_read :: "access_mode \<Rightarrow> bool" where
  "can_read Deny = False"
| "can_read _ = True"

fun can_write :: "access_mode \<Rightarrow> bool" where
  "can_write Write = True"
| "can_write _ = False"

datatype special_path =
    Root
  | Minimal
  | ProjectRoots "str option"
  | Tmpdir
  | SlashTmp
  | UnknownPath str "str option"

datatype fs_path = PathEntry str | GlobPattern str | Special special_path

record fs_entry =
  entry_path :: fs_path
  entry_access :: access_mode

datatype sandbox_kind = Restricted | Unrestricted | ExternalSandbox

record fs_policy =
  kind :: sandbox_kind
  glob_scan_max_depth :: "nat option"
  entries :: "fs_entry list"

record resolved_entry =
  res_path :: str
  res_access :: access_mode

definition fs_entry_of :: "fs_path \<Rightarrow> access_mode \<Rightarrow> fs_entry" where
  "fs_entry_of p a = \<lparr>entry_path = p, entry_access = a\<rparr>"

definition restricted :: "fs_entry list \<Rightarrow> fs_policy" where
  "restricted es = \<lparr>kind = Restricted, glob_scan_max_depth = None, entries = es\<rparr>"

definition unrestricted :: fs_policy where
  "unrestricted = \<lparr>kind = Unrestricted, glob_scan_max_depth = None, entries = []\<rparr>"

definition external_sandbox :: fs_policy where
  "external_sandbox = \<lparr>kind = ExternalSandbox, glob_scan_max_depth = None, entries = []\<rparr>"

definition read_only_file_system_entries :: "fs_entry list" where
  "read_only_file_system_entries = [fs_entry_of (Special Root) Read]"

definition read_only :: fs_policy where
  "read_only = restricted read_only_file_system_entries"

definition PROTECTED_METADATA_PATH_NAMES :: "str list" where
  "PROTECTED_METADATA_PATH_NAMES = [lit ''.git'', lit ''.agents'', lit ''.codex'']"

definition is_protected_metadata_name :: "str \<Rightarrow> bool" where
  "is_protected_metadata_name name \<longleftrightarrow> list_ex (\<lambda>metadata_name. name = metadata_name) PROTECTED_METADATA_PATH_NAMES"

definition is_protected_metadata_directory_name :: "str \<Rightarrow> bool" where
  "is_protected_metadata_directory_name name \<longleftrightarrow> name = lit ''.agents'' \<or> name = lit ''.codex''"

definition metadata_path_name :: "str \<Rightarrow> str option" where
  "metadata_path_name name = find (\<lambda>metadata_name. name = metadata_name) PROTECTED_METADATA_PATH_NAMES"

subsection \<open>Equal targets\<close>

fun special_paths_share_target :: "special_path \<Rightarrow> special_path \<Rightarrow> bool" where
  "special_paths_share_target Root Root = True"
| "special_paths_share_target Minimal Minimal = True"
| "special_paths_share_target Tmpdir Tmpdir = True"
| "special_paths_share_target SlashTmp SlashTmp = True"
| "special_paths_share_target (ProjectRoots left) (ProjectRoots right) = rel_option path_eq left right"
| "special_paths_share_target (UnknownPath left left_subpath) (UnknownPath right right_subpath) =
     (left = right \<and> rel_option path_eq left_subpath right_subpath)"
| "special_paths_share_target _ _ = False"

fun special_path_matches_absolute_path :: "special_path \<Rightarrow> str \<Rightarrow> bool" where
  "special_path_matches_absolute_path Root path = (path_parent path = None)"
| "special_path_matches_absolute_path SlashTmp path = path_eq path (lit ''/tmp'')"
| "special_path_matches_absolute_path _ path = False"

fun file_system_paths_share_target :: "fs_path \<Rightarrow> fs_path \<Rightarrow> bool" where
  "file_system_paths_share_target (PathEntry left) (PathEntry right) = (left = right)"
| "file_system_paths_share_target (Special left) (Special right) = special_paths_share_target left right"
| "file_system_paths_share_target (PathEntry path) (Special v) = special_path_matches_absolute_path v path"
| "file_system_paths_share_target (Special v) (PathEntry path) = special_path_matches_absolute_path v path"
| "file_system_paths_share_target (GlobPattern left) (GlobPattern right) = (left = right)"
| "file_system_paths_share_target (GlobPattern _) _ = False"
| "file_system_paths_share_target _ (GlobPattern _) = False"

text \<open>The derived equality of entries: subpaths are equal as paths.\<close>

fun fs_path_eq :: "fs_path \<Rightarrow> fs_path \<Rightarrow> bool" where
  "fs_path_eq (PathEntry left) (PathEntry right) = (left = right)"
| "fs_path_eq (GlobPattern left) (GlobPattern right) = (left = right)"
| "fs_path_eq (Special left) (Special right) = special_paths_share_target left right"
| "fs_path_eq _ _ = False"

definition entry_eq :: "fs_entry \<Rightarrow> fs_entry \<Rightarrow> bool" where
  "entry_eq a b \<longleftrightarrow> fs_path_eq (entry_path a) (entry_path b) \<and> entry_access a = entry_access b"

subsection \<open>Resolving entries\<close>

definition resolve_candidate_path :: "fs_env \<Rightarrow> str \<Rightarrow> str \<Rightarrow> str option" where
  "resolve_candidate_path env path cwd =
     (if is_absolute path then abs_of env path
      else map_option (\<lambda>cwd. join_path env cwd path) (abs_of env cwd))"

text \<open>The root of an absolute path; \<open>None\<close>, the panic of the code, does not occur for one.\<close>

definition absolute_root_path_for_cwd :: "fs_env \<Rightarrow> str \<Rightarrow> str option" where
  "absolute_root_path_for_cwd env cwd = abs_of env (last (path_ancestors cwd))"

fun resolve_file_system_special_path :: "fs_env \<Rightarrow> special_path \<Rightarrow> str option \<Rightarrow> str option" where
  "resolve_file_system_special_path env (ProjectRoots subpath) cwd =
     Option.bind cwd (\<lambda>cwd.
       Some (case subpath of Some subpath \<Rightarrow> resolve_path_against_base (fs_home env) subpath cwd | None \<Rightarrow> cwd))"
| "resolve_file_system_special_path env Tmpdir cwd =
     Option.bind (fs_tmpdir env) (\<lambda>tmpdir. if tmpdir = [] then None else abs_of env tmpdir)"
| "resolve_file_system_special_path env SlashTmp cwd =
     Option.bind (abs_of env (lit ''/tmp'')) (\<lambda>slash_tmp. if \<not> fs_is_dir env slash_tmp then None else Some slash_tmp)"
| "resolve_file_system_special_path env _ cwd = None"

fun resolve_file_system_path :: "fs_env \<Rightarrow> fs_path \<Rightarrow> str option \<Rightarrow> str option" where
  "resolve_file_system_path env (PathEntry path) cwd = Some path"
| "resolve_file_system_path env (GlobPattern _) cwd = None"
| "resolve_file_system_path env (Special v) cwd = resolve_file_system_special_path env v cwd"

definition resolve_entry_path :: "fs_env \<Rightarrow> fs_path \<Rightarrow> str option \<Rightarrow> str option" where
  "resolve_entry_path env path cwd =
     (case path of
        Special Root \<Rightarrow> Option.bind cwd (absolute_root_path_for_cwd env)
      | _ \<Rightarrow> resolve_file_system_path env path cwd)"

definition resolved_entries_with_cwd :: "fs_env \<Rightarrow> fs_policy \<Rightarrow> str \<Rightarrow> resolved_entry list" where
  "resolved_entries_with_cwd env p cwd =
     List.map_filter (\<lambda>entry.
       map_option (\<lambda>path. \<lparr>res_path = path, res_access = entry_access entry\<rparr>)
         (resolve_entry_path env (entry_path entry) (abs_of env cwd))) (entries p)"

definition resolved_entry_precedence :: "resolved_entry \<Rightarrow> nat \<times> access_mode" where
  "resolved_entry_precedence e = (length (path_components (res_path e)), res_access e)"

text \<open>\<open>Iterator::max_by_key\<close>: the last of the greatest elements.\<close>

definition max_by_key :: "('a \<Rightarrow> 'b::linorder) \<Rightarrow> 'a list \<Rightarrow> 'a option" where
  "max_by_key f xs =
     (case xs of [] \<Rightarrow> None | x # xs \<Rightarrow> Some (foldl (\<lambda>m y. if f m \<le> f y then y else m) x xs))"

definition resolve_access_with_cwd :: "fs_env \<Rightarrow> fs_policy \<Rightarrow> str \<Rightarrow> str \<Rightarrow> access_mode" where
  "resolve_access_with_cwd env p path cwd =
     (if kind p \<noteq> Restricted then Write
      else (case resolve_candidate_path env path cwd of
              None \<Rightarrow> Deny
            | Some path \<Rightarrow>
                (case max_by_key resolved_entry_precedence
                        (filter (\<lambda>entry. path_starts_with (res_path entry) path) (resolved_entries_with_cwd env p cwd)) of
                   Some entry \<Rightarrow> res_access entry
                 | None \<Rightarrow> Deny)))"

definition can_read_path_with_cwd :: "fs_env \<Rightarrow> fs_policy \<Rightarrow> str \<Rightarrow> str \<Rightarrow> bool" where
  "can_read_path_with_cwd env p path cwd = can_read (resolve_access_with_cwd env p path cwd)"

subsection \<open>Access to the whole disk\<close>

definition has_root_access :: "fs_policy \<Rightarrow> (access_mode \<Rightarrow> bool) \<Rightarrow> bool" where
  "has_root_access p predicate \<longleftrightarrow>
     kind p = Restricted \<and>
     list_ex (\<lambda>entry. case entry_path entry of Special Root \<Rightarrow> predicate (entry_access entry) | _ \<Rightarrow> False) (entries p)"

definition has_denied_read_restrictions :: "fs_policy \<Rightarrow> bool" where
  "has_denied_read_restrictions p \<longleftrightarrow>
     kind p = Restricted \<and> list_ex (\<lambda>entry. entry_access entry = Deny) (entries p)"

definition has_same_target_write_override :: "fs_policy \<Rightarrow> fs_entry \<Rightarrow> bool" where
  "has_same_target_write_override p entry \<longleftrightarrow>
     list_ex (\<lambda>candidate. can_write (entry_access candidate) \<and> entry_access candidate > entry_access entry
       \<and> file_system_paths_share_target (entry_path candidate) (entry_path entry)) (entries p)"

definition write_narrowing_entry :: "fs_policy \<Rightarrow> fs_entry \<Rightarrow> bool" where
  "write_narrowing_entry p entry =
     (if can_write (entry_access entry) then False
      else (case entry_path entry of
              PathEntry _ \<Rightarrow> \<not> has_same_target_write_override p entry
            | GlobPattern _ \<Rightarrow> True
            | Special v \<Rightarrow>
                (case v of
                   Root \<Rightarrow> entry_access entry = Deny
                 | Minimal \<Rightarrow> False
                 | UnknownPath _ _ \<Rightarrow> False
                 | _ \<Rightarrow> \<not> has_same_target_write_override p entry)))"

definition has_write_narrowing_entries :: "fs_policy \<Rightarrow> bool" where
  "has_write_narrowing_entries p \<longleftrightarrow> kind p = Restricted \<and> list_ex (write_narrowing_entry p) (entries p)"

definition has_full_disk_read_access :: "fs_policy \<Rightarrow> bool" where
  "has_full_disk_read_access p =
     (case kind p of
        Restricted \<Rightarrow> has_root_access p can_read \<and> \<not> has_denied_read_restrictions p
      | _ \<Rightarrow> True)"

definition has_full_disk_write_access :: "fs_policy \<Rightarrow> bool" where
  "has_full_disk_write_access p =
     (case kind p of
        Restricted \<Rightarrow> has_root_access p can_write \<and> \<not> has_write_narrowing_entries p
      | _ \<Rightarrow> True)"

definition include_platform_defaults :: "fs_policy \<Rightarrow> bool" where
  "include_platform_defaults p \<longleftrightarrow>
     \<not> has_full_disk_read_access p \<and> kind p = Restricted \<and>
     list_ex (\<lambda>entry. case entry_path entry of Special Minimal \<Rightarrow> can_read (entry_access entry) | _ \<Rightarrow> False) (entries p)"

subsection \<open>Workspace metadata\<close>

definition metadata_child_of_writable_root :: "fs_env \<Rightarrow> fs_policy \<Rightarrow> str \<Rightarrow> str \<Rightarrow> (str \<times> str) option" where
  "metadata_child_of_writable_root env p target cwd =
     first_opt (List.map_filter (\<lambda>entry.
       Option.bind (path_strip_prefix (res_path entry) target) (\<lambda>relative_path.
         Option.bind (first_opt relative_path) (\<lambda>first_component.
           map_option (\<lambda>metadata_name. (join_path env (res_path entry) metadata_name, metadata_name))
             (metadata_path_name (as_os_str first_component)))))
       (filter (\<lambda>entry. can_write (res_access entry)) (resolved_entries_with_cwd env p cwd)))"

definition has_explicit_write_entry_for_metadata_path :: "fs_env \<Rightarrow> fs_policy \<Rightarrow> str \<Rightarrow> str \<Rightarrow> str \<Rightarrow> bool" where
  "has_explicit_write_entry_for_metadata_path env p protected_metadata_path target cwd \<longleftrightarrow>
     list_ex (\<lambda>entry. can_write (res_access entry) \<and> path_starts_with (res_path entry) target
       \<and> path_starts_with protected_metadata_path (res_path entry)) (resolved_entries_with_cwd env p cwd)"

definition is_metadata_write_denied :: "fs_env \<Rightarrow> fs_policy \<Rightarrow> str \<Rightarrow> str \<Rightarrow> bool" where
  "is_metadata_write_denied env p path cwd =
     (if kind p \<noteq> Restricted then False
      else (case resolve_candidate_path env path cwd of
              None \<Rightarrow> True
            | Some target \<Rightarrow>
                (case metadata_child_of_writable_root env p target cwd of
                   None \<Rightarrow> False
                 | Some (protected_metadata_path, _) \<Rightarrow>
                     \<not> has_explicit_write_entry_for_metadata_path env p protected_metadata_path target cwd)))"

definition can_write_path_with_cwd :: "fs_env \<Rightarrow> fs_policy \<Rightarrow> str \<Rightarrow> str \<Rightarrow> bool" where
  "can_write_path_with_cwd env p path cwd =
     (if \<not> can_write (resolve_access_with_cwd env p path cwd) then False
      else if has_full_disk_write_access p then True
      else \<not> is_metadata_write_denied env p path cwd)"

definition forbidden_agent_metadata_write :: "fs_env \<Rightarrow> str \<Rightarrow> str \<Rightarrow> fs_policy \<Rightarrow> str option" where
  "forbidden_agent_metadata_write env path cwd p =
     (if kind p \<noteq> Restricted then None
      else Option.bind (resolve_candidate_path env path cwd) (\<lambda>target.
        Option.bind (metadata_child_of_writable_root env p target cwd) (\<lambda>(protected_metadata_path, metadata_name).
          if has_explicit_write_entry_for_metadata_path env p protected_metadata_path target cwd then None
          else if \<not> can_write_path_with_cwd env p target cwd then Some metadata_name
          else None)))"

subsection \<open>Workspace roots\<close>

definition PROJECT_ROOTS_GLOB_PATTERN_PREFIX :: str where
  "PROJECT_ROOTS_GLOB_PATTERN_PREFIX = lit ''codex-project-roots://''"

definition project_roots_glob_pattern :: "str \<Rightarrow> str" where
  "project_roots_glob_pattern subpath = PROJECT_ROOTS_GLOB_PATTERN_PREFIX @ subpath"

definition parse_project_roots_glob_pattern :: "str \<Rightarrow> str option" where
  "parse_project_roots_glob_pattern pattern = strip_prefix PROJECT_ROOTS_GLOB_PATTERN_PREFIX pattern"

definition resolve_project_roots_glob_pattern :: "fs_env \<Rightarrow> str \<Rightarrow> str \<Rightarrow> str" where
  "resolve_project_roots_glob_pattern env subpath root = resolve_path_against_base (fs_home env) subpath root"

definition materialize_entry_with_cwd :: "fs_env \<Rightarrow> str option \<Rightarrow> fs_entry \<Rightarrow> fs_entry" where
  "materialize_entry_with_cwd env cwd entry =
     (case entry_path entry of
        Special (ProjectRoots _) \<Rightarrow>
          (case resolve_file_system_path env (entry_path entry) cwd of
             Some path \<Rightarrow> entry\<lparr>entry_path := PathEntry path\<rparr>
           | None \<Rightarrow> entry)
      | GlobPattern pattern \<Rightarrow>
          (case (cwd, parse_project_roots_glob_pattern pattern) of
             (Some cwd, Some subpath) \<Rightarrow>
               entry\<lparr>entry_path := GlobPattern (resolve_project_roots_glob_pattern env subpath cwd)\<rparr>
           | _ \<Rightarrow> entry)
      | _ \<Rightarrow> entry)"

definition materialize_project_roots_with_cwd :: "fs_env \<Rightarrow> fs_policy \<Rightarrow> str \<Rightarrow> fs_policy" where
  "materialize_project_roots_with_cwd env p cwd =
     p\<lparr>entries := map (materialize_entry_with_cwd env (abs_of env cwd)) (entries p)\<rparr>"

definition materialize_entry_with_roots :: "fs_env \<Rightarrow> str list \<Rightarrow> fs_entry \<Rightarrow> fs_entry list" where
  "materialize_entry_with_roots env workspace_roots entry =
     (case entry_path entry of
        Special (ProjectRoots subpath) \<Rightarrow>
          map (\<lambda>root. fs_entry_of (PathEntry
              (case subpath of Some subpath \<Rightarrow> resolve_path_against_base (fs_home env) subpath root | None \<Rightarrow> root))
            (entry_access entry)) workspace_roots
      | GlobPattern pattern \<Rightarrow>
          (case parse_project_roots_glob_pattern pattern of
             Some subpath \<Rightarrow>
               map (\<lambda>root. fs_entry_of (GlobPattern (resolve_project_roots_glob_pattern env subpath root))
                 (entry_access entry)) workspace_roots
           | None \<Rightarrow> [fs_entry_of (GlobPattern pattern) (entry_access entry)])
      | PathEntry path \<Rightarrow> [fs_entry_of (PathEntry path) (entry_access entry)]
      | Special v \<Rightarrow> [fs_entry_of (Special v) (entry_access entry)])"

definition materialize_project_roots_with_workspace_roots :: "fs_env \<Rightarrow> fs_policy \<Rightarrow> str list \<Rightarrow> fs_policy" where
  "materialize_project_roots_with_workspace_roots env p workspace_roots =
     p\<lparr>entries := concat (map (materialize_entry_with_roots env workspace_roots) (entries p))\<rparr>"

text \<open>The loops that push an entry unless it is present.\<close>

definition push_entry_if_new :: "fs_entry list \<Rightarrow> fs_entry \<Rightarrow> fs_entry list" where
  "push_entry_if_new es entry = (if list_ex (\<lambda>e. entry_eq e entry) es then es else es @ [entry])"

definition with_materialized_project_roots_for_workspace_roots :: "fs_env \<Rightarrow> fs_policy \<Rightarrow> str list \<Rightarrow> fs_policy" where
  "with_materialized_project_roots_for_workspace_roots env p workspace_roots =
     (let materialized = materialize_project_roots_with_workspace_roots env p workspace_roots
      in p\<lparr>entries := foldl push_entry_if_new (entries p) (entries materialized)\<rparr>)"

subsection \<open>More roots\<close>

definition with_additional_readable_roots :: "fs_env \<Rightarrow> fs_policy \<Rightarrow> str \<Rightarrow> str list \<Rightarrow> fs_policy" where
  "with_additional_readable_roots env p cwd additional_readable_roots =
     (if has_full_disk_read_access p then p
      else foldl (\<lambda>p path.
        if can_read_path_with_cwd env p path cwd then p
        else p\<lparr>entries := entries p @ [fs_entry_of (PathEntry path) Read]\<rparr>) p additional_readable_roots)"

definition with_additional_writable_roots :: "fs_env \<Rightarrow> fs_policy \<Rightarrow> str \<Rightarrow> str list \<Rightarrow> fs_policy" where
  "with_additional_writable_roots env p cwd additional_writable_roots =
     foldl (\<lambda>p path.
       if can_write_path_with_cwd env p path cwd then p
       else p\<lparr>entries := entries p @ [fs_entry_of (PathEntry path) Write]\<rparr>) p additional_writable_roots"

definition preserve_deny_read_restrictions_from :: "fs_policy \<Rightarrow> fs_policy \<Rightarrow> fs_policy" where
  "preserve_deny_read_restrictions_from self existing =
     (let has_deny_read_entries = list_ex (\<lambda>entry. entry_access entry = Deny) (entries existing);
          self = (if kind self = Unrestricted \<and> has_deny_read_entries
                  then restricted [fs_entry_of (Special Root) Write] else self)
      in if kind self \<noteq> Restricted then self
         else self\<lparr>glob_scan_max_depth := (case glob_scan_max_depth self of None \<Rightarrow> glob_scan_max_depth existing | d \<Rightarrow> d),
                entries := foldl push_entry_if_new (entries self)
                  (filter (\<lambda>entry. entry_access entry = Deny) (entries existing))\<rparr>)"

definition append_default_read_only_entry_if_no_explicit_rule :: "fs_entry list \<Rightarrow> fs_path \<Rightarrow> fs_entry list" where
  "append_default_read_only_entry_if_no_explicit_rule es path =
     (if list_ex (\<lambda>entry. file_system_paths_share_target (entry_path entry) path) es then es
      else es @ [fs_entry_of path Read])"

definition append_default_read_only_project_root_subpath_if_no_explicit_rule :: "fs_entry list \<Rightarrow> str \<Rightarrow> fs_entry list" where
  "append_default_read_only_project_root_subpath_if_no_explicit_rule es subpath =
     append_default_read_only_entry_if_no_explicit_rule es (Special (ProjectRoots (Some subpath)))"

definition append_default_read_only_path_if_no_explicit_rule :: "fs_entry list \<Rightarrow> str \<Rightarrow> fs_entry list" where
  "append_default_read_only_path_if_no_explicit_rule es path =
     append_default_read_only_entry_if_no_explicit_rule es (PathEntry path)"

subsection \<open>Pushed entries\<close>

lemma push_entries_keep: "e \<in> set es \<Longrightarrow> e \<in> set (foldl push_entry_if_new es ds)"
  by (induction ds arbitrary: es) (auto simp: push_entry_if_new_def)

lemma push_entries_add: "d \<in> set ds \<Longrightarrow> \<exists>e \<in> set (foldl push_entry_if_new es ds). e = d \<or> entry_eq e d"
proof (induction ds arbitrary: es)
  case (Cons d' ds)
  have "\<exists>e \<in> set (push_entry_if_new es d'). e = d' \<or> entry_eq e d'"
    by (auto simp: push_entry_if_new_def list_ex_iff)
  then obtain e where "e \<in> set (foldl push_entry_if_new (push_entry_if_new es d') ds)" "e = d' \<or> entry_eq e d'"
    using push_entries_keep by blast
  with Cons show ?case by (cases "d = d'") auto
qed simp

lemma push_entries_from: "e \<in> set (foldl push_entry_if_new es ds) \<Longrightarrow> e \<in> set es \<union> set ds"
  by (induction ds arbitrary: es) (force simp: push_entry_if_new_def split: if_splits)+

subsection \<open>Access by the most specific entry\<close>

lemma foldl_max_by_key:
  fixes f :: "'a \<Rightarrow> 'b::linorder"
  shows "foldl (\<lambda>m y. if f m \<le> f y then y else m) x xs \<in> set (x # xs) \<and>
   (\<forall>y \<in> set (x # xs). f y \<le> f (foldl (\<lambda>m y. if f m \<le> f y then y else m) x xs))"
proof (induction xs arbitrary: x)
  case (Cons y xs)
  define m where "m = (if f x \<le> f y then y else x)"
  have m: "f x \<le> f m" "f y \<le> f m" "m \<in> {x, y}" by (auto simp: m_def)
  from Cons [of m] m show ?case by (auto simp: m_def [symmetric] intro: order_trans)
qed simp

lemma max_by_key_Some:
  assumes "max_by_key f xs = Some m"
  shows "m \<in> set xs" "y \<in> set xs \<Longrightarrow> f y \<le> f m"
  using assms foldl_max_by_key [of f] by (auto simp: max_by_key_def split: list.splits)

lemma max_by_key_None [simp]: "max_by_key f xs = None \<longleftrightarrow> xs = []"
  by (simp add: max_by_key_def split: list.splits)

lemma path_starts_with_trans: "path_starts_with a b \<Longrightarrow> path_starts_with b c \<Longrightarrow> path_starts_with a c"
  by (auto simp: path_starts_with_def starts_with_iff)

lemma path_starts_with_refl [simp]: "path_starts_with p p"
  using starts_with_append [of "path_components p" "[]"] by (simp add: path_starts_with_def)

lemma path_starts_with_length: "path_starts_with a b \<Longrightarrow> length (path_components a) \<le> length (path_components b)"
  by (auto simp: path_starts_with_def starts_with_iff)

text \<open>Two ancestors of a path with equally many components are the same.\<close>

lemma path_starts_with_same_length:
  assumes "path_starts_with a p" "path_starts_with b p" "length (path_components a) = length (path_components b)"
  shows "path_eq a b"
  using assms by (auto simp: path_starts_with_def starts_with_iff path_eq_def append_eq_append_conv)

lemma path_starts_with_linear:
  assumes "path_starts_with a p" "path_starts_with b p" "length (path_components a) \<le> length (path_components b)"
  shows "path_starts_with a b"
proof -
  from assms(1,2) obtain as bs where "path_components p = path_components a @ as" "path_components p = path_components b @ bs"
    by (auto simp: path_starts_with_def starts_with_iff)
  then have "path_components a @ as = path_components b @ bs" by simp
  then obtain us where "path_components a = path_components b @ us \<or> path_components a @ us = path_components b"
    unfolding append_eq_append_conv2 by blast
  then have "path_components b = path_components a @ us"
  proof
    assume a: "path_components a = path_components b @ us"
    with assms(3) have "us = []" by simp
    with a show ?thesis by simp
  qed simp
  then show ?thesis by (simp add: path_starts_with_def starts_with_iff)
qed

text \<open>The entries that cover a path, and the access they give: that of the deepest ones, a denial
  before a write before a read.\<close>

definition covering :: "fs_env \<Rightarrow> fs_policy \<Rightarrow> str \<Rightarrow> str \<Rightarrow> resolved_entry list" where
  "covering env p target cwd = filter (\<lambda>entry. path_starts_with (res_path entry) target) (resolved_entries_with_cwd env p cwd)"

lemma resolve_access_entry:
  assumes "kind p = Restricted" "resolve_candidate_path env path cwd = Some target" "covering env p target cwd \<noteq> []"
  obtains e where "e \<in> set (covering env p target cwd)" "resolve_access_with_cwd env p path cwd = res_access e"
    "\<And>e'. e' \<in> set (covering env p target cwd) \<Longrightarrow> resolved_entry_precedence e' \<le> resolved_entry_precedence e"
proof -
  from assms(3) obtain e where e: "max_by_key resolved_entry_precedence (covering env p target cwd) = Some e"
    by (cases "max_by_key resolved_entry_precedence (covering env p target cwd)") auto
  show thesis
  proof (rule that [of e])
    show "resolve_access_with_cwd env p path cwd = res_access e"
      using assms e by (simp add: resolve_access_with_cwd_def covering_def)
  qed (use max_by_key_Some [OF e] in auto)
qed

lemma resolve_access_uncovered:
  assumes "kind p = Restricted" "resolve_candidate_path env path cwd = Some target" "covering env p target cwd = []"
  shows "resolve_access_with_cwd env p path cwd = Deny"
  using assms by (simp add: resolve_access_with_cwd_def covering_def max_by_key_def)

subsection \<open>Resolved paths are normal\<close>

definition fs_env_ok :: "fs_env \<Rightarrow> bool" where
  "fs_env_ok env = (case fs_current_dir env of Inr d \<Rightarrow> is_absolute d | Inl _ \<Rightarrow> True)"

definition policy_paths_ok :: "fs_policy \<Rightarrow> bool" where
  "policy_paths_ok p \<longleftrightarrow>
     (\<forall>entry \<in> set (entries p). \<forall>q. entry_path entry = PathEntry q \<longrightarrow> normal_path q)"

lemma abs_of_normal:
  assumes "fs_env_ok env" "abs_of env p = Some q"
  shows "normal_path q"
proof -
  let ?e = "maybe_expand_home_directory (fs_home env) p"
  show ?thesis
  proof (cases "is_absolute ?e")
    case True
    with assms(2) show ?thesis
      by (auto simp: abs_of_def from_absolute_path_def absolutize_def normalize_path_absolute)
  next
    case False
    with assms(2) obtain d where "fs_current_dir env = Inr d" "q = absolutize_from ?e d"
      by (cases "fs_current_dir env") (auto simp: abs_of_def from_absolute_path_def absolutize_def and_then_def)
    with assms(1) show ?thesis
      by (simp add: fs_env_ok_def absolutize_from_def normalize_path_absolute path_with_base_absolute)
  qed
qed

lemma abs_of_absolute: "is_absolute p \<Longrightarrow> abs_of env p = Some (normalize_path p)"
  by (simp add: abs_of_def from_absolute_path_def expand_home_absolute absolutize_def)

lemma abs_of_normal_path [simp]: "normal_path p \<Longrightarrow> abs_of env p = Some p"
  by (simp add: abs_of_absolute normal_path_absolute normalize_path_normal)

lemma resolve_candidate_normal:
  "fs_env_ok env \<Longrightarrow> resolve_candidate_path env path cwd = Some target \<Longrightarrow> normal_path target"
  by (auto simp: resolve_candidate_path_def join_path_def abs_join_def split: if_splits
      intro: abs_of_normal resolve_normal normal_path_absolute)

lemma resolve_candidate_of_normal [simp]: "normal_path p \<Longrightarrow> resolve_candidate_path env p cwd = Some p"
  by (simp add: resolve_candidate_path_def normal_path_absolute)

lemma normal_path_components:
  assumes "normal_path p"
  obtains names where "list_all valid_name names" "p = abs_path names" "path_components p = RootDir # map Normal names"
  using assms path_components_abs_path unfolding normal_path_def by blast

lemma normal_path_eq: "normal_path p \<Longrightarrow> normal_path q \<Longrightarrow> path_eq p q \<longleftrightarrow> p = q"
  by (metis normal_path_components path_eq_def list.inject map_injective injI component.inject)

lemma normal_root: "normal_path [slash]" "path_components [slash] = [RootDir]"
  using path_components_abs_path [of "[]"] by (auto simp: normal_path_def abs_path_def intro: exI [of _ "[]"])

lemma root_covers: "normal_path p \<Longrightarrow> path_starts_with [slash] p"
  by (elim normal_path_components) (simp add: path_starts_with_def normal_root starts_with_def)

lemma normal_path_no_parent:
  assumes "normal_path p" "path_parent p = None"
  shows "p = [slash]"
proof -
  from assms(1) obtain names where "list_all valid_name names" "p = abs_path names" by (auto simp: normal_path_def)
  with assms(2) show ?thesis by (cases "names = []") (simp_all add: path_parent_abs_path, simp add: abs_path_def)
qed

lemma last_parents_of:
  assumes "list_all valid_name names" "names \<noteq> []"
  shows "parents_of (RootDir # map Normal names) \<noteq> [] \<and> last (parents_of (RootDir # map Normal names)) = [slash]"
  using assms
proof (induction names rule: rev_induct)
  case (snoc n names)
  have b: "butlast (RootDir # map Normal (names @ [n])) = RootDir # map Normal names"
    by (simp add: butlast_append)
  have step: "parents_of (RootDir # map Normal (names @ [n])) =
      path_of_components (RootDir # map Normal names) # parents_of (RootDir # map Normal names)"
    by (subst parents_of.simps) (simp only: b, simp)
  show ?case
  proof (cases "names = []")
    case True
    with step show ?thesis
      by (simp add: parents_of.simps path_of_components_def path_push_def lit_slash)
  next
    case False
    with snoc step show ?thesis by simp
  qed
qed simp

lemma absolute_root_path: "normal_path c \<Longrightarrow> absolute_root_path_for_cwd env c = Some [slash]"
proof (elim normal_path_components)
  fix names
  assume n: "list_all valid_name names" "c = abs_path names" "path_components c = RootDir # map Normal names"
  have "last (path_ancestors c) = [slash]"
  proof (cases "names = []")
    case True
    with n show ?thesis by (simp add: path_ancestors_def parents_of.simps abs_path_def)
  next
    case False
    with n last_parents_of [OF n(1) False] show ?thesis by (simp add: path_ancestors_def)
  qed
  then show ?thesis by (simp add: absolute_root_path_for_cwd_def normal_root)
qed

lemma normal_tmp: "normal_path (lit ''/tmp'')"
  unfolding normal_path_def by (rule exI [of _ "[lit ''tmp'']"]) code_simp

lemma resolve_entry_normal:
  assumes "fs_env_ok env" "abs_of env cwd = Some c" "\<And>q. path = PathEntry q \<Longrightarrow> normal_path q"
    and "resolve_entry_path env path (Some c) = Some r"
  shows "normal_path r"
proof -
  have c: "normal_path c" by (rule abs_of_normal [OF assms(1,2)])
  show ?thesis
  proof (cases path)
    case (Special v)
    with assms(1,4) c show ?thesis
      by (cases v) (auto simp: resolve_entry_path_def absolute_root_path normal_root normal_tmp normal_path_absolute resolve_normal
          split: option.splits if_splits bind_splits intro: abs_of_normal)
  qed (use assms in \<open>auto simp: resolve_entry_path_def\<close>)
qed

lemma resolved_entries_iff:
  "e \<in> set (resolved_entries_with_cwd env p cwd) \<longleftrightarrow>
     (\<exists>x \<in> set (entries p). resolve_entry_path env (entry_path x) (abs_of env cwd) = Some (res_path e) \<and>
        entry_access x = res_access e)"
proof -
  have "map_option (\<lambda>path. \<lparr>res_path = path, res_access = entry_access x\<rparr>) r = Some e \<longleftrightarrow>
      r = Some (res_path e) \<and> entry_access x = res_access e" for x r
    by (cases e) auto
  then show ?thesis by (auto simp: resolved_entries_with_cwd_def List.map_filter_def image_iff; blast)
qed

lemma resolved_entries_normal:
  assumes "fs_env_ok env" "abs_of env cwd = Some c" "policy_paths_ok p" "e \<in> set (resolved_entries_with_cwd env p cwd)"
  shows "normal_path (res_path e)"
proof -
  from assms(2,4) obtain x where x: "x \<in> set (entries p)"
    "resolve_entry_path env (entry_path x) (Some c) = Some (res_path e)" by (auto simp: resolved_entries_iff)
  show ?thesis
    by (rule resolve_entry_normal [OF assms(1,2) _ x(2)]) (use assms(3) x(1) in \<open>auto simp: policy_paths_ok_def\<close>)
qed

subsection \<open>Entries with the same target\<close>

lemma share_target_resolves:
  assumes "fs_env_ok env" "abs_of env cwd = Some c" "fs_is_dir env (lit ''/tmp'')"
    and "\<And>q. a = PathEntry q \<Longrightarrow> normal_path q" "\<And>q. b = PathEntry q \<Longrightarrow> normal_path q"
    and "file_system_paths_share_target a b" "resolve_entry_path env b (Some c) = Some r"
  shows "resolve_entry_path env a (Some c) = Some r"
proof -
  have c: "normal_path c" by (rule abs_of_normal [OF assms(1,2)])
  have tmp: "resolve_entry_path env (Special SlashTmp) (Some c) = Some (lit ''/tmp'')"
    using assms(3) by (simp add: resolve_entry_path_def normal_tmp)
  have root: "resolve_entry_path env (Special Root) (Some c) = Some [slash]"
    by (simp add: resolve_entry_path_def absolute_root_path c)
  have path: "resolve_entry_path env (PathEntry q) (Some c) = Some q" for q by (simp add: resolve_entry_path_def)
  have spec: "resolve_entry_path env (Special v) (Some c) = Some q"
    if "normal_path q" "special_path_matches_absolute_path v q" for v q
    using that root tmp normal_path_no_parent [of q] by (cases v) (auto simp: normal_path_eq normal_tmp)
  show ?thesis
  proof (cases a)
    case (PathEntry q)
    then show ?thesis
      using assms(4,6,7) spec [of q] path by (cases b) auto
  next
    case (GlobPattern g)
    with assms(6,7) show ?thesis by (cases b) (auto simp: resolve_entry_path_def)
  next
    case (Special v)
    show ?thesis
    proof (cases b)
      case (PathEntry q)
      then show ?thesis
        using Special assms(5,6,7) spec [of q v] path by auto
    next
      case (GlobPattern g)
      with Special assms(6) show ?thesis by simp
    next
      case b: (Special w)
      show ?thesis
      proof (cases "\<exists>l. v = ProjectRoots l")
        case True
        then obtain l where l: "v = ProjectRoots l" by blast
        with Special b assms(6) obtain l' where "w = ProjectRoots l'" "rel_option path_eq l l'" by (cases w) auto
        with Special b l assms(7) show ?thesis
          by (cases l; cases l') (auto simp: resolve_entry_path_def resolve_path_eq normal_path_absolute c)
      next
        case False
        with Special b assms(6,7) show ?thesis by (cases v; cases w) (auto simp: resolve_entry_path_def)
      qed
    qed
  qed
qed

subsection \<open>Access to single paths\<close>

text \<open>The access that the entries covering a path give it: the deepest entries decide, and among
  them a denial wins over a write and a write over a read.\<close>

definition depth_of :: "resolved_entry \<Rightarrow> nat" where
  "depth_of e = length (path_components (res_path e))"

definition deepest :: "resolved_entry list \<Rightarrow> resolved_entry list" where
  "deepest es = filter (\<lambda>e. list_all (\<lambda>e'. depth_of e' \<le> depth_of e) es) es"

definition spec_access :: "resolved_entry list \<Rightarrow> access_mode" where
  "spec_access es =
     (if es = [] then Deny
      else if Deny \<in> res_access ` set (deepest es) then Deny
      else if Write \<in> res_access ` set (deepest es) then Write
      else Read)"

lemma resolved_entry_precedence_le:
  "resolved_entry_precedence a \<le> resolved_entry_precedence b \<longleftrightarrow>
     depth_of a < depth_of b \<or> depth_of a = depth_of b \<and> res_access a \<le> res_access b"
  by (auto simp: resolved_entry_precedence_def depth_of_def)

lemma spec_access_greatest:
  assumes "e \<in> set es" "\<And>e'. e' \<in> set es \<Longrightarrow> resolved_entry_precedence e' \<le> resolved_entry_precedence e"
  shows "spec_access es = res_access e"
proof -
  have e: "e \<in> set (deepest es)"
    using assms by (fastforce simp: deepest_def list_all_iff resolved_entry_precedence_le)
  have le: "res_access e' \<le> res_access e" if "e' \<in> set (deepest es)" for e'
    using that assms(1) assms(2) [of e'] by (auto simp: deepest_def list_all_iff resolved_entry_precedence_le)
  have "spec_access es = (if Deny \<in> res_access ` set (deepest es) then Deny
      else if Write \<in> res_access ` set (deepest es) then Write else Read)"
    using assms(1) by (auto simp: spec_access_def)
  also have "\<dots> = res_access e"
  proof (cases "res_access e")
    case Deny
    with e show ?thesis by force
  next
    case Write
    with e le show ?thesis by (force simp: less_eq_access_mode_def)
  next
    case Read
    with le show ?thesis by (force simp: less_eq_access_mode_def)
  qed
  finally show ?thesis .
qed

lemma deepest_same_path:
  assumes "a \<in> set (deepest (covering env p target cwd))" "b \<in> set (deepest (covering env p target cwd))"
  shows "path_eq (res_path a) (res_path b)"
proof -
  have "depth_of a \<le> depth_of b" "depth_of b \<le> depth_of a"
    "path_starts_with (res_path a) target" "path_starts_with (res_path b) target"
    using assms by (auto simp: deepest_def covering_def list_all_iff)
  then show ?thesis by (intro path_starts_with_same_length [of _ target]) (auto simp: depth_of_def)
qed

text \<open>C16. Access is decided by the deepest entries that cover a path, all of which name the same
  path: a denial wins over a write, a write over a read, and a path that no entry covers is denied.
  The order of the entries does not matter.\<close>

theorem access_by_deepest_entry:
  assumes "kind p = Restricted" "resolve_candidate_path env path cwd = Some target"
  shows "resolve_access_with_cwd env p path cwd = spec_access (covering env p target cwd)
    \<and> (\<forall>a \<in> set (deepest (covering env p target cwd)). \<forall>b \<in> set (deepest (covering env p target cwd)).
         path_eq (res_path a) (res_path b))"
proof
  show "resolve_access_with_cwd env p path cwd = spec_access (covering env p target cwd)"
  proof (cases "covering env p target cwd = []")
    case True
    then show ?thesis using resolve_access_uncovered [OF assms True] by (simp add: spec_access_def)
  next
    case False
    from resolve_access_entry [OF assms False] obtain e where
      "e \<in> set (covering env p target cwd)" "resolve_access_with_cwd env p path cwd = res_access e"
      "\<And>e'. e' \<in> set (covering env p target cwd) \<Longrightarrow> resolved_entry_precedence e' \<le> resolved_entry_precedence e"
      by blast
    then show ?thesis using spec_access_greatest by metis
  qed
qed (use deepest_same_path in blast)

definition sample_env :: fs_env where
  "sample_env =
     \<lparr>fs_home = None, fs_current_dir = Inr (lit ''/w''), fs_tmpdir = None, fs_is_dir = (\<lambda>p. p = lit ''/tmp''),
      fs_is_file = (\<lambda>p. False), fs_exists = (\<lambda>p. p = lit ''/tmp''), fs_read_to_string = (\<lambda>p. None),
      fs_symlink_metadata = (\<lambda>p. None), fs_canonicalize = (\<lambda>p. None)\<rparr>"

definition sample_policy :: fs_policy where
  "sample_policy = restricted
     [fs_entry_of (Special Root) Read, fs_entry_of (Special (ProjectRoots None)) Write,
      fs_entry_of (PathEntry (lit ''/w/private'')) Deny, fs_entry_of (PathEntry (lit ''/w/private'')) Write]"

theorem access_by_deepest_entry_witness:
  "resolve_access_with_cwd sample_env sample_policy (lit ''private/key'') (lit ''/w'') =
     spec_access (covering sample_env sample_policy (lit ''/w/private/key'') (lit ''/w''))
   \<and> spec_access (covering sample_env sample_policy (lit ''/w/private/key'') (lit ''/w'')) = Deny"
proof -
  have "kind sample_policy = Restricted" by code_simp
  moreover have "resolve_candidate_path sample_env (lit ''private/key'') (lit ''/w'') = Some (lit ''/w/private/key'')"
    by code_simp
  ultimately have "resolve_access_with_cwd sample_env sample_policy (lit ''private/key'') (lit ''/w'') =
     spec_access (covering sample_env sample_policy (lit ''/w/private/key'') (lit ''/w''))"
    using access_by_deepest_entry by blast
  moreover have "spec_access (covering sample_env sample_policy (lit ''/w/private/key'') (lit ''/w'')) = Deny" by code_simp
  ultimately show ?thesis by blast
qed

subsection \<open>The whole disk\<close>

lemma has_root_access_iff:
  "has_root_access p predicate \<longleftrightarrow>
     kind p = Restricted \<and> (\<exists>x \<in> set (entries p). entry_path x = Special Root \<and> predicate (entry_access x))"
proof -
  have "(case q of Special Root \<Rightarrow> b | _ \<Rightarrow> False) \<longleftrightarrow> q = Special Root \<and> b" for q b
    by (simp split: fs_path.split special_path.split)
  then show ?thesis by (simp add: has_root_access_def list_ex_iff)
qed

lemma can_write_iff: "can_write a \<longleftrightarrow> a = Write"
  by (cases a) simp_all

lemma coveringI:
  assumes "x \<in> set (entries p)" "resolve_entry_path env (entry_path x) (abs_of env cwd) = Some q" "path_starts_with q target"
  shows "\<lparr>res_path = q, res_access = entry_access x\<rparr> \<in> set (covering env p target cwd)"
proof -
  have "\<lparr>res_path = q, res_access = entry_access x\<rparr> \<in> set (resolved_entries_with_cwd env p cwd)"
    unfolding resolved_entries_iff using assms(1,2) by (intro bexI [of _ x]) simp_all
  with assms(3) show ?thesis by (simp add: covering_def)
qed

lemma coveringE:
  assumes "e \<in> set (covering env p target cwd)"
  obtains x where "x \<in> set (entries p)" "resolve_entry_path env (entry_path x) (abs_of env cwd) = Some (res_path e)"
    "entry_access x = res_access e" "path_starts_with (res_path e) target"
proof -
  from assms have "e \<in> set (resolved_entries_with_cwd env p cwd)" "path_starts_with (res_path e) target"
    by (simp_all add: covering_def)
  with that show thesis unfolding resolved_entries_iff by blast
qed

lemma resolve_root_entry:
  "fs_env_ok env \<Longrightarrow> abs_of env cwd = Some c \<Longrightarrow> resolve_entry_path env (Special Root) (abs_of env cwd) = Some [slash]"
  using abs_of_normal by (simp add: resolve_entry_path_def absolute_root_path)

lemma full_disk_read_access:
  assumes "fs_env_ok env" "abs_of env cwd = Some c" "resolve_candidate_path env path cwd = Some target"
    and "has_full_disk_read_access p"
  shows "can_read_path_with_cwd env p path cwd"
proof (cases "kind p = Restricted")
  case True
  with assms(4) obtain x where x: "x \<in> set (entries p)" "entry_path x = Special Root"
    and no_deny: "\<And>y. y \<in> set (entries p) \<Longrightarrow> entry_access y \<noteq> Deny"
    by (auto simp: has_full_disk_read_access_def has_root_access_iff has_denied_read_restrictions_def list_ex_iff)
  have t: "normal_path target" by (rule resolve_candidate_normal [OF assms(1,3)])
  have "covering env p target cwd \<noteq> []"
    using coveringI [OF x(1) _ root_covers [OF t]] resolve_root_entry [OF assms(1,2)] x(2) by fastforce
  note ne = this
  from resolve_access_entry [OF True assms(3) ne] obtain e where
    "e \<in> set (covering env p target cwd)" "resolve_access_with_cwd env p path cwd = res_access e" by blast
  with no_deny show ?thesis
    by (cases "res_access e") (auto simp: can_read_path_with_cwd_def elim!: coveringE)
qed (simp add: can_read_path_with_cwd_def resolve_access_with_cwd_def)

lemma full_disk_write_access:
  assumes "fs_env_ok env" "abs_of env cwd = Some c" "resolve_candidate_path env path cwd = Some target"
    and "policy_paths_ok p" "fs_is_dir env (lit ''/tmp'')" "has_full_disk_write_access p"
  shows "can_write_path_with_cwd env p path cwd"
proof (cases "kind p = Restricted")
  case True
  with assms(6) obtain w where w: "w \<in> set (entries p)" "entry_path w = Special Root" "entry_access w = Write"
    and narrow: "\<And>y. y \<in> set (entries p) \<Longrightarrow> \<not> write_narrowing_entry p y"
    by (auto simp: has_full_disk_write_access_def has_root_access_iff has_write_narrowing_entries_def list_ex_iff can_write_iff)
  have c: "normal_path c" by (rule abs_of_normal [OF assms(1,2)])
  have t: "normal_path target" by (rule resolve_candidate_normal [OF assms(1,3)])
  have root: "resolve_entry_path env (Special Root) (Some c) = Some [slash]"
    using resolve_root_entry [OF assms(1,2)] assms(2) by simp
  have ne: "covering env p target cwd \<noteq> []"
    using coveringI [OF w(1) _ root_covers [OF t]] resolve_root_entry [OF assms(1,2)] w(2) by fastforce
  from resolve_access_entry [OF True assms(3) ne] obtain e where
    e: "e \<in> set (covering env p target cwd)" "resolve_access_with_cwd env p path cwd = res_access e" and
    max: "\<And>e'. e' \<in> set (covering env p target cwd) \<Longrightarrow> resolved_entry_precedence e' \<le> resolved_entry_precedence e"
    by blast
  from e(1) obtain x where x: "x \<in> set (entries p)" "resolve_entry_path env (entry_path x) (Some c) = Some (res_path e)"
    "entry_access x = res_access e" "path_starts_with (res_path e) target"
    using assms(2) by (elim coveringE) simp
  have "res_access e = Write"
  proof (rule ccontr)
    assume nw: "res_access e \<noteq> Write"
    have "\<exists>y \<in> set (entries p). entry_access y = Write \<and> entry_access x < Write
        \<and> resolve_entry_path env (entry_path y) (Some c) = Some (res_path e)"
    proof (cases "entry_path x = Special Root")
      case True
      with narrow [OF x(1)] nw x(3) have "res_access e = Read"
        by (cases "res_access e") (auto simp: write_narrowing_entry_def)
      with True w x show ?thesis by (auto simp: less_access_mode_def)
    next
      case False
      with narrow [OF x(1)] nw x have "has_same_target_write_override p x"
        by (cases "res_access e")
          (auto simp: write_narrowing_entry_def resolve_entry_path_def split: fs_path.splits special_path.splits)
      then obtain y where y: "y \<in> set (entries p)" "entry_access y = Write" "entry_access x < Write"
        "file_system_paths_share_target (entry_path y) (entry_path x)"
        by (auto simp: has_same_target_write_override_def list_ex_iff can_write_iff)
      have "resolve_entry_path env (entry_path y) (Some c) = Some (res_path e)"
        by (rule share_target_resolves [OF assms(1,2,5) _ _ y(4) x(2)])
          (use assms(4) x(1) y(1) in \<open>auto simp: policy_paths_ok_def\<close>)
      with y show ?thesis by blast
    qed
    then obtain y where y: "y \<in> set (entries p)" "entry_access y = Write" "res_access e < Write"
      "resolve_entry_path env (entry_path y) (abs_of env cwd) = Some (res_path e)"
      using x(3) assms(2) by auto
    from max [OF coveringI [OF y(1,4) x(4)]] y(2,3) show False by (simp add: resolved_entry_precedence_le depth_of_def)
  qed
  with e(2) assms(6) show ?thesis by (simp add: can_write_path_with_cwd_def)
qed (use assms(6) in \<open>simp add: can_write_path_with_cwd_def resolve_access_with_cwd_def\<close>)

text \<open>The answers about the whole disk hold for each path: with full read access every path can
  be read, with full write access every path can be written, metadata included.  Paths of entries
  are normal, the working directory resolves and \<open>/tmp\<close> is a directory.\<close>

theorem full_disk_access_sound:
  assumes "fs_env_ok env" "abs_of env cwd \<noteq> None" "resolve_candidate_path env path cwd \<noteq> None"
    and "policy_paths_ok p" "fs_is_dir env (lit ''/tmp'')"
  shows "(has_full_disk_read_access p \<longrightarrow> can_read_path_with_cwd env p path cwd)
    \<and> (has_full_disk_write_access p \<longrightarrow> can_write_path_with_cwd env p path cwd)"
  using assms full_disk_read_access full_disk_write_access by blast

definition full_disk_policy :: fs_policy where
  "full_disk_policy = restricted
     [fs_entry_of (Special Root) Write, fs_entry_of (PathEntry (lit ''/tmp'')) Read, fs_entry_of (Special SlashTmp) Write]"

theorem full_disk_access_sound_witness:
  "can_read_path_with_cwd sample_env full_disk_policy (lit ''/tmp/.git/config'') (lit ''/w'')
   \<and> can_write_path_with_cwd sample_env full_disk_policy (lit ''/tmp/.git/config'') (lit ''/w'')"
proof -
  have "fs_env_ok sample_env" "abs_of sample_env (lit ''/w'') \<noteq> None"
    "resolve_candidate_path sample_env (lit ''/tmp/.git/config'') (lit ''/w'') \<noteq> None"
    "fs_is_dir sample_env (lit ''/tmp'')" by code_simp+
  moreover have "policy_paths_ok full_disk_policy"
    using normal_tmp by (simp add: policy_paths_ok_def full_disk_policy_def restricted_def fs_entry_of_def)
  moreover have "has_full_disk_read_access full_disk_policy" "has_full_disk_write_access full_disk_policy" by code_simp+
  ultimately show ?thesis using full_disk_access_sound by blast
qed

subsection \<open>Protected metadata\<close>

lemma metadata_names_plain:
  assumes "n \<in> set PROTECTED_METADATA_PATH_NAMES"
  shows "valid_name n" "hd (split_on slash n) \<noteq> lit ''~''"
proof -
  have "list_all (\<lambda>n. valid_name n \<and> hd (split_on slash n) \<noteq> lit ''~'') PROTECTED_METADATA_PATH_NAMES" by code_simp
  with assms show "valid_name n" "hd (split_on slash n) \<noteq> lit ''~''" by (auto simp: list_all_iff)
qed

lemma normal_abs_path: "list_all valid_name names \<Longrightarrow> normal_path (abs_path names)"
  unfolding normal_path_def by blast

lemma join_plain_name:
  assumes "normal_path q" "valid_name n" "hd (split_on slash n) \<noteq> lit ''~''"
  shows "normal_path (join_path env q n)" "path_components (join_path env q n) = path_components q @ [Normal n]"
proof -
  from assms(1) obtain names where names: "list_all valid_name names" "q = abs_path names" by (auto simp: normal_path_def)
  then have more: "list_all valid_name (names @ [n])" using assms(2) by simp
  have "join_path env q n = normalize_path (abs_path (names @ [n]))"
    using names assms by (simp add: join_path_def abs_join_def resolve_path_against_base_def expand_home_other
        absolutize_from_def path_with_base_def valid_name_not_absolute path_push_name)
  also have "\<dots> = abs_path (names @ [n])"
    by (rule normalize_path_normal [OF normal_abs_path [OF more]])
  finally show "normal_path (join_path env q n)" "path_components (join_path env q n) = path_components q @ [Normal n]"
    using normal_abs_path [OF more] names path_components_abs_path [OF more] path_components_abs_path [OF names(1)]
    by simp_all
qed

lemmas join_metadata = join_plain_name [OF _ metadata_names_plain]

lemma metadata_path_name_Some: "metadata_path_name n = Some m \<longleftrightarrow> m = n \<and> n \<in> set PROTECTED_METADATA_PATH_NAMES"
  by (auto simp: metadata_path_name_def find_Some_iff find_None_iff PROTECTED_METADATA_PATH_NAMES_def)

definition write_entries :: "fs_env \<Rightarrow> fs_policy \<Rightarrow> str \<Rightarrow> resolved_entry list" where
  "write_entries env p cwd = filter (\<lambda>entry. can_write (res_access entry)) (resolved_entries_with_cwd env p cwd)"

text \<open>The entry by which the metadata check judges a target: the first writable one, in the order of
  the policy, that has the target inside one of its metadata directories.\<close>

definition metadata_hit :: "resolved_entry \<Rightarrow> str \<Rightarrow> str \<Rightarrow> bool" where
  "metadata_hit e n target \<longleftrightarrow>
     n \<in> set PROTECTED_METADATA_PATH_NAMES \<and> (\<exists>rest. path_components target = path_components (res_path e) @ Normal n # rest)"

lemma normal_suffix:
  assumes "normal_path q" "normal_path t" "path_components t = path_components q @ cs"
  obtains names where "cs = map Normal names"
proof -
  from assms(1,2) obtain a b where "path_components q = RootDir # map Normal a" "path_components t = RootDir # map Normal b"
    by (metis normal_path_components)
  with assms(3) have "map Normal b = map Normal a @ cs" by simp
  then have "cs = map Normal (drop (length a) b)" by (metis append_eq_conv_conj drop_map length_map)
  with that show thesis .
qed

lemma write_entries_normal:
  assumes "fs_env_ok env" "abs_of env cwd = Some c" "policy_paths_ok p" "e \<in> set (write_entries env p cwd)"
  shows "normal_path (res_path e)"
  using assms resolved_entries_normal by (simp add: write_entries_def)

lemma metadata_child_eq:
  assumes "fs_env_ok env" "abs_of env cwd = Some c" "policy_paths_ok p" "normal_path target"
  shows "metadata_child_of_writable_root env p target cwd =
    first_opt (List.map_filter (\<lambda>e. map_option (\<lambda>n. (join_path env (res_path e) n, n))
      (find (\<lambda>n. metadata_hit e n target) PROTECTED_METADATA_PATH_NAMES)) (write_entries env p cwd))"
proof -
  have "Option.bind (path_strip_prefix (res_path e) target) (\<lambda>relative_path.
         Option.bind (first_opt relative_path) (\<lambda>c.
           map_option (\<lambda>n. (join_path env (res_path e) n, n)) (metadata_path_name (as_os_str c)))) =
      map_option (\<lambda>n. (join_path env (res_path e) n, n)) (find (\<lambda>n. metadata_hit e n target) PROTECTED_METADATA_PATH_NAMES)"
    (is "?l = map_option _ ?r") if "e \<in> set (write_entries env p cwd)" for e
  proof (cases "path_strip_prefix (res_path e) target")
    case None
    then have "?r = None" by (auto simp: find_None_iff metadata_hit_def path_strip_prefix_def)
    with None show ?thesis by simp
  next
    case (Some rest)
    then have t: "path_components target = path_components (res_path e) @ rest"
      by (simp add: path_strip_prefix_def strip_prefix_Some)
    from normal_suffix [OF write_entries_normal [OF assms(1-3) that] assms(4) t] obtain names where rest: "rest = map Normal names" .
    show ?thesis
    proof (cases names)
      case Nil
      with rest t have "?r = None" by (auto simp: find_None_iff metadata_hit_def)
      with Some rest Nil show ?thesis by (simp add: first_opt_def)
    next
      case (Cons m ms)
      have "metadata_hit e n target \<longleftrightarrow> n = m \<and> n \<in> set PROTECTED_METADATA_PATH_NAMES" for n
        using t rest Cons by (auto simp: metadata_hit_def)
      then have "find (\<lambda>n. metadata_hit e n target) PROTECTED_METADATA_PATH_NAMES = metadata_path_name m"
        unfolding metadata_path_name_def by (auto intro: find_cong)
      with Some rest Cons show ?thesis by (simp add: first_opt_def)
    qed
  qed
  then show ?thesis
    unfolding metadata_child_of_writable_root_def write_entries_def [symmetric]
    by (auto simp: List.map_filter_def intro!: arg_cong [of _ _ first_opt] map_cong filter_cong)
qed

lemma explicit_write_iff:
  "has_explicit_write_entry_for_metadata_path env p m target cwd \<longleftrightarrow>
     (\<exists>e \<in> set (write_entries env p cwd). path_starts_with (res_path e) target \<and> path_starts_with m (res_path e))"
  by (auto simp: has_explicit_write_entry_for_metadata_path_def list_ex_iff write_entries_def)

lemma metadata_hit_join:
  assumes "normal_path (res_path e)" "n \<in> set PROTECTED_METADATA_PATH_NAMES"
  shows "path_starts_with (join_path env (res_path e) n) target \<longleftrightarrow> metadata_hit e n target"
  using join_metadata(2) [OF assms(1) assms(2) assms(2)] assms(2)
  by (auto simp: path_starts_with_def starts_with_iff metadata_hit_def)

lemma first_opt_map_filter:
  "first_opt (List.map_filter f xs) = Some z \<longleftrightarrow>
     (\<exists>ys x zs. xs = ys @ x # zs \<and> f x = Some z \<and> (\<forall>y \<in> set ys. f y = None))"
proof
  assume "first_opt (List.map_filter f xs) = Some z"
  then show "\<exists>ys x zs. xs = ys @ x # zs \<and> f x = Some z \<and> (\<forall>y \<in> set ys. f y = None)"
  proof (induction xs)
    case (Cons a xs)
    show ?case
    proof (cases "f a")
      case None
      with Cons obtain ys x zs where "xs = ys @ x # zs" "f x = Some z" "\<forall>y \<in> set ys. f y = None"
        by (auto simp: List.map_filter_def)
      with None show ?thesis by (intro exI [of _ "a # ys"] exI [of _ x] exI [of _ zs]) simp
    next
      case (Some b)
      with Cons.prems have "b = z" by (simp add: List.map_filter_def first_opt_def)
      with Some show ?thesis by (intro exI [of _ "[]"] exI [of _ a] exI [of _ xs]) simp
    qed
  qed (simp add: List.map_filter_def first_opt_def)
next
  assume "\<exists>ys x zs. xs = ys @ x # zs \<and> f x = Some z \<and> (\<forall>y \<in> set ys. f y = None)"
  then show "first_opt (List.map_filter f xs) = Some z"
    by (elim exE conjE) (simp add: List.map_filter_def first_opt_def)
qed

lemma metadata_hit_unique: "metadata_hit e n target \<Longrightarrow> metadata_hit e m target \<Longrightarrow> n = m"
  by (auto simp: metadata_hit_def)

lemma find_metadata_hit:
  "find (\<lambda>n. metadata_hit e n target) PROTECTED_METADATA_PATH_NAMES = Some m \<longleftrightarrow> metadata_hit e m target"
  "find (\<lambda>n. metadata_hit e n target) PROTECTED_METADATA_PATH_NAMES = None \<longleftrightarrow> (\<forall>n. \<not> metadata_hit e n target)"
proof -
  show none: "find (\<lambda>n. metadata_hit e n target) PROTECTED_METADATA_PATH_NAMES = None \<longleftrightarrow> (\<forall>n. \<not> metadata_hit e n target)"
    by (auto simp: find_None_iff metadata_hit_def)
  show "find (\<lambda>n. metadata_hit e n target) PROTECTED_METADATA_PATH_NAMES = Some m \<longleftrightarrow> metadata_hit e m target"
  proof
    assume "find (\<lambda>n. metadata_hit e n target) PROTECTED_METADATA_PATH_NAMES = Some m"
    then show "metadata_hit e m target" by (auto simp: find_Some_iff)
  next
    assume m: "metadata_hit e m target"
    with none obtain n where n: "find (\<lambda>n. metadata_hit e n target) PROTECTED_METADATA_PATH_NAMES = Some n" by fastforce
    then have "metadata_hit e n target" by (auto simp: find_Some_iff)
    with m n show "find (\<lambda>n. metadata_hit e n target) PROTECTED_METADATA_PATH_NAMES = Some m"
      using metadata_hit_unique by metis
  qed
qed

lemma metadata_child_iff:
  assumes "fs_env_ok env" "abs_of env cwd = Some c" "policy_paths_ok p" "normal_path target"
  shows "metadata_child_of_writable_root env p target cwd = Some (q, m) \<longleftrightarrow>
    (\<exists>ys e zs. write_entries env p cwd = ys @ e # zs \<and> metadata_hit e m target \<and> q = join_path env (res_path e) m
      \<and> (\<forall>y \<in> set ys. \<forall>n. \<not> metadata_hit y n target))"
proof -
  let ?f = "\<lambda>e. map_option (\<lambda>n. (join_path env (res_path e) n, n))
    (find (\<lambda>n. metadata_hit e n target) PROTECTED_METADATA_PATH_NAMES)"
  have some: "?f e = Some (q, m) \<longleftrightarrow> metadata_hit e m target \<and> q = join_path env (res_path e) m" for e
  proof -
    have "map_option (\<lambda>n. (g n, n)) r = Some (q, m) \<longleftrightarrow> r = Some m \<and> q = g m" for r and g :: "str \<Rightarrow> str"
      by (cases r) auto
    then show ?thesis by (simp only: find_metadata_hit(1))
  qed
  have none: "?f e = None \<longleftrightarrow> (\<forall>n. \<not> metadata_hit e n target)" for e
    by (simp add: find_metadata_hit(2))
  show ?thesis unfolding metadata_child_eq [OF assms] first_opt_map_filter some none by (simp only: conj_assoc)
qed

lemma metadata_child_None:
  assumes "fs_env_ok env" "abs_of env cwd = Some c" "policy_paths_ok p" "normal_path target"
    and "metadata_child_of_writable_root env p target cwd = None" "e \<in> set (write_entries env p cwd)"
  shows "\<not> metadata_hit e n target"
proof -
  have empty: "first_opt xs = None \<longleftrightarrow> xs = []" for xs :: "'x list" by (simp add: first_opt_def split: list.split)
  have "find (\<lambda>n. metadata_hit e n target) PROTECTED_METADATA_PATH_NAMES = None"
    using assms(5,6) unfolding metadata_child_eq [OF assms(1-4)]
    by (auto simp: empty List.map_filter_def filter_empty_conv)
  then show ?thesis by (simp add: find_metadata_hit)
qed

lemma metadata_child_Some:
  assumes "fs_env_ok env" "abs_of env cwd = Some c" "policy_paths_ok p" "normal_path target"
    and "e \<in> set (write_entries env p cwd)" "metadata_hit e n target"
  obtains e' m where "e' \<in> set (write_entries env p cwd)" "metadata_hit e' m target"
    "metadata_child_of_writable_root env p target cwd = Some (join_path env (res_path e') m, m)"
proof -
  from metadata_child_None [OF assms(1-4) _ assms(5)] assms(6)
  obtain q m where qm: "metadata_child_of_writable_root env p target cwd = Some (q, m)" by fastforce
  then obtain ys e' zs where "write_entries env p cwd = ys @ e' # zs" "metadata_hit e' m target" "q = join_path env (res_path e') m"
    unfolding metadata_child_iff [OF assms(1-4)] by blast
  with qm that [of e' m] show thesis by simp
qed

text \<open>No entry grants writing at or below a metadata directory of a writable root.\<close>

definition no_metadata_grant :: "fs_env \<Rightarrow> fs_policy \<Rightarrow> str \<Rightarrow> bool" where
  "no_metadata_grant env p cwd \<longleftrightarrow>
     list_all (\<lambda>e. list_all (\<lambda>e'. list_all (\<lambda>n. \<not> path_starts_with (join_path env (res_path e) n) (res_path e'))
       PROTECTED_METADATA_PATH_NAMES) (write_entries env p cwd)) (write_entries env p cwd)"

text \<open>C11. The metadata directories \<open>.git\<close>, \<open>.agents\<close> and \<open>.codex\<close> of every writable root cannot be
  written, at any depth and however the path is spelled, and the check before a write by the agent reports them, unless an entry
  grants such a directory or something below it.  Full write access to the disk is the only exception.\<close>

theorem metadata_never_writable:
  assumes "fs_env_ok env" "abs_of env cwd \<noteq> None" "policy_paths_ok p"
    and "kind p = Restricted" "\<not> has_full_disk_write_access p" "no_metadata_grant env p cwd"
    and "root \<in> set (write_entries env p cwd)" "n \<in> set PROTECTED_METADATA_PATH_NAMES"
    and "resolve_candidate_path env path cwd = Some target" "path_starts_with (join_path env (res_path root) n) target"
  shows "\<not> can_write_path_with_cwd env p path cwd
    \<and> (\<exists>m \<in> set PROTECTED_METADATA_PATH_NAMES. forbidden_agent_metadata_write env path cwd p = Some m)"
proof -
  from assms(2) obtain c where c: "abs_of env cwd = Some c" by blast
  have t: "normal_path target" by (rule resolve_candidate_normal [OF assms(1,9)])
  have "metadata_hit root n target"
    using assms(10) metadata_hit_join [OF write_entries_normal [OF assms(1) c assms(3,7)] assms(8)] by simp
  from metadata_child_Some [OF assms(1) c assms(3) t assms(7) this] obtain e m where
    e: "e \<in> set (write_entries env p cwd)" "metadata_hit e m target" and
    child: "metadata_child_of_writable_root env p target cwd = Some (join_path env (res_path e) m, m)" .
  have m: "m \<in> set PROTECTED_METADATA_PATH_NAMES" using e(2) by (simp add: metadata_hit_def)
  have none: "\<not> has_explicit_write_entry_for_metadata_path env p (join_path env (res_path e) m) target cwd"
    using assms(6) e(1) m by (auto simp: explicit_write_iff no_metadata_grant_def list_all_iff)
  have denied: "is_metadata_write_denied env p q cwd" if "resolve_candidate_path env q cwd = Some target" for q
    using that assms(4) child none by (simp add: is_metadata_write_denied_def)
  then have no: "\<not> can_write_path_with_cwd env p q cwd" if "resolve_candidate_path env q cwd = Some target" for q
    using that assms(5) by (simp add: can_write_path_with_cwd_def)
  have "forbidden_agent_metadata_write env path cwd p = Some m"
    using assms(4,9) child none no [of target] t by (simp add: forbidden_agent_metadata_write_def)
  with no [OF assms(9)] m show ?thesis by blast
qed

theorem metadata_never_writable_witness:
  "\<not> can_write_path_with_cwd sample_env sample_policy (lit ''src/../.git/hooks/pre-commit'') (lit ''/w'')
   \<and> (\<exists>m \<in> set PROTECTED_METADATA_PATH_NAMES.
        forbidden_agent_metadata_write sample_env (lit ''src/../.git/hooks/pre-commit'') (lit ''/w'') sample_policy = Some m)"
proof (rule metadata_never_writable)
  show "fs_env_ok sample_env" "abs_of sample_env (lit ''/w'') \<noteq> None" "kind sample_policy = Restricted"
    "\<not> has_full_disk_write_access sample_policy" "no_metadata_grant sample_env sample_policy (lit ''/w'')"
    "\<lparr>res_path = lit ''/w'', res_access = Write\<rparr> \<in> set (write_entries sample_env sample_policy (lit ''/w''))"
    "lit ''.git'' \<in> set PROTECTED_METADATA_PATH_NAMES"
    "resolve_candidate_path sample_env (lit ''src/../.git/hooks/pre-commit'') (lit ''/w'') =
      Some (lit ''/w/.git/hooks/pre-commit'')"
    "path_starts_with (join_path sample_env (res_path \<lparr>res_path = lit ''/w'', res_access = Write\<rparr>) (lit ''.git''))
      (lit ''/w/.git/hooks/pre-commit'')" by code_simp+
  have "normal_path (lit ''/w/private'')"
    unfolding normal_path_def by (rule exI [of _ "[lit ''w'', lit ''private'']"]) code_simp
  then show "policy_paths_ok sample_policy"
    by (simp add: policy_paths_ok_def sample_policy_def restricted_def fs_entry_of_def)
qed

text \<open>Two policies with the same entries in another order that disagree on a path.\<close>

definition nested_roots_policy :: "fs_policy" where
  "nested_roots_policy = restricted
     [fs_entry_of (Special Root) Read, fs_entry_of (PathEntry (lit ''/w'')) Write,
      fs_entry_of (PathEntry (lit ''/w/.git/hooks'')) Write]"


end
