(* ===== verification/FsRoots.thy ===== *)
theory FsRoots
  imports FsPolicy "HOL-Library.List_Lexorder"
begin

text \<open>
  The roots a sandbox is given, \<open>protocol/src/permissions.rs\<close> and \<open>WritableRoot\<close> of
  \<open>protocol/src/protocol.rs\<close>: readable, unreadable and writable roots of a policy, the read-only parts
  of a writable root, and the matcher for denied reads.  Symbolic links are followed the way
  \<open>utils/absolute-path\<close> does it; what the host answers is in \<open>fs_env\<close>, and the compiler of glob patterns
  is an argument.  The lemmas compare the writable roots with the access of single paths.
\<close>

subsection \<open>Canonical paths\<close>

definition should_preserve_logical_path :: "fs_env \<Rightarrow> str \<Rightarrow> bool" where
  "should_preserve_logical_path env logical \<longleftrightarrow>
     list_ex (\<lambda>ancestor.
       case fs_symlink_metadata env ancestor of
         None \<Rightarrow> False
       | Some is_symlink \<Rightarrow> is_symlink \<and> Option.bind (path_parent ancestor) path_parent \<noteq> None) (path_ancestors logical)"

definition canonicalize_preserving_symlinks :: "fs_env \<Rightarrow> str \<Rightarrow> str option" where
  "canonicalize_preserving_symlinks env path =
     Option.bind (abs_of env path) (\<lambda>logical.
       let preserve_logical_path = should_preserve_logical_path env logical in
       case fs_canonicalize env path of
         Some canonical \<Rightarrow>
           if preserve_logical_path \<and> \<not> path_eq canonical logical then Some logical else Some canonical
       | None \<Rightarrow> Some logical)"

definition canonicalize_existing_preserving_symlinks :: "fs_env \<Rightarrow> str \<Rightarrow> str option" where
  "canonicalize_existing_preserving_symlinks env path =
     Option.bind (abs_of env path) (\<lambda>logical.
       Option.bind (fs_canonicalize env path) (\<lambda>canonical.
         if should_preserve_logical_path env logical \<and> \<not> path_eq canonical logical then Some logical else Some canonical))"

fun effective_loop :: "fs_env \<Rightarrow> str \<Rightarrow> str list \<Rightarrow> str" where
  "effective_loop env raw_path [] = raw_path"
| "effective_loop env raw_path (ancestor # ancestors) =
     (if fs_symlink_metadata env ancestor = None then effective_loop env raw_path ancestors
      else (case canonicalize_preserving_symlinks env ancestor of
              None \<Rightarrow> effective_loop env raw_path ancestors
            | Some normalized_ancestor \<Rightarrow>
                (case path_strip_prefix ancestor raw_path of
                   None \<Rightarrow> effective_loop env raw_path ancestors
                 | Some sfx \<Rightarrow>
                     (case abs_of env (path_push normalized_ancestor (path_of_components sfx)) of
                        Some normalized_path \<Rightarrow> normalized_path
                      | None \<Rightarrow> effective_loop env raw_path ancestors))))"

definition normalize_effective_absolute_path :: "fs_env \<Rightarrow> str \<Rightarrow> str" where
  "normalize_effective_absolute_path env path = effective_loop env path (path_ancestors path)"

fun dedup_loop :: "str list \<Rightarrow> str list \<Rightarrow> str list" where
  "dedup_loop deduped [] = deduped"
| "dedup_loop deduped (path # paths) =
     dedup_loop (if path \<in> set deduped then deduped else deduped @ [path]) paths"

definition dedup_absolute_paths :: "fs_env \<Rightarrow> str list \<Rightarrow> bool \<Rightarrow> str list" where
  "dedup_absolute_paths env paths normalize_effective_paths =
     dedup_loop [] (if normalize_effective_paths then map (normalize_effective_absolute_path env) paths else paths)"

subsection \<open>Read-only parts of a writable root\<close>

record writable_root =
  wr_root :: str
  read_only_subpaths :: "str list"
  protected_metadata_names :: "str list"

definition path_contains_protected_metadata_name :: "writable_root \<Rightarrow> str \<Rightarrow> bool" where
  "path_contains_protected_metadata_name w path =
     (case path_strip_prefix (wr_root w) path of
        None \<Rightarrow> False
      | Some relative_path \<Rightarrow>
          (case first_opt relative_path of
             None \<Rightarrow> False
           | Some first_component \<Rightarrow> list_ex (\<lambda>name. as_os_str first_component = name) (protected_metadata_names w)))"

definition is_path_writable :: "writable_root \<Rightarrow> str \<Rightarrow> bool" where
  "is_path_writable w path =
     (if \<not> path_starts_with (wr_root w) path then False
      else if list_ex (\<lambda>subpath. path_starts_with subpath path) (read_only_subpaths w) then False
      else if path_contains_protected_metadata_name w path then False
      else True)"

definition is_git_pointer_file :: "fs_env \<Rightarrow> str \<Rightarrow> bool" where
  "is_git_pointer_file env path \<longleftrightarrow> fs_is_file env path \<and> path_file_name path = Some (lit ''.git'')"

definition resolve_gitdir_from_file :: "fs_env \<Rightarrow> str \<Rightarrow> str option" where
  "resolve_gitdir_from_file env dot_git =
     Option.bind (fs_read_to_string env dot_git) (\<lambda>contents.
       case split_once (of_char CHR '':'') (trim contents) of
         Some (before, gitdir_raw) \<Rightarrow>
           if trim before \<noteq> lit ''gitdir'' then None
           else let gitdir_raw = trim gitdir_raw in
             if gitdir_raw = [] then None
             else Option.bind (path_parent dot_git) (\<lambda>base.
               let gitdir_path = resolve_path_against_base (fs_home env) gitdir_raw base in
               if \<not> fs_exists env gitdir_path then None else Some gitdir_path)
       | None \<Rightarrow> None)"

definition default_read_only_subpaths_for_writable_root :: "fs_env \<Rightarrow> str \<Rightarrow> bool \<Rightarrow> str list" where
  "default_read_only_subpaths_for_writable_root env writable_root protect_missing_dot_codex =
     (let top_level_git = join_path env writable_root (lit ''.git'');
          top_level_git_is_file = fs_is_file env top_level_git;
          top_level_git_is_dir = fs_is_dir env top_level_git;
          git_subpaths =
            (if top_level_git_is_dir \<or> top_level_git_is_file then
               (if top_level_git_is_file \<and> is_git_pointer_file env top_level_git
                then (case resolve_gitdir_from_file env top_level_git of Some gitdir \<Rightarrow> [gitdir] | None \<Rightarrow> []) else [])
               @ [top_level_git]
             else []);
          top_level_agents = join_path env writable_root (lit ''.agents'');
          agents_subpaths = (if fs_is_dir env top_level_agents then [top_level_agents] else []);
          top_level_codex = join_path env writable_root (lit ''.codex'');
          codex_subpaths =
            (if protect_missing_dot_codex \<or> fs_is_dir env top_level_codex then [top_level_codex] else [])
      in dedup_absolute_paths env (git_subpaths @ agents_subpaths @ codex_subpaths) False)"

definition has_explicit_resolved_path_entry :: "resolved_entry list \<Rightarrow> str \<Rightarrow> bool" where
  "has_explicit_resolved_path_entry es path \<longleftrightarrow> list_ex (\<lambda>entry. res_path entry = path) es"

definition protected_metadata_names_for_writable_root :: "fs_env \<Rightarrow> fs_policy \<Rightarrow> str \<Rightarrow> str list \<Rightarrow> str \<Rightarrow> str list" where
  "protected_metadata_names_for_writable_root env p root raw_writable_roots cwd =
     filter (\<lambda>metadata_name.
       let metadata_paths = join_path env root metadata_name # map (\<lambda>raw_root. join_path env raw_root metadata_name) raw_writable_roots
       in list_all (\<lambda>metadata_path. \<not> can_write_path_with_cwd env p metadata_path cwd) metadata_paths)
       PROTECTED_METADATA_PATH_NAMES"

subsection \<open>Roots of a policy\<close>

definition get_readable_roots_with_cwd :: "fs_env \<Rightarrow> fs_policy \<Rightarrow> str \<Rightarrow> str list" where
  "get_readable_roots_with_cwd env p cwd =
     (if has_full_disk_read_access p then []
      else dedup_absolute_paths env
        (map res_path (filter (\<lambda>entry. can_read_path_with_cwd env p (res_path entry) cwd)
          (filter (\<lambda>entry. can_read (res_access entry)) (resolved_entries_with_cwd env p cwd)))) True)"

text \<open>The part of a writable root that an entry without write access takes away.\<close>

definition raw_carveout :: "fs_env \<Rightarrow> str \<Rightarrow> str list \<Rightarrow> str \<Rightarrow> str option" where
  "raw_carveout env root raw_writable_roots path =
     (if path = root then None
      else if path_starts_with root path then Some path
      else first_opt (List.map_filter (\<lambda>raw_root.
        Option.bind (path_strip_prefix raw_root path) (\<lambda>sfx.
          if sfx = [] then None else Some (join_path env root (path_of_components sfx)))) raw_writable_roots))"

definition carveout :: "fs_env \<Rightarrow> str \<Rightarrow> str list \<Rightarrow> resolved_entry \<Rightarrow> str option" where
  "carveout env root raw_writable_roots entry =
     (let effective_path = normalize_effective_absolute_path env (res_path entry);
          preserve_raw_carveout_paths = (path_parent root \<noteq> None)
      in case (if preserve_raw_carveout_paths then raw_carveout env root raw_writable_roots (res_path entry) else None) of
           Some raw_carveout_path \<Rightarrow> Some raw_carveout_path
         | None \<Rightarrow>
             if effective_path = root \<or> \<not> path_starts_with root effective_path then None else Some effective_path)"

definition writable_root_of :: "fs_env \<Rightarrow> fs_policy \<Rightarrow> str \<Rightarrow> resolved_entry list \<Rightarrow> str list \<Rightarrow> str \<Rightarrow> writable_root" where
  "writable_root_of env p cwd resolved_entries writable_entries root =
     (let raw_writable_roots = filter (\<lambda>path. normalize_effective_absolute_path env path = root) writable_entries;
          protect_missing_dot_codex =
            (case abs_of env cwd of Some cwd \<Rightarrow> normalize_effective_absolute_path env cwd = root | None \<Rightarrow> False);
          default_subpaths =
            filter (\<lambda>path. \<not> has_explicit_resolved_path_entry resolved_entries path)
              (default_read_only_subpaths_for_writable_root env root protect_missing_dot_codex);
          carveouts =
            List.map_filter (carveout env root raw_writable_roots)
              (filter (\<lambda>entry. \<not> can_write_path_with_cwd env p (res_path entry) cwd)
                (filter (\<lambda>entry. \<not> can_write (res_access entry)) resolved_entries))
      in \<lparr>wr_root = root,
          read_only_subpaths = dedup_absolute_paths env (default_subpaths @ carveouts) False,
          protected_metadata_names = protected_metadata_names_for_writable_root env p root raw_writable_roots cwd\<rparr>)"

definition writable_entries :: "fs_env \<Rightarrow> fs_policy \<Rightarrow> str \<Rightarrow> str list" where
  "writable_entries env p cwd =
     map res_path (filter (\<lambda>entry. can_write_path_with_cwd env p (res_path entry) cwd)
       (filter (\<lambda>entry. can_write (res_access entry)) (resolved_entries_with_cwd env p cwd)))"

definition get_writable_roots_with_cwd :: "fs_env \<Rightarrow> fs_policy \<Rightarrow> str \<Rightarrow> writable_root list" where
  "get_writable_roots_with_cwd env p cwd =
     (if has_full_disk_write_access p then []
      else map (writable_root_of env p cwd (resolved_entries_with_cwd env p cwd) (writable_entries env p cwd))
        (dedup_absolute_paths env (writable_entries env p cwd) True))"

definition get_unreadable_roots_with_cwd :: "fs_env \<Rightarrow> fs_policy \<Rightarrow> str \<Rightarrow> str list" where
  "get_unreadable_roots_with_cwd env p cwd =
     (if kind p \<noteq> Restricted then []
      else let root = Option.bind (abs_of env cwd) (absolute_root_path_for_cwd env) in
        dedup_absolute_paths env
          (map res_path (filter (\<lambda>entry. root \<noteq> Some (res_path entry))
            (filter (\<lambda>entry. \<not> can_read_path_with_cwd env p (res_path entry) cwd)
              (filter (\<lambda>entry. res_access entry = Deny) (resolved_entries_with_cwd env p cwd))))) True)"

definition get_unreadable_globs_with_cwd :: "fs_env \<Rightarrow> fs_policy \<Rightarrow> str \<Rightarrow> str list" where
  "get_unreadable_globs_with_cwd env p cwd =
     (if kind p \<noteq> Restricted then []
      else remdups_adj (sort (List.map_filter (\<lambda>entry.
        case entry_path entry of
          GlobPattern pattern \<Rightarrow> Some (resolve_path_against_base (fs_home env) pattern cwd)
        | _ \<Rightarrow> None) (filter (\<lambda>entry. entry_access entry = Deny) (entries p)))))"

subsection \<open>Denied reads\<close>

type_synonym glob_compiler = "str \<Rightarrow> str + (str \<Rightarrow> bool)"

record read_deny_matcher =
  denied_candidates :: "str list list"
  deny_read_matchers :: "(str \<Rightarrow> bool) list"
  invalid_pattern :: bool

datatype invalid_glob_behavior = FailClosed | ReturnError

definition push_unique :: "str list \<Rightarrow> str \<Rightarrow> str list" where
  "push_unique candidates candidate =
     (if list_ex (\<lambda>existing. path_eq existing candidate) candidates then candidates else candidates @ [candidate])"

definition normalized_and_canonical_candidates :: "fs_env \<Rightarrow> str \<Rightarrow> str list" where
  "normalized_and_canonical_candidates env path =
     (let candidates = push_unique [] (case abs_of env path of Some normalized \<Rightarrow> normalized | None \<Rightarrow> path)
      in case Option.bind (fs_canonicalize env path) (abs_of env) of
           Some canonical_absolute \<Rightarrow> push_unique candidates canonical_absolute
         | None \<Rightarrow> candidates)"

fun build_matchers ::
  "glob_compiler \<Rightarrow> invalid_glob_behavior \<Rightarrow> str list \<Rightarrow> (str \<Rightarrow> bool) list \<Rightarrow> bool \<Rightarrow> str + (str \<Rightarrow> bool) list \<times> bool" where
  "build_matchers compile behavior [] matchers invalid = Inr (matchers, invalid)"
| "build_matchers compile behavior (pattern # patterns) matchers invalid =
     (case compile pattern of
        Inr matcher \<Rightarrow> build_matchers compile behavior patterns (matchers @ [matcher]) invalid
      | Inl err \<Rightarrow>
          (case behavior of
             FailClosed \<Rightarrow> build_matchers compile behavior patterns matchers True
           | ReturnError \<Rightarrow> Inl (lit ''invalid deny-read glob pattern `'' @ pattern @ lit ''`: '' @ err)))"

definition matcher_build ::
  "fs_env \<Rightarrow> glob_compiler \<Rightarrow> fs_policy \<Rightarrow> str \<Rightarrow> invalid_glob_behavior \<Rightarrow> str + read_deny_matcher option" where
  "matcher_build env compile p cwd behavior =
     (if \<not> has_denied_read_restrictions p then Inr None
      else and_then (build_matchers compile behavior (get_unreadable_globs_with_cwd env p cwd) [] False)
        (\<lambda>(matchers, invalid). Inr (Some
          \<lparr>denied_candidates = map (normalized_and_canonical_candidates env) (get_unreadable_roots_with_cwd env p cwd),
           deny_read_matchers = matchers, invalid_pattern = invalid\<rparr>)))"

text \<open>\<open>new\<close>: the outer \<open>None\<close> is the arm that the code calls unreachable.\<close>

definition matcher_new :: "fs_env \<Rightarrow> glob_compiler \<Rightarrow> fs_policy \<Rightarrow> str \<Rightarrow> read_deny_matcher option option" where
  "matcher_new env compile p cwd =
     (case matcher_build env compile p cwd FailClosed of Inr matcher \<Rightarrow> Some matcher | Inl _ \<Rightarrow> None)"

definition matcher_try_new :: "fs_env \<Rightarrow> glob_compiler \<Rightarrow> fs_policy \<Rightarrow> str \<Rightarrow> str + read_deny_matcher option" where
  "matcher_try_new env compile p cwd = matcher_build env compile p cwd ReturnError"

definition is_read_denied :: "fs_env \<Rightarrow> read_deny_matcher \<Rightarrow> str \<Rightarrow> bool" where
  "is_read_denied env m path =
     (if invalid_pattern m then True
      else let path_candidates = normalized_and_canonical_candidates env path in
        if list_ex (\<lambda>denied_candidates.
             list_ex (\<lambda>candidate. list_ex (\<lambda>denied_candidate.
               path_eq candidate denied_candidate \<or> path_starts_with denied_candidate candidate) denied_candidates)
               path_candidates) (denied_candidates m)
        then True
        else list_ex (\<lambda>matcher. list_ex matcher path_candidates) (deny_read_matchers m))"

subsection \<open>Hosts without symbolic links\<close>

text \<open>Existing normal paths are canonical.\<close>

definition no_symlinks :: "fs_env \<Rightarrow> bool" where
  "no_symlinks env \<longleftrightarrow> (\<forall>p. normal_path p \<longrightarrow> fs_canonicalize env p \<in> {None, Some p})"

lemma path_body_valid: "valid_name n \<Longrightarrow> path_body n = [Normal n]"
  by (simp add: path_body_def split_on_no_sep valid_name_def body_component_def)

lemma path_of_names:
  assumes "list_all valid_name names"
  shows "path_body (path_of_components (map Normal names)) = map Normal names \<and>
    \<not> is_absolute (path_of_components (map Normal names))"
  using assms
proof (induction names rule: rev_induct)
  case (snoc n names)
  then have n: "\<not> is_absolute n" by (simp add: valid_name_not_absolute)
  from snoc show ?case
    by (simp add: path_of_components_def path_body_push [OF n] is_absolute_push [OF n] path_body_valid)
qed (simp add: path_of_components_def)

lemma normalize_path_components: "path_components p = path_components q \<Longrightarrow> normalize_path p = normalize_path q"
  by (simp add: normalize_path_def)

lemma push_suffix:
  assumes "normal_path a" "normal_path p" "path_strip_prefix a p = Some sfx"
  shows "abs_of env (path_push a (path_of_components sfx)) = Some p"
proof -
  from assms(2) obtain names where n: "list_all valid_name names" "path_components p = RootDir # map Normal names"
    by (metis normal_path_components)
  have p: "path_components p = path_components a @ sfx"
    using assms(3) by (simp add: path_strip_prefix_def strip_prefix_Some)
  from normal_suffix [OF assms(1,2) p] obtain ms where ms: "sfx = map Normal ms" .
  have "list_all valid_name ms"
  proof -
    from assms(1) obtain as where "path_components a = RootDir # map Normal as" by (metis normal_path_components)
    with n(2) p ms have "map Normal names = map Normal (as @ ms)" by simp
    then have "names = as @ ms" by (metis component.inject injI list.inj_map_strong)
    with n(1) show ?thesis by simp
  qed
  note ms' = path_of_names [OF this]
  let ?q = "path_push a (path_of_components sfx)"
  have abs: "is_absolute ?q" using ms' ms normal_path_absolute [OF assms(1)] by (simp add: is_absolute_push)
  have "path_components ?q = path_components p"
  proof -
    have "path_components ?q = RootDir # path_body ?q" using abs by (simp only: path_components_body) simp
    moreover have "path_components a = RootDir # path_body a"
      using normal_path_absolute [OF assms(1)] by (simp only: path_components_body) simp
    moreover have "path_body ?q = path_body a @ sfx" using ms' ms by (simp add: path_body_push)
    ultimately show ?thesis using p by simp
  qed
  then have "normalize_path ?q = p" using normalize_path_components normalize_path_normal [OF assms(2)] by metis
  with abs show ?thesis by (simp add: abs_of_absolute)
qed

lemma parents_of_normal:
  assumes "list_all valid_name names" "q \<in> set (parents_of (RootDir # map Normal names))"
  shows "normal_path q"
  using assms
proof (induction names rule: rev_induct)
  case (snoc n names)
  have b: "butlast (RootDir # map Normal (names @ [n])) = RootDir # map Normal names" by (simp add: butlast_append)
  have "parents_of (RootDir # map Normal (names @ [n])) =
      path_of_components (RootDir # map Normal names) # parents_of (RootDir # map Normal names)"
    by (subst parents_of.simps) (simp only: b, simp)
  with snoc path_of_components_names [of names] normal_abs_path [of names] show ?case by auto
qed (simp add: parents_of.simps)

lemma path_ancestors_normal: "normal_path p \<Longrightarrow> q \<in> set (path_ancestors p) \<Longrightarrow> normal_path q"
  by (elim normal_path_components) (auto simp: path_ancestors_def dest: parents_of_normal intro: normal_abs_path)

lemma canonicalize_preserving_normal:
  "no_symlinks env \<Longrightarrow> normal_path p \<Longrightarrow> canonicalize_preserving_symlinks env p = Some p"
  by (auto simp: no_symlinks_def canonicalize_preserving_symlinks_def path_eq_def dest!: spec [of _ p])

lemma effective_loop_normal:
  assumes "no_symlinks env" "normal_path p" "\<And>q. q \<in> set qs \<Longrightarrow> normal_path q"
  shows "effective_loop env p qs = p"
  using assms(3)
proof (induction qs)
  case (Cons q qs)
  then have "canonicalize_preserving_symlinks env q = Some q" "normal_path q" "effective_loop env p qs = p"
    using assms(1) canonicalize_preserving_normal by auto
  then show ?case using push_suffix [of q p _ env] assms(2) by (auto split: option.splits)
qed simp

lemma normalize_effective_normal:
  "no_symlinks env \<Longrightarrow> normal_path p \<Longrightarrow> normalize_effective_absolute_path env p = p"
  unfolding normalize_effective_absolute_path_def by (rule effective_loop_normal) (auto intro: path_ancestors_normal)

lemma set_dedup_loop: "set (dedup_loop acc xs) = set acc \<union> set xs"
  by (induction acc xs rule: dedup_loop.induct) auto

lemma distinct_dedup_loop: "distinct acc \<Longrightarrow> distinct (dedup_loop acc xs)"
  by (induction acc xs rule: dedup_loop.induct) auto

lemma set_dedup_absolute_paths:
  "set (dedup_absolute_paths env xs effective) =
     (if effective then normalize_effective_absolute_path env ` set xs else set xs)"
  by (simp add: dedup_absolute_paths_def set_dedup_loop)

subsection \<open>Writable roots and access\<close>

lemma starts_with_comparable:
  assumes "path_starts_with a p" "path_starts_with b p" "length (path_components a) \<le> length (path_components b)"
  shows "path_starts_with a b"
proof -
  from assms obtain x y where "path_components p = path_components a @ x" "path_components p = path_components b @ y"
    by (auto simp: path_starts_with_def starts_with_iff)
  with assms(3) have "path_components b = path_components a @ take (length (path_components b) - length (path_components a)) x"
    by (metis append_eq_append_conv_if append_take_drop_id take_append take_all_iff append_eq_conv_conj)
  then show ?thesis by (auto simp: path_starts_with_def starts_with_iff)
qed

lemma starts_with_antisym:
  "normal_path a \<Longrightarrow> normal_path b \<Longrightarrow> path_starts_with a b \<Longrightarrow> path_starts_with b a \<Longrightarrow> a = b"
  by (metis normal_path_eq path_starts_with_length path_starts_with_same_length path_starts_with_refl dual_order.antisym)

lemma covering_ancestor:
  "path_starts_with q target \<Longrightarrow> e \<in> set (covering env p q cwd) \<Longrightarrow> e \<in> set (covering env p target cwd)"
  by (auto simp: covering_def intro: path_starts_with_trans)

text \<open>At the path of the entry that decides about a target, the same entry decides.\<close>

lemma access_at_deciding_entry:
  assumes "kind p = Restricted" "normal_path target" "normal_path (res_path e)" "e \<in> set (covering env p target cwd)"
    and "\<And>e'. e' \<in> set (covering env p target cwd) \<Longrightarrow> resolved_entry_precedence e' \<le> resolved_entry_precedence e"
  shows "resolve_access_with_cwd env p (res_path e) cwd = res_access e"
proof -
  have below: "path_starts_with (res_path e) target" using assms(4) by (simp add: covering_def)
  have e: "e \<in> set (covering env p (res_path e) cwd)" using assms(4) by (simp add: covering_def)
  then have ne: "covering env p (res_path e) cwd \<noteq> []" by auto
  from resolve_access_entry [OF assms(1) resolve_candidate_of_normal [OF assms(3)] ne] obtain e2 where
    e2: "e2 \<in> set (covering env p (res_path e) cwd)" "resolve_access_with_cwd env p (res_path e) cwd = res_access e2"
      "\<And>e'. e' \<in> set (covering env p (res_path e) cwd) \<Longrightarrow> resolved_entry_precedence e' \<le> resolved_entry_precedence e2"
    by blast
  have "resolved_entry_precedence e2 = resolved_entry_precedence e"
    using assms(5) [OF covering_ancestor [OF below e2(1)]] e2(3) [OF e] by simp
  with e2(2) show ?thesis by (simp add: resolved_entry_precedence_def)
qed

lemma writable_entries_iff:
  "q \<in> set (writable_entries env p cwd) \<longleftrightarrow>
     (\<exists>e \<in> set (write_entries env p cwd). res_path e = q) \<and> can_write_path_with_cwd env p q cwd"
  by (auto simp: writable_entries_def write_entries_def)

lemma write_entry_resolved: "e \<in> set (write_entries env p cwd) \<Longrightarrow> e \<in> set (resolved_entries_with_cwd env p cwd) \<and> res_access e = Write"
  by (simp add: write_entries_def can_write_iff)

lemma writable_root_fields:
  assumes "fs_env_ok env" "abs_of env cwd = Some c" "policy_paths_ok p" "no_symlinks env"
    and "w \<in> set (get_writable_roots_with_cwd env p cwd)"
  shows "wr_root w \<in> set (writable_entries env p cwd)" "normal_path (wr_root w)" "\<not> has_full_disk_write_access p"
    and "w = writable_root_of env p cwd (resolved_entries_with_cwd env p cwd) (writable_entries env p cwd) (wr_root w)"
proof -
  from assms(5) show full: "\<not> has_full_disk_write_access p" by (auto simp: get_writable_roots_with_cwd_def)
  with assms(5) obtain r where r: "r \<in> set (dedup_absolute_paths env (writable_entries env p cwd) True)"
    and w: "w = writable_root_of env p cwd (resolved_entries_with_cwd env p cwd) (writable_entries env p cwd) r"
    by (auto simp: get_writable_roots_with_cwd_def)
  have root: "wr_root w = r" by (simp add: w writable_root_of_def Let_def)
  from r obtain q where q: "q \<in> set (writable_entries env p cwd)" "r = normalize_effective_absolute_path env q"
    by (auto simp: set_dedup_absolute_paths)
  from q(1) have n: "normal_path q" using write_entries_normal [OF assms(1-3)] by (auto simp: writable_entries_iff)
  with q(2) assms(4) have "r = q" by (simp add: normalize_effective_normal)
  with q n root w show "wr_root w \<in> set (writable_entries env p cwd)" "normal_path (wr_root w)"
    "w = writable_root_of env p cwd (resolved_entries_with_cwd env p cwd) (writable_entries env p cwd) (wr_root w)"
    by simp_all
qed

text \<open>An entry without write access below a writable root is one of its read-only parts.\<close>

lemma read_only_entry_carved:
  assumes "fs_env_ok env" "abs_of env cwd = Some c" "policy_paths_ok p" "no_symlinks env"
    and "w \<in> set (get_writable_roots_with_cwd env p cwd)" "e \<in> set (resolved_entries_with_cwd env p cwd)"
    and "res_access e \<noteq> Write" "\<not> can_write_path_with_cwd env p (res_path e) cwd"
    and "path_starts_with (wr_root w) (res_path e)" "res_path e \<noteq> wr_root w"
  shows "res_path e \<in> set (read_only_subpaths w)"
proof -
  have n: "normal_path (res_path e)" by (rule resolved_entries_normal [OF assms(1-3,6)])
  have "carveout env (wr_root w) raws e = Some (res_path e)" for raws
    using assms(9,10) normalize_effective_normal [OF assms(4) n]
    by (simp add: carveout_def raw_carveout_def Let_def)
  moreover have "e \<in> set (filter (\<lambda>entry. \<not> can_write_path_with_cwd env p (res_path entry) cwd)
      (filter (\<lambda>entry. \<not> can_write (res_access entry)) (resolved_entries_with_cwd env p cwd)))"
    using assms(6-8) by (simp add: can_write_iff)
  ultimately have "res_path e \<in> set (List.map_filter (carveout env (wr_root w) raws)
      (filter (\<lambda>entry. \<not> can_write_path_with_cwd env p (res_path entry) cwd)
        (filter (\<lambda>entry. \<not> can_write (res_access entry)) (resolved_entries_with_cwd env p cwd))))" for raws
    by (auto simp: List.map_filter_def image_iff intro!: bexI [of _ e])
  then show ?thesis
    by (subst writable_root_fields(4) [OF assms(1-5)]) (simp add: writable_root_of_def Let_def set_dedup_absolute_paths)
qed

lemma protected_name_iff:
  assumes "fs_env_ok env" "abs_of env cwd = Some c" "policy_paths_ok p" "no_symlinks env"
    and "w \<in> set (get_writable_roots_with_cwd env p cwd)" "m \<in> set PROTECTED_METADATA_PATH_NAMES"
    and "\<not> can_write_path_with_cwd env p (join_path env (wr_root w) m) cwd"
  shows "m \<in> set (protected_metadata_names w)"
proof -
  have eff: "normalize_effective_absolute_path env q = q" if "q \<in> set (writable_entries env p cwd)" for q
    using that write_entries_normal [OF assms(1-3)] by (auto simp: writable_entries_iff normalize_effective_normal [OF assms(4)])
  show ?thesis
    by (subst writable_root_fields(4) [OF assms(1-5)])
      (use assms(6,7) eff in \<open>auto simp: writable_root_of_def Let_def protected_metadata_names_for_writable_root_def list_all_iff\<close>)
qed

lemma not_full_restricted: "\<not> has_full_disk_write_access p \<Longrightarrow> kind p = Restricted"
  by (cases "kind p") (simp_all add: has_full_disk_write_access_def)

lemma root_access_write:
  assumes "fs_env_ok env" "abs_of env cwd = Some c" "policy_paths_ok p" "no_symlinks env"
    and "w \<in> set (get_writable_roots_with_cwd env p cwd)" "normal_path path" "is_path_writable w path"
  shows "resolve_access_with_cwd env p path cwd = Write"
proof -
  note root = writable_root_fields [OF assms(1-5)]
  note restricted = not_full_restricted [OF root(3)]
  have under: "path_starts_with (wr_root w) path"
    and free: "\<And>q. q \<in> set (read_only_subpaths w) \<Longrightarrow> \<not> path_starts_with q path"
    using assms(7) by (auto simp: is_path_writable_def list_ex_iff split: if_splits)
  from root(1) obtain er where er: "er \<in> set (write_entries env p cwd)" "res_path er = wr_root w"
    and rw: "resolve_access_with_cwd env p (wr_root w) cwd = Write"
    by (auto simp: writable_entries_iff can_write_path_with_cwd_def can_write_iff split: if_splits)
  have erc: "er \<in> set (covering env p path cwd)" using er under write_entry_resolved [OF er(1)] by (simp add: covering_def)
  then have ne: "covering env p path cwd \<noteq> []" by auto
  from resolve_access_entry [OF restricted resolve_candidate_of_normal [OF assms(6)] ne] obtain e where
    e: "e \<in> set (covering env p path cwd)" "resolve_access_with_cwd env p path cwd = res_access e" and
    max: "\<And>e'. e' \<in> set (covering env p path cwd) \<Longrightarrow> resolved_entry_precedence e' \<le> resolved_entry_precedence e"
    by blast
  have res: "e \<in> set (resolved_entries_with_cwd env p cwd)" "path_starts_with (res_path e) path"
    using e(1) by (simp_all add: covering_def)
  note ne = resolved_entries_normal [OF assms(1-3) res(1)]
  have at: "resolve_access_with_cwd env p (res_path e) cwd = res_access e"
    by (rule access_at_deciding_entry [OF restricted assms(6) ne e(1) max])
  have "depth_of er \<le> depth_of e" using max [OF erc] by (auto simp: resolved_entry_precedence_le)
  then have below: "path_starts_with (wr_root w) (res_path e)"
    using starts_with_comparable [OF under res(2)] er(2) by (simp add: depth_of_def)
  have "res_access e = Write"
  proof (rule ccontr)
    assume nw: "res_access e \<noteq> Write"
    then have "\<not> can_write_path_with_cwd env p (res_path e) cwd" by (simp add: can_write_path_with_cwd_def at can_write_iff)
    moreover have "res_path e \<noteq> wr_root w" using nw at rw by auto
    ultimately show False
      using read_only_entry_carved [OF assms(1-5) res(1) nw _ below] free res(2) by blast
  qed
  with e(2) show ?thesis by simp
qed

text \<open>The path of a writable entry is never refused as metadata: the entry itself is the grant.\<close>

lemma write_entry_not_metadata_denied:
  assumes "fs_env_ok env" "abs_of env cwd = Some c" "policy_paths_ok p" "e \<in> set (write_entries env p cwd)"
  shows "\<not> is_metadata_write_denied env p (res_path e) cwd"
proof -
  have n: "normal_path (res_path e)" by (rule write_entries_normal [OF assms])
  have "has_explicit_write_entry_for_metadata_path env p q (res_path e) cwd"
    if child: "metadata_child_of_writable_root env p (res_path e) cwd = Some (q, m)" for q m
  proof -
    from child obtain e' where e': "e' \<in> set (write_entries env p cwd)" "metadata_hit e' m (res_path e)"
      "q = join_path env (res_path e') m"
      unfolding metadata_child_iff [OF assms(1-3) n] by (metis in_set_conv_decomp)
    then have "path_starts_with q (res_path e)"
      using metadata_hit_join [OF write_entries_normal [OF assms(1-3) e'(1)]] by (simp add: metadata_hit_def)
    with assms(4) show ?thesis unfolding explicit_write_iff by (intro bexI [of _ e]) simp_all
  qed
  with n show ?thesis by (auto simp: is_metadata_write_denied_def split: option.splits)
qed

text \<open>The deciding access at the path of a writable entry is a write or a denial.\<close>

lemma write_entry_access:
  assumes "fs_env_ok env" "abs_of env cwd = Some c" "policy_paths_ok p" "kind p = Restricted" "e \<in> set (write_entries env p cwd)"
  obtains "resolve_access_with_cwd env p (res_path e) cwd = Write"
  | e' where "resolve_access_with_cwd env p (res_path e) cwd = Deny" "e' \<in> set (resolved_entries_with_cwd env p cwd)"
    "res_access e' = Deny" "res_path e' = res_path e"
proof -
  note n = write_entries_normal [OF assms(1-3,5)]
  have ec: "e \<in> set (covering env p (res_path e) cwd)"
    using write_entry_resolved [OF assms(5)] by (simp add: covering_def)
  then have ne: "covering env p (res_path e) cwd \<noteq> []" by auto
  from resolve_access_entry [OF assms(4) resolve_candidate_of_normal [OF n] ne] obtain e2 where
    e2: "e2 \<in> set (covering env p (res_path e) cwd)" "resolve_access_with_cwd env p (res_path e) cwd = res_access e2"
      "\<And>e'. e' \<in> set (covering env p (res_path e) cwd) \<Longrightarrow> resolved_entry_precedence e' \<le> resolved_entry_precedence e2"
    by blast
  have r2: "e2 \<in> set (resolved_entries_with_cwd env p cwd)" "path_starts_with (res_path e2) (res_path e)"
    using e2(1) by (simp_all add: covering_def)
  note n2 = resolved_entries_normal [OF assms(1-3) r2(1)]
  have "depth_of e \<le> depth_of e2" using e2(3) [OF ec] by (auto simp: resolved_entry_precedence_le)
  then have eq: "res_path e2 = res_path e"
    using starts_with_antisym [OF n2 n r2(2)] starts_with_comparable [OF path_starts_with_refl r2(2)] by (simp add: depth_of_def)
  have "Write \<le> res_access e2"
    using e2(3) [OF ec] eq write_entry_resolved [OF assms(5)] by (auto simp: resolved_entry_precedence_le depth_of_def)
  then have "res_access e2 = Write \<or> res_access e2 = Deny"
    by (cases "res_access e2") (simp_all add: less_eq_access_mode_def)
  with that e2(2) r2(1) eq show thesis by metis
qed

text \<open>What the metadata check finds for a target it also finds for the metadata directory itself.\<close>

lemma metadata_denied_directory:
  assumes "fs_env_ok env" "abs_of env cwd = Some c" "policy_paths_ok p" "kind p = Restricted" "normal_path target"
    and "metadata_child_of_writable_root env p target cwd = Some (q, m)"
    and "\<not> has_explicit_write_entry_for_metadata_path env p q target cwd"
  shows "is_metadata_write_denied env p q cwd"
proof -
  from assms(6) obtain ys e zs where we: "write_entries env p cwd = ys @ e # zs" and hit: "metadata_hit e m target"
    and q: "q = join_path env (res_path e) m" and first: "\<forall>y \<in> set ys. \<forall>n. \<not> metadata_hit y n target"
    unfolding metadata_child_iff [OF assms(1-3,5)] by blast
  have m: "m \<in> set PROTECTED_METADATA_PATH_NAMES" using hit by (simp add: metadata_hit_def)
  have e: "normal_path (res_path e)" by (rule write_entries_normal [OF assms(1-3)]) (simp add: we)
  note join = join_metadata [OF e m m, where env = env, folded q]
  have hq: "metadata_hit e m q" using m join(2) by (simp add: metadata_hit_def)
  have ext: "path_starts_with q target" using hit join(2) by (auto simp: metadata_hit_def path_starts_with_def starts_with_iff)
  then have more: "metadata_hit y n q \<Longrightarrow> metadata_hit y n target" for y n
    by (auto simp: metadata_hit_def path_starts_with_def starts_with_iff)
  have child: "metadata_child_of_writable_root env p q cwd = Some (q, m)"
    unfolding metadata_child_iff [OF assms(1-3) join(1)] using we hq q first more by blast
  have "\<not> has_explicit_write_entry_for_metadata_path env p q q cwd"
    using assms(7) ext unfolding explicit_write_iff by (meson path_starts_with_trans)
  with child join(1) assms(4) show ?thesis by (simp add: is_metadata_write_denied_def)
qed

text \<open>The roots that contain a path contain this one.\<close>

definition innermost :: "writable_root list \<Rightarrow> writable_root \<Rightarrow> str \<Rightarrow> bool" where
  "innermost ws w path \<longleftrightarrow>
     list_all (\<lambda>w'. \<not> path_starts_with (wr_root w') path \<or> path_starts_with (wr_root w') (wr_root w)) ws"

lemma root_metadata_not_denied:
  assumes "fs_env_ok env" "abs_of env cwd = Some c" "policy_paths_ok p" "no_symlinks env"
    and "w \<in> set (get_writable_roots_with_cwd env p cwd)" "normal_path path" "is_path_writable w path"
    and "innermost (get_writable_roots_with_cwd env p cwd) w path"
  shows "\<not> is_metadata_write_denied env p path cwd"
proof
  assume denied: "is_metadata_write_denied env p path cwd"
  note root = writable_root_fields [OF assms(1-5)]
  note restricted = not_full_restricted [OF root(3)]
  have under: "path_starts_with (wr_root w) path"
    and free: "\<And>q. q \<in> set (read_only_subpaths w) \<Longrightarrow> \<not> path_starts_with q path"
    and unprotected: "\<not> path_contains_protected_metadata_name w path"
    using assms(7) by (auto simp: is_path_writable_def list_ex_iff split: if_splits)
  from denied restricted assms(6) obtain q m where child: "metadata_child_of_writable_root env p path cwd = Some (q, m)"
    and none: "\<not> has_explicit_write_entry_for_metadata_path env p q path cwd"
    by (auto simp: is_metadata_write_denied_def split: option.splits)
  from child obtain e where e: "e \<in> set (write_entries env p cwd)" and hit: "metadata_hit e m path"
    and q: "q = join_path env (res_path e) m"
    unfolding metadata_child_iff [OF assms(1-3,6)] by (metis in_set_conv_decomp)
  have m: "m \<in> set PROTECTED_METADATA_PATH_NAMES" using hit by (simp add: metadata_hit_def)
  note en = write_entries_normal [OF assms(1-3) e]
  note join = join_metadata [OF en m m, where env = env, folded q]
  have qp: "path_starts_with q path" using metadata_hit_join [OF en m] hit q by simp
  have ep: "path_starts_with (res_path e) path"
    using hit by (auto simp: metadata_hit_def path_starts_with_def starts_with_iff)
  from root(1) obtain er where er: "er \<in> set (write_entries env p cwd)" "res_path er = wr_root w"
    by (auto simp: writable_entries_iff)
  have "\<not> path_starts_with q (wr_root w)" using none er under unfolding explicit_write_iff by metis
  then have "length (path_components (wr_root w)) < length (path_components q)"
    using starts_with_comparable [OF qp under] by (meson not_le)
  then have above: "path_starts_with (wr_root w) (res_path e)"
    using starts_with_comparable [OF under ep] join(2) by simp
  have "res_path e = wr_root w"
  proof (rule write_entry_access [OF assms(1-3) restricted e])
    assume "resolve_access_with_cwd env p (res_path e) cwd = Write"
    then have "can_write_path_with_cwd env p (res_path e) cwd"
      using write_entry_not_metadata_denied [OF assms(1-3) e] by (simp add: can_write_path_with_cwd_def)
    with e have "res_path e \<in> set (writable_entries env p cwd)" by (auto simp: writable_entries_iff)
    then have "res_path e \<in> set (dedup_absolute_paths env (writable_entries env p cwd) True)"
      using normalize_effective_normal [OF assms(4) en] by (force simp: set_dedup_absolute_paths)
    then obtain w' where "w' \<in> set (get_writable_roots_with_cwd env p cwd)" "wr_root w' = res_path e"
      using root(3) by (force simp: get_writable_roots_with_cwd_def writable_root_of_def Let_def)
    with assms(8) ep have "path_starts_with (res_path e) (wr_root w)" by (auto simp: innermost_def list_all_iff)
    with above show ?thesis by (rule starts_with_antisym [OF en root(2), rotated])
  next
    fix e'
    assume e': "resolve_access_with_cwd env p (res_path e) cwd = Deny" "e' \<in> set (resolved_entries_with_cwd env p cwd)"
      "res_access e' = Deny" "res_path e' = res_path e"
    then have nw: "\<not> can_write_path_with_cwd env p (res_path e') cwd" by (simp add: can_write_path_with_cwd_def)
    show ?thesis
    proof (rule ccontr)
      assume "res_path e \<noteq> wr_root w"
      then have "res_path e' \<in> set (read_only_subpaths w)"
        using read_only_entry_carved [OF assms(1-5) e'(2) _ nw] e'(3,4) above by simp
      with free ep e'(4) show False by auto
    qed
  qed
  then have "\<not> can_write_path_with_cwd env p (join_path env (wr_root w) m) cwd"
    using metadata_denied_directory [OF assms(1-3) restricted assms(6) child none] root(3) q
    by (simp add: can_write_path_with_cwd_def)
  then have "m \<in> set (protected_metadata_names w)" by (rule protected_name_iff [OF assms(1-5) m])
  moreover obtain rest where "path_components path = path_components (wr_root w) @ Normal m # rest"
    using hit \<open>res_path e = wr_root w\<close> by (auto simp: metadata_hit_def)
  then have "path_strip_prefix (wr_root w) path = Some (Normal m # rest)"
    by (simp add: path_strip_prefix_def)
  ultimately have "path_contains_protected_metadata_name w path"
    by (auto simp: path_contains_protected_metadata_name_def first_opt_def list_ex_iff)
  with unprotected show False by simp
qed


definition nested_policy :: fs_policy where
  "nested_policy = restricted
     [fs_entry_of (Special Root) Read, fs_entry_of (PathEntry (lit ''/w'')) Write,
      fs_entry_of (PathEntry (lit ''/w/sub'')) Write]"


text \<open>The union of the writable roots grants too much: with one writable root inside another, the
  outer root lets the metadata of the inner root be written, which the policy refuses.\<close>

theorem writable_roots_union_unsound:
  "list_ex (\<lambda>w. is_path_writable w (lit ''/w/sub/.git/config''))
     (get_writable_roots_with_cwd sample_env nested_policy (lit ''/w''))
   \<and> \<not> can_write_path_with_cwd sample_env nested_policy (lit ''/w/sub/.git/config'') (lit ''/w'')"
  by (rule conjI) code_simp+

subsection \<open>Denied reads are matched\<close>

lemma build_matchers_fail_closed:
  "\<exists>ms inv. build_matchers compile FailClosed patterns matchers invalid = Inr (ms, inv)"
  by (induction patterns arbitrary: matchers invalid) (auto split: sum.splits)

lemma candidates_normal: "normal_path p \<Longrightarrow> p \<in> set (normalized_and_canonical_candidates env p)"
  by (auto simp: normalized_and_canonical_candidates_def push_unique_def Let_def split: option.splits)



end
