(* ===== verification/FsLegacy.thy ===== *)
theory FsLegacy
  imports FsRoots
begin

text \<open>
  Legacy sandbox policies and permission profiles: \<open>SandboxPolicy\<close> of \<open>protocol/src/protocol.rs\<close>, its
  conversions to and from file system policies in \<open>protocol/src/permissions.rs\<close>, and
  \<open>PermissionProfile\<close> of \<open>protocol/src/models.rs\<close>.  An arm that the code calls unreachable is \<open>None\<close>.
  The lemmas show that a legacy policy survives the way through a profile and back.
\<close>

subsection \<open>Legacy policies\<close>

datatype network_access = AccessRestricted | AccessEnabled

datatype sandbox_policy =
    DangerFullAccess
  | ReadOnly bool
  | ExternalPolicy network_access
  | WorkspaceWrite (writable_roots: "str list") bool bool bool

text \<open>The fields of \<open>WorkspaceWrite\<close> are the writable roots, network access, and whether \<open>TMPDIR\<close> and
  \<open>/tmp\<close> are excluded.\<close>

fun has_full_network_access :: "sandbox_policy \<Rightarrow> bool" where
  "has_full_network_access DangerFullAccess = True"
| "has_full_network_access (ExternalPolicy network_access) = (network_access = AccessEnabled)"
| "has_full_network_access (ReadOnly network_access) = network_access"
| "has_full_network_access (WorkspaceWrite _ network_access _ _) = network_access"

fun policy_has_full_disk_write_access :: "sandbox_policy \<Rightarrow> bool" where
  "policy_has_full_disk_write_access DangerFullAccess = True"
| "policy_has_full_disk_write_access (ExternalPolicy _) = True"
| "policy_has_full_disk_write_access (ReadOnly _) = False"
| "policy_has_full_disk_write_access (WorkspaceWrite _ _ _ _) = False"

fun legacy_writable_roots_with_cwd :: "fs_env \<Rightarrow> sandbox_policy \<Rightarrow> str \<Rightarrow> writable_root list" where
  "legacy_writable_roots_with_cwd env (WorkspaceWrite roots network_access exclude_tmpdir_env_var exclude_slash_tmp) cwd =
     (let cwd_root = abs_of env cwd;
          slash_tmp = (if \<not> exclude_slash_tmp
            then (case abs_of env (lit ''/tmp'') of Some p \<Rightarrow> if fs_is_dir env p then [p] else [] | None \<Rightarrow> []) else []);
          tmpdir = (if \<not> exclude_tmpdir_env_var
            then (case fs_tmpdir env of
                    Some tmpdir \<Rightarrow> if tmpdir \<noteq> [] then (case abs_of env tmpdir of Some p \<Rightarrow> [p] | None \<Rightarrow> []) else []
                  | None \<Rightarrow> []) else [])
      in map (\<lambda>writable_root.
           \<lparr>wr_root = writable_root,
            read_only_subpaths = default_read_only_subpaths_for_writable_root env writable_root (cwd_root = Some writable_root),
            protected_metadata_names = []\<rparr>)
           (roots @ (case cwd_root of Some cwd \<Rightarrow> [cwd] | None \<Rightarrow> []) @ slash_tmp @ tmpdir))"
| "legacy_writable_roots_with_cwd env _ cwd = []"

subsection \<open>From legacy policies\<close>

definition workspace_write_entries :: "str list \<Rightarrow> bool \<Rightarrow> bool \<Rightarrow> fs_entry list" where
  "workspace_write_entries roots exclude_tmpdir_env_var exclude_slash_tmp =
     [fs_entry_of (Special Root) Read, fs_entry_of (Special (ProjectRoots None)) Write]
     @ (if \<not> exclude_slash_tmp then [fs_entry_of (Special SlashTmp) Write] else [])
     @ (if \<not> exclude_tmpdir_env_var then [fs_entry_of (Special Tmpdir) Write] else [])
     @ map (\<lambda>path. fs_entry_of (PathEntry path) Write) roots"

definition append_protected_paths :: "fs_env \<Rightarrow> fs_entry list \<Rightarrow> str \<Rightarrow> bool \<Rightarrow> fs_entry list" where
  "append_protected_paths env es writable_root protect_missing_dot_codex =
     foldl append_default_read_only_path_if_no_explicit_rule es
       (default_read_only_subpaths_for_writable_root env writable_root protect_missing_dot_codex)"

definition workspace_write :: "fs_env \<Rightarrow> str list \<Rightarrow> bool \<Rightarrow> bool \<Rightarrow> fs_policy" where
  "workspace_write env roots exclude_tmpdir_env_var exclude_slash_tmp =
     (let es = workspace_write_entries roots exclude_tmpdir_env_var exclude_slash_tmp;
          es = foldl append_default_read_only_project_root_subpath_if_no_explicit_rule es
            [lit ''.git'', lit ''.agents'', lit ''.codex'']
      in restricted (foldl (\<lambda>es writable_root. append_protected_paths env es writable_root False) es roots))"

fun fs_policy_from :: "fs_env \<Rightarrow> sandbox_policy \<Rightarrow> fs_policy" where
  "fs_policy_from env DangerFullAccess = unrestricted"
| "fs_policy_from env (ExternalPolicy _) = external_sandbox"
| "fs_policy_from env (ReadOnly _) = restricted [fs_entry_of (Special Root) Read]"
| "fs_policy_from env (WorkspaceWrite roots _ exclude_tmpdir_env_var exclude_slash_tmp) =
     workspace_write env roots exclude_tmpdir_env_var exclude_slash_tmp"

definition network_policy_from :: "sandbox_policy \<Rightarrow> network_sandbox_policy" where
  "network_policy_from sp = (if has_full_network_access sp then NetworkEnabled else NetworkRestricted)"

definition from_legacy_sandbox_policy_for_cwd :: "fs_env \<Rightarrow> sandbox_policy \<Rightarrow> str \<Rightarrow> fs_policy" where
  "from_legacy_sandbox_policy_for_cwd env sp cwd =
     (let p = fs_policy_from env sp in
      case sp of
        WorkspaceWrite roots _ _ _ \<Rightarrow>
          (let es = (case abs_of env cwd of
                       Some cwd_root \<Rightarrow> append_protected_paths env (entries p) cwd_root True
                     | None \<Rightarrow> entries p)
           in p\<lparr>entries := foldl (\<lambda>es writable_root. append_protected_paths env es writable_root False) es roots\<rparr>)
      | _ \<Rightarrow> p)"

definition from_legacy_sandbox_policy_preserving_deny_entries ::
  "fs_env \<Rightarrow> sandbox_policy \<Rightarrow> str \<Rightarrow> fs_policy \<Rightarrow> fs_policy" where
  "from_legacy_sandbox_policy_preserving_deny_entries env sp cwd existing =
     (let rebuilt = from_legacy_sandbox_policy_for_cwd env sp cwd in
      if kind rebuilt \<noteq> Restricted then rebuilt
      else rebuilt\<lparr>glob_scan_max_depth := glob_scan_max_depth existing,
             entries := foldl push_entry_if_new (entries rebuilt)
               (filter (\<lambda>entry. entry_access entry = Deny) (entries existing))\<rparr>)"

definition with_additional_legacy_workspace_writable_roots :: "fs_env \<Rightarrow> fs_policy \<Rightarrow> str list \<Rightarrow> fs_policy" where
  "with_additional_legacy_workspace_writable_roots env p additional_writable_roots =
     (if kind p \<noteq> Restricted then p
      else foldl (\<lambda>p path.
        let es = (if \<not> list_ex (\<lambda>entry. can_write (entry_access entry) \<and> entry_path entry = PathEntry path) (entries p)
                  then entries p @ [fs_entry_of (PathEntry path) Write] else entries p)
        in p\<lparr>entries := append_protected_paths env es path False\<rparr>) p additional_writable_roots)"

definition legacy_runtime_file_system_policy_for_cwd :: "fs_env \<Rightarrow> sandbox_policy \<Rightarrow> str \<Rightarrow> fs_policy" where
  "legacy_runtime_file_system_policy_for_cwd env sp cwd =
     (case sp of
        WorkspaceWrite roots _ exclude_tmpdir_env_var exclude_slash_tmp \<Rightarrow>
          (let es = workspace_write_entries roots exclude_tmpdir_env_var exclude_slash_tmp;
               es = (case abs_of env cwd of Some cwd_root \<Rightarrow> append_protected_paths env es cwd_root True | None \<Rightarrow> es)
           in restricted (foldl (\<lambda>es writable_root. append_protected_paths env es writable_root False) es roots))
      | _ \<Rightarrow> fs_policy_from env sp)"

subsection \<open>To legacy policies\<close>

record legacy_scan =
  workspace_root_writable :: bool
  scan_writable_roots :: "str list"
  tmpdir_writable :: bool
  slash_tmp_writable :: bool
  unbridgeable_root_write :: bool

fun scan_entry :: "fs_env \<Rightarrow> str option \<Rightarrow> legacy_scan \<Rightarrow> fs_entry \<Rightarrow> legacy_scan" where
  "scan_entry env cwd_absolute s entry =
     (case entry_path entry of
        GlobPattern _ \<Rightarrow> s
      | PathEntry path \<Rightarrow>
          if can_write (entry_access entry) then
            (if cwd_absolute = Some path then s\<lparr>workspace_root_writable := True\<rparr>
             else s\<lparr>scan_writable_roots := scan_writable_roots s @ [path]\<rparr>)
          else s
      | Special v \<Rightarrow>
          (case v of
             Root \<Rightarrow> if entry_access entry = Write then s\<lparr>unbridgeable_root_write := True\<rparr> else s
           | Minimal \<Rightarrow> s
           | ProjectRoots subpath \<Rightarrow>
               if subpath = None \<and> can_write (entry_access entry) then s\<lparr>workspace_root_writable := True\<rparr>
               else (case resolve_file_system_special_path env v cwd_absolute of
                       Some path \<Rightarrow>
                         if can_write (entry_access entry) then s\<lparr>scan_writable_roots := scan_writable_roots s @ [path]\<rparr> else s
                     | None \<Rightarrow> s)
           | Tmpdir \<Rightarrow> if can_write (entry_access entry) then s\<lparr>tmpdir_writable := True\<rparr> else s
           | SlashTmp \<Rightarrow> if can_write (entry_access entry) then s\<lparr>slash_tmp_writable := True\<rparr> else s
           | UnknownPath _ _ \<Rightarrow> s))"

definition scan_start :: legacy_scan where
  "scan_start = \<lparr>workspace_root_writable = False, scan_writable_roots = [], tmpdir_writable = False,
     slash_tmp_writable = False, unbridgeable_root_write = False\<rparr>"

datatype legacy_error = WritesOutsideWorkspace

definition to_legacy_sandbox_policy ::
  "fs_env \<Rightarrow> fs_policy \<Rightarrow> network_sandbox_policy \<Rightarrow> str \<Rightarrow> legacy_error + sandbox_policy" where
  "to_legacy_sandbox_policy env p network cwd =
     (case kind p of
        ExternalSandbox \<Rightarrow> Inr (ExternalPolicy (if is_enabled network then AccessEnabled else AccessRestricted))
      | Unrestricted \<Rightarrow> Inr (if is_enabled network then DangerFullAccess else ExternalPolicy AccessRestricted)
      | Restricted \<Rightarrow>
          (let s = foldl (scan_entry env (abs_of env cwd)) scan_start (entries p)
           in if has_full_disk_write_access p then
                Inr (if is_enabled network then DangerFullAccess else ExternalPolicy AccessRestricted)
              else if workspace_root_writable s then
                Inr (WorkspaceWrite (dedup_absolute_paths env (scan_writable_roots s) False) (is_enabled network)
                  (\<not> tmpdir_writable s) (\<not> slash_tmp_writable s))
              else if unbridgeable_root_write s \<or> scan_writable_roots s \<noteq> [] \<or> tmpdir_writable s \<or> slash_tmp_writable s then
                Inl WritesOutsideWorkspace
              else Inr (ReadOnly (is_enabled network))))"

subsection \<open>Comparing policies\<close>

text \<open>The order of paths is that of their components.\<close>

fun component_key :: "component \<Rightarrow> nat \<times> str" where
  "component_key RootDir = (0, [])"
| "component_key CurDir = (1, [])"
| "component_key ParentDir = (2, [])"
| "component_key (Normal s) = (3, s)"

lemma component_key_inj [simp]: "component_key a = component_key b \<longleftrightarrow> a = b"
  by (cases a; cases b) simp_all

instantiation component :: linorder
begin

definition less_eq_component :: "component \<Rightarrow> component \<Rightarrow> bool" where
  "less_eq_component a b \<longleftrightarrow> component_key a \<le> component_key b"

definition less_component :: "component \<Rightarrow> component \<Rightarrow> bool" where
  "less_component a b \<longleftrightarrow> component_key a < component_key b"

instance
proof
  fix a b c :: component
  show "a < b \<longleftrightarrow> a \<le> b \<and> \<not> b \<le> a" unfolding less_eq_component_def less_component_def by (rule less_le_not_le)
  show "a \<le> a" unfolding less_eq_component_def by simp
  show "a \<le> b \<Longrightarrow> b \<le> c \<Longrightarrow> a \<le> c" unfolding less_eq_component_def by (rule order_trans)
  show "a \<le> b \<Longrightarrow> b \<le> a \<Longrightarrow> a = b" unfolding less_eq_component_def using order_antisym [of "component_key a"] by simp
  show "a \<le> b \<or> b \<le> a" unfolding less_eq_component_def by (rule linear)
qed

end

definition sorted_absolute_paths :: "str list \<Rightarrow> str list" where
  "sorted_absolute_paths paths = sort_key path_components paths"

definition sorted_writable_roots :: "writable_root list \<Rightarrow> writable_root list" where
  "sorted_writable_roots ws =
     sort_key (\<lambda>w. path_components (wr_root w))
       (map (\<lambda>w. w\<lparr>read_only_subpaths := sorted_absolute_paths (read_only_subpaths w),
                  protected_metadata_names := remdups_adj (sort (protected_metadata_names w))\<rparr>) ws)"

record fs_semantic_signature =
  sig_full_disk_read :: bool
  sig_full_disk_write :: bool
  sig_platform_defaults :: bool
  sig_readable_roots :: "str list"
  sig_writable_roots :: "writable_root list"
  sig_unreadable_roots :: "str list"
  sig_unreadable_globs :: "str list"

definition semantic_signature :: "fs_env \<Rightarrow> fs_policy \<Rightarrow> str \<Rightarrow> fs_semantic_signature" where
  "semantic_signature env p cwd =
     \<lparr>sig_full_disk_read = has_full_disk_read_access p,
      sig_full_disk_write = has_full_disk_write_access p,
      sig_platform_defaults = include_platform_defaults p,
      sig_readable_roots = sorted_absolute_paths (get_readable_roots_with_cwd env p cwd),
      sig_writable_roots = sorted_writable_roots (get_writable_roots_with_cwd env p cwd),
      sig_unreadable_roots = sorted_absolute_paths (get_unreadable_roots_with_cwd env p cwd),
      sig_unreadable_globs = get_unreadable_globs_with_cwd env p cwd\<rparr>"

definition is_semantically_equivalent_to :: "fs_env \<Rightarrow> fs_policy \<Rightarrow> fs_policy \<Rightarrow> str \<Rightarrow> bool" where
  "is_semantically_equivalent_to env p other cwd \<longleftrightarrow> semantic_signature env p cwd = semantic_signature env other cwd"

definition protected_metadata_names_need_direct_runtime_enforcement :: "fs_env \<Rightarrow> fs_policy \<Rightarrow> sandbox_policy \<Rightarrow> str \<Rightarrow> bool" where
  "protected_metadata_names_need_direct_runtime_enforcement env p legacy_policy cwd =
     (let legacy_roots = legacy_writable_roots_with_cwd env legacy_policy cwd in
      list_ex (\<lambda>w.
        case find (\<lambda>candidate. wr_root candidate = wr_root w) legacy_roots of
          None \<Rightarrow> protected_metadata_names w \<noteq> []
        | Some legacy_root \<Rightarrow>
            list_ex (\<lambda>metadata_name.
              \<not> list_ex (\<lambda>subpath. subpath = join_path env (wr_root w) metadata_name) (read_only_subpaths legacy_root))
              (protected_metadata_names w)) (get_writable_roots_with_cwd env p cwd))"

definition needs_direct_runtime_enforcement :: "fs_env \<Rightarrow> fs_policy \<Rightarrow> network_sandbox_policy \<Rightarrow> str \<Rightarrow> bool" where
  "needs_direct_runtime_enforcement env p network cwd =
     (if kind p \<noteq> Restricted then False
      else (case to_legacy_sandbox_policy env p network cwd of
              Inl _ \<Rightarrow> True
            | Inr legacy_policy \<Rightarrow>
                if protected_metadata_names_need_direct_runtime_enforcement env p legacy_policy cwd then True
                else semantic_signature env p cwd \<noteq>
                  semantic_signature env (legacy_runtime_file_system_policy_for_cwd env legacy_policy cwd) cwd))"

subsection \<open>Additional permissions\<close>

text \<open>A \<open>NonZeroUsize\<close> is a number that \<open>non_zero\<close> lets through.\<close>

definition non_zero :: "nat \<Rightarrow> nat option" where
  "non_zero n = (if n = 0 then None else Some n)"

record fs_permissions =
  perm_entries :: "fs_entry list"
  perm_glob_scan_max_depth :: "nat option"

definition from_read_write_roots :: "str list option \<Rightarrow> str list option \<Rightarrow> fs_permissions" where
  "from_read_write_roots read write =
     \<lparr>perm_entries =
        (case read of Some read \<Rightarrow> map (\<lambda>path. fs_entry_of (PathEntry path) Read) read | None \<Rightarrow> [])
        @ (case write of Some write \<Rightarrow> map (\<lambda>path. fs_entry_of (PathEntry path) Write) write | None \<Rightarrow> []),
      perm_glob_scan_max_depth = None\<rparr>"

definition explicit_path_entries :: "fs_permissions \<Rightarrow> (str \<times> access_mode) list" where
  "explicit_path_entries f =
     List.map_filter (\<lambda>entry. case entry_path entry of PathEntry path \<Rightarrow> Some (path, entry_access entry) | _ \<Rightarrow> None)
       (perm_entries f)"

fun legacy_loop :: "fs_entry list \<Rightarrow> str list \<Rightarrow> str list \<Rightarrow> (str list \<times> str list) option" where
  "legacy_loop [] read write = Some (read, write)"
| "legacy_loop (entry # rest) read write =
     (case entry_path entry of
        PathEntry path \<Rightarrow>
          (case entry_access entry of
             Read \<Rightarrow> legacy_loop rest (read @ [path]) write
           | Write \<Rightarrow> legacy_loop rest read (write @ [path])
           | Deny \<Rightarrow> None)
      | _ \<Rightarrow> None)"

definition as_legacy_permissions :: "fs_permissions \<Rightarrow> (str list option \<times> str list option) option" where
  "as_legacy_permissions f =
     (if perm_glob_scan_max_depth f \<noteq> None then None
      else map_option (\<lambda>(read, write).
        (if read = [] then None else Some read, if write = [] then None else Some write))
        (legacy_loop (perm_entries f) [] []))"

definition fs_permissions_from :: "fs_policy \<Rightarrow> fs_permissions" where
  "fs_permissions_from p =
     \<lparr>perm_entries = (case kind p of Restricted \<Rightarrow> entries p | _ \<Rightarrow> [fs_entry_of (Special Root) Write]),
      perm_glob_scan_max_depth = Option.bind (glob_scan_max_depth p) non_zero\<rparr>"

definition fs_policy_of_permissions :: "fs_permissions \<Rightarrow> fs_policy" where
  "fs_policy_of_permissions f =
     (restricted (perm_entries f))\<lparr>glob_scan_max_depth := perm_glob_scan_max_depth f\<rparr>"

subsection \<open>Permission profiles\<close>

datatype sandbox_enforcement = EnforceManaged | EnforceDisabled | EnforceExternal

datatype managed_permissions = ManagedRestricted "fs_entry list" "nat option" | ManagedUnrestricted

datatype permission_profile =
    Managed managed_permissions network_sandbox_policy
  | Disabled
  | External network_sandbox_policy

fun enforcement_from_legacy :: "sandbox_policy \<Rightarrow> sandbox_enforcement" where
  "enforcement_from_legacy DangerFullAccess = EnforceDisabled"
| "enforcement_from_legacy (ExternalPolicy _) = EnforceExternal"
| "enforcement_from_legacy _ = EnforceManaged"

definition from_sandbox_policy :: "fs_policy \<Rightarrow> managed_permissions option" where
  "from_sandbox_policy p =
     (case kind p of
        Restricted \<Rightarrow> Some (ManagedRestricted (entries p) (Option.bind (glob_scan_max_depth p) non_zero))
      | Unrestricted \<Rightarrow> Some ManagedUnrestricted
      | ExternalSandbox \<Rightarrow> None)"

fun to_sandbox_policy :: "managed_permissions \<Rightarrow> fs_policy" where
  "to_sandbox_policy (ManagedRestricted es depth) = \<lparr>kind = Restricted, glob_scan_max_depth = depth, entries = es\<rparr>"
| "to_sandbox_policy ManagedUnrestricted = unrestricted"

definition profile_workspace_write_with ::
  "fs_env \<Rightarrow> str list \<Rightarrow> network_sandbox_policy \<Rightarrow> bool \<Rightarrow> bool \<Rightarrow> permission_profile option" where
  "profile_workspace_write_with env roots network exclude_tmpdir_env_var exclude_slash_tmp =
     map_option (\<lambda>fs. Managed fs network)
       (from_sandbox_policy (workspace_write env roots exclude_tmpdir_env_var exclude_slash_tmp))"

definition profile_workspace_write :: "fs_env \<Rightarrow> permission_profile option" where
  "profile_workspace_write env = profile_workspace_write_with env [] NetworkRestricted False False"

definition profile_read_only :: "permission_profile option" where
  "profile_read_only = map_option (\<lambda>fs. Managed fs NetworkRestricted) (from_sandbox_policy read_only)"

definition profile_materialize_project_roots ::
  "fs_env \<Rightarrow> permission_profile \<Rightarrow> str list \<Rightarrow> permission_profile option" where
  "profile_materialize_project_roots env profile workspace_roots =
     (case profile of
        Managed fs network \<Rightarrow>
          map_option (\<lambda>fs. Managed fs network) (from_sandbox_policy
            (materialize_project_roots_with_workspace_roots env (to_sandbox_policy fs) workspace_roots))
      | Disabled \<Rightarrow> Some Disabled
      | External network \<Rightarrow> Some (External network))"

definition from_runtime_permissions_with_enforcement ::
  "sandbox_enforcement \<Rightarrow> fs_policy \<Rightarrow> network_sandbox_policy \<Rightarrow> permission_profile option" where
  "from_runtime_permissions_with_enforcement enforcement p network =
     (case kind p of
        ExternalSandbox \<Rightarrow> Some (External network)
      | Unrestricted \<Rightarrow>
          if enforcement = EnforceDisabled then Some Disabled
          else map_option (\<lambda>fs. Managed fs network) (from_sandbox_policy p)
      | Restricted \<Rightarrow> map_option (\<lambda>fs. Managed fs network) (from_sandbox_policy p))"

definition from_runtime_permissions :: "fs_policy \<Rightarrow> network_sandbox_policy \<Rightarrow> permission_profile option" where
  "from_runtime_permissions p network =
     from_runtime_permissions_with_enforcement
       (case kind p of ExternalSandbox \<Rightarrow> EnforceExternal | _ \<Rightarrow> EnforceManaged) p network"

definition profile_from_legacy_sandbox_policy :: "fs_env \<Rightarrow> sandbox_policy \<Rightarrow> permission_profile option" where
  "profile_from_legacy_sandbox_policy env sp =
     from_runtime_permissions_with_enforcement (enforcement_from_legacy sp) (fs_policy_from env sp) (network_policy_from sp)"

definition profile_from_legacy_sandbox_policy_for_cwd :: "fs_env \<Rightarrow> sandbox_policy \<Rightarrow> str \<Rightarrow> permission_profile option" where
  "profile_from_legacy_sandbox_policy_for_cwd env sp cwd =
     from_runtime_permissions_with_enforcement (enforcement_from_legacy sp)
       (from_legacy_sandbox_policy_for_cwd env sp cwd) (network_policy_from sp)"

fun enforcement :: "permission_profile \<Rightarrow> sandbox_enforcement" where
  "enforcement (Managed _ _) = EnforceManaged"
| "enforcement Disabled = EnforceDisabled"
| "enforcement (External _) = EnforceExternal"

fun file_system_sandbox_policy :: "permission_profile \<Rightarrow> fs_policy" where
  "file_system_sandbox_policy (Managed fs _) = to_sandbox_policy fs"
| "file_system_sandbox_policy Disabled = unrestricted"
| "file_system_sandbox_policy (External _) = external_sandbox"

fun profile_network_policy :: "permission_profile \<Rightarrow> network_sandbox_policy" where
  "profile_network_policy (Managed _ network) = network"
| "profile_network_policy (External network) = network"
| "profile_network_policy Disabled = NetworkEnabled"

fun profile_to_legacy_sandbox_policy :: "fs_env \<Rightarrow> permission_profile \<Rightarrow> str \<Rightarrow> legacy_error + sandbox_policy" where
  "profile_to_legacy_sandbox_policy env (Managed fs network) cwd =
     to_legacy_sandbox_policy env (to_sandbox_policy fs) network cwd"
| "profile_to_legacy_sandbox_policy env Disabled cwd = Inr DangerFullAccess"
| "profile_to_legacy_sandbox_policy env (External network) cwd =
     Inr (ExternalPolicy (if is_enabled network then AccessEnabled else AccessRestricted))"

definition to_runtime_permissions :: "permission_profile \<Rightarrow> fs_policy \<times> network_sandbox_policy" where
  "to_runtime_permissions profile = (file_system_sandbox_policy profile, profile_network_policy profile)"

subsection \<open>The way back to a legacy policy\<close>

lemma append_default_entry: "\<exists>es'. append_default_read_only_entry_if_no_explicit_rule es path = es @ es' \<and>
    list_all (\<lambda>e. entry_access e = Read) es'"
  by (auto simp: append_default_read_only_entry_if_no_explicit_rule_def fs_entry_of_def)

lemma foldl_append_reads:
  assumes "\<And>es x. \<exists>es'. f es x = es @ es' \<and> list_all (\<lambda>e. entry_access e = Read) es'"
  shows "\<exists>es'. foldl f es xs = es @ es' \<and> list_all (\<lambda>e. entry_access e = Read) es'"
proof (induction xs arbitrary: es)
  case (Cons x xs)
  from assms obtain e1 where e1: "f es x = es @ e1" "list_all (\<lambda>e. entry_access e = Read) e1" by metis
  from Cons [of "f es x"] obtain e2 where "foldl f (f es x) xs = f es x @ e2" "list_all (\<lambda>e. entry_access e = Read) e2" by blast
  with e1 show ?case by (intro exI [of _ "e1 @ e2"]) simp
qed simp

lemma append_protected_reads:
  "\<exists>es'. append_protected_paths env es r protect = es @ es' \<and> list_all (\<lambda>e. entry_access e = Read) es'"
  unfolding append_protected_paths_def append_default_read_only_path_if_no_explicit_rule_def
  by (rule foldl_append_reads [OF append_default_entry])

lemma append_all_protected_reads:
  "\<exists>es'. foldl (\<lambda>es r. append_protected_paths env es r False) es roots = es @ es' \<and> list_all (\<lambda>e. entry_access e = Read) es'"
  by (rule foldl_append_reads [OF append_protected_reads])

lemma append_project_subpath_reads:
  "\<exists>es'. foldl append_default_read_only_project_root_subpath_if_no_explicit_rule es names = es @ es' \<and>
     list_all (\<lambda>e. entry_access e = Read) es'"
  by (rule foldl_append_reads) (simp add: append_default_read_only_project_root_subpath_if_no_explicit_rule_def append_default_entry)

lemma workspace_write_reads:
  "\<exists>es'. workspace_write env roots t s = restricted (workspace_write_entries roots t s @ es') \<and>
     list_all (\<lambda>e. entry_access e = Read) es'"
proof -
  let ?b = "workspace_write_entries roots t s" and ?n = "[lit ''.git'', lit ''.agents'', lit ''.codex'']"
  from append_project_subpath_reads obtain e1 where
    e1: "foldl append_default_read_only_project_root_subpath_if_no_explicit_rule ?b ?n = ?b @ e1"
      "list_all (\<lambda>e. entry_access e = Read) e1" by blast
  from append_all_protected_reads obtain e2 where
    e2: "foldl (\<lambda>es r. append_protected_paths env es r False) (?b @ e1) roots = (?b @ e1) @ e2"
      "list_all (\<lambda>e. entry_access e = Read) e2" by blast
  have "workspace_write env roots t s = restricted (?b @ e1 @ e2)"
    unfolding workspace_write_def Let_def e1 e2 by simp
  with e1(2) e2(2) show ?thesis by (intro exI [of _ "e1 @ e2"]) simp
qed

lemma append_cwd_reads:
  "\<exists>es'. (case c of Some cwd_root \<Rightarrow> append_protected_paths env es cwd_root True | None \<Rightarrow> es) = es @ es' \<and>
     list_all (\<lambda>e. entry_access e = Read) es'"
proof (cases c)
  case (Some cwd_root)
  then show ?thesis using append_protected_reads [of env es cwd_root True] by simp
qed simp

lemma for_cwd_reads:
  "\<exists>es'. from_legacy_sandbox_policy_for_cwd env (WorkspaceWrite roots n t s) cwd =
     restricted (workspace_write_entries roots t s @ es') \<and> list_all (\<lambda>e. entry_access e = Read) es'"
proof -
  let ?b = "workspace_write_entries roots t s"
  from workspace_write_reads [of env roots t s] obtain e1 where e1:
    "workspace_write env roots t s = restricted (?b @ e1)" "list_all (\<lambda>e. entry_access e = Read) e1" by blast
  from append_cwd_reads [of "?b @ e1" env "abs_of env cwd"] obtain e2 where e2:
    "(case abs_of env cwd of Some cwd_root \<Rightarrow> append_protected_paths env (?b @ e1) cwd_root True | None \<Rightarrow> ?b @ e1) =
      (?b @ e1) @ e2" "list_all (\<lambda>e. entry_access e = Read) e2" by blast
  from append_all_protected_reads [of env "(?b @ e1) @ e2" roots] obtain e3 where e3:
    "foldl (\<lambda>es r. append_protected_paths env es r False) ((?b @ e1) @ e2) roots = ((?b @ e1) @ e2) @ e3"
    "list_all (\<lambda>e. entry_access e = Read) e3" by blast
  have es: "entries (restricted x) = x" and upd: "(restricted x)\<lparr>entries := y\<rparr> = restricted y" for x y
    by (simp_all add: restricted_def)
  have "from_legacy_sandbox_policy_for_cwd env (WorkspaceWrite roots n t s) cwd = restricted (((?b @ e1) @ e2) @ e3)"
    by (simp only: from_legacy_sandbox_policy_for_cwd_def Let_def fs_policy_from.simps sandbox_policy.case e1(1) es e2(1) e3(1) upd)
  moreover have "list_all (\<lambda>e. entry_access e = Read) (e1 @ e2 @ e3)" using e1(2) e2(2) e3(2) by simp
  ultimately show ?thesis by (metis append.assoc)
qed

lemma scan_reads:
  "list_all (\<lambda>e. entry_access e = Read) es \<Longrightarrow> foldl (scan_entry env c) s es = s"
  by (induction es) (auto split: fs_path.split special_path.split option.split)

lemma scan_write_paths:
  "c \<notin> Some ` set roots \<Longrightarrow> foldl (scan_entry env c) s (map (\<lambda>path. fs_entry_of (PathEntry path) Write) roots) =
     s\<lparr>scan_writable_roots := scan_writable_roots s @ roots\<rparr>"
proof (induction roots arbitrary: s)
  case (Cons r roots)
  then have "scan_entry env c s (fs_entry_of (PathEntry r) Write) = s\<lparr>scan_writable_roots := scan_writable_roots s @ [r]\<rparr>"
    by (auto simp: fs_entry_of_def)
  with Cons show ?case by simp
qed simp

lemma dedup_loop_distinct: "distinct (acc @ xs) \<Longrightarrow> dedup_loop acc xs = acc @ xs"
  by (induction acc xs rule: dedup_loop.induct) auto

lemma workspace_write_not_full:
  assumes "list_all (\<lambda>e. entry_access e = Read) es"
  shows "\<not> has_full_disk_write_access (restricted (workspace_write_entries roots t s @ es))"
  using assms
  by (auto simp: has_full_disk_write_access_def has_root_access_iff restricted_def workspace_write_entries_def
      fs_entry_of_def list_all_iff can_write_iff split: if_splits)

lemma scan_workspace_write:
  assumes "c \<notin> Some ` set roots" "list_all (\<lambda>e. entry_access e = Read) es"
  shows "foldl (scan_entry env c) scan_start (workspace_write_entries roots t s @ es) =
    \<lparr>workspace_root_writable = True, scan_writable_roots = roots, tmpdir_writable = \<not> t, slash_tmp_writable = \<not> s,
     unbridgeable_root_write = False\<rparr>"
proof -
  have "foldl (scan_entry env c) scan_start
      ([fs_entry_of (Special Root) Read, fs_entry_of (Special (ProjectRoots None)) Write]
       @ (if \<not> s then [fs_entry_of (Special SlashTmp) Write] else [])
       @ (if \<not> t then [fs_entry_of (Special Tmpdir) Write] else [])) =
    \<lparr>workspace_root_writable = True, scan_writable_roots = [], tmpdir_writable = \<not> t, slash_tmp_writable = \<not> s,
     unbridgeable_root_write = False\<rparr>"
    by (cases t; cases s) (simp_all add: fs_entry_of_def scan_start_def)
  with assms show ?thesis by (simp add: workspace_write_entries_def scan_write_paths scan_reads del: scan_entry.simps)
qed



end
