(* ===== verification/ExecApproval.thy ===== *)
theory ExecApproval
  imports PolicyBuilder CommandSafety FsLegacy
begin

text \<open>
  Whether a command may run, \<open>core/src/exec_policy.rs\<close>, and whether it runs in a sandbox,
  \<open>core/src/tools/sandboxing.rs\<close>, as compiled for Linux.  A request is split into commands by
  \<open>ShellScript\<close>, evaluated by the rules of \<open>ExecPolicy\<close>, with the heuristics of \<open>CommandSafety\<close> for
  commands no rule matches and the permission profile of \<open>FsLegacy\<close>.  The parser of scripts and
  \<open>shlex::try_join\<close> are arguments; so are, for loading and amending, the directories and files of
  the host and the interpreter of policy files.  The panic of an empty evaluation is \<open>None\<close>.
\<close>

subsection \<open>Approval settings\<close>

record granular_approval_config =
  sandbox_approval :: bool
  rules :: bool
  skill_approval :: bool
  request_permissions :: bool
  mcp_elicitations :: bool

datatype ask_for_approval = UnlessTrusted | OnFailure | OnRequest | Granular granular_approval_config | Never

datatype sandbox_permissions = UseDefault | RequireEscalated | WithAdditionalPermissions

definition requires_escalated_permissions :: "sandbox_permissions \<Rightarrow> bool" where
  "requires_escalated_permissions s \<longleftrightarrow> s = RequireEscalated"

definition requests_sandbox_override :: "sandbox_permissions \<Rightarrow> bool" where
  "requests_sandbox_override s \<longleftrightarrow> s \<noteq> UseDefault"

definition uses_additional_permissions :: "sandbox_permissions \<Rightarrow> bool" where
  "uses_additional_permissions s \<longleftrightarrow> s = WithAdditionalPermissions"

datatype exec_approval_requirement =
    Skip bool "str list option"
  | NeedsApproval "str option" "str list option"
  | ExecForbidden str

fun proposed_execpolicy_amendment :: "exec_approval_requirement \<Rightarrow> str list option" where
  "proposed_execpolicy_amendment (NeedsApproval _ amendment) = amendment"
| "proposed_execpolicy_amendment (Skip _ amendment) = amendment"
| "proposed_execpolicy_amendment (ExecForbidden _) = None"

record exec_policy_commands =
  ep_commands :: "str list list"
  ep_used_complex_parsing :: bool

record unmatched_command_context =
  ctx_approval_policy :: ask_for_approval
  ctx_permission_profile :: permission_profile
  ctx_sandbox_permissions :: sandbox_permissions
  ctx_used_complex_parsing :: bool

record exec_approval_request =
  req_command :: "str list"
  req_approval_policy :: ask_for_approval
  req_permission_profile :: permission_profile
  req_sandbox_permissions :: sandbox_permissions
  req_prefix_rule :: "str list option"

fun is_policy_match :: "rule_match \<Rightarrow> bool" where
  "is_policy_match (PrefixRuleMatch _ _ _ _) = True"
| "is_policy_match (HeuristicsRuleMatch _ _) = False"

definition PROMPT_CONFLICT_REASON :: str where
  "PROMPT_CONFLICT_REASON = lit ''approval required by policy, but AskForApproval is set to Never''"

definition REJECT_SANDBOX_APPROVAL_REASON :: str where
  "REJECT_SANDBOX_APPROVAL_REASON =
     lit ''approval required by policy, but AskForApproval::Granular.sandbox_approval is false''"

definition REJECT_RULES_APPROVAL_REASON :: str where
  "REJECT_RULES_APPROVAL_REASON = lit ''approval required by policy rule, but AskForApproval::Granular.rules is false''"

definition prompt_is_rejected_by_policy :: "ask_for_approval \<Rightarrow> bool \<Rightarrow> str option" where
  "prompt_is_rejected_by_policy approval_policy prompt_is_rule =
     (case approval_policy of
        Never \<Rightarrow> Some PROMPT_CONFLICT_REASON
      | OnFailure \<Rightarrow> None
      | OnRequest \<Rightarrow> None
      | UnlessTrusted \<Rightarrow> None
      | Granular granular_config \<Rightarrow>
          if prompt_is_rule then
            (if \<not> rules granular_config then Some REJECT_RULES_APPROVAL_REASON else None)
          else if \<not> sandbox_approval granular_config then Some REJECT_SANDBOX_APPROVAL_REASON
          else None)"

subsection \<open>Commands that no rule matches\<close>

definition render_decision_for_unmatched_command ::
  "script_parser \<Rightarrow> unmatched_command_context \<Rightarrow> str list \<Rightarrow> decision" where
  "render_decision_for_unmatched_command parse ctx command =
     (let is_known_safe = is_known_safe_command parse command;
          restricted_kind = (if kind (file_system_sandbox_policy (ctx_permission_profile ctx)) = Restricted
            then (if requests_sandbox_override (ctx_sandbox_permissions ctx) then Prompt else Allow) else Allow)
      in if is_known_safe \<and> \<not> ctx_used_complex_parsing ctx \<and> ctx_approval_policy ctx = UnlessTrusted then Allow
         else if command_might_be_dangerous parse command then
           (case ctx_approval_policy ctx of
              Never \<Rightarrow>
                (case ctx_permission_profile ctx of Managed _ _ \<Rightarrow> Forbidden | Disabled \<Rightarrow> Allow | External _ \<Rightarrow> Allow)
            | _ \<Rightarrow> Prompt)
         else
           (case ctx_approval_policy ctx of
              Never \<Rightarrow> Allow
            | OnFailure \<Rightarrow> Allow
            | UnlessTrusted \<Rightarrow> Prompt
            | OnRequest \<Rightarrow> restricted_kind
            | Granular _ \<Rightarrow> restricted_kind))"

definition profile_has_managed_filesystem_restrictions :: "permission_profile \<Rightarrow> bool" where
  "profile_has_managed_filesystem_restrictions profile =
     (let p = file_system_sandbox_policy profile in
      (case profile of Managed _ _ \<Rightarrow> True | _ \<Rightarrow> False) \<and> kind p = Restricted \<and> \<not> has_full_disk_write_access p)"

definition commands_for_exec_policy :: "script_parser \<Rightarrow> str list \<Rightarrow> exec_policy_commands" where
  "commands_for_exec_policy parse command =
     (let whole = (case parse_shell_lc_single_command_prefix parse command of
                     Some single_command \<Rightarrow> \<lparr>ep_commands = [single_command], ep_used_complex_parsing = True\<rparr>
                   | None \<Rightarrow> \<lparr>ep_commands = [command], ep_used_complex_parsing = False\<rparr>)
      in case parse_shell_lc_plain_commands parse command of
           Some commands \<Rightarrow> if commands \<noteq> [] then \<lparr>ep_commands = commands, ep_used_complex_parsing = False\<rparr> else whole
         | None \<Rightarrow> whole)"

subsection \<open>Amendments\<close>

fun heuristic_command :: "decision \<Rightarrow> rule_match \<Rightarrow> str list option" where
  "heuristic_command d (HeuristicsRuleMatch command d') = (if d' = d then Some command else None)"
| "heuristic_command d (PrefixRuleMatch _ _ _ _) = None"

definition is_prompt_rule :: "rule_match \<Rightarrow> bool" where
  "is_prompt_rule m \<longleftrightarrow> is_policy_match m \<and> match_decision m = Prompt"

definition is_allow_rule :: "rule_match \<Rightarrow> bool" where
  "is_allow_rule m \<longleftrightarrow> is_policy_match m \<and> match_decision m = Allow"

definition try_derive_execpolicy_amendment_for_prompt_rules :: "rule_match list \<Rightarrow> str list option" where
  "try_derive_execpolicy_amendment_for_prompt_rules matched_rules =
     (if list_ex is_prompt_rule matched_rules then None
      else first_opt (List.map_filter (heuristic_command Prompt) matched_rules))"

definition try_derive_execpolicy_amendment_for_allow_rules :: "rule_match list \<Rightarrow> str list option" where
  "try_derive_execpolicy_amendment_for_allow_rules matched_rules =
     (if list_ex is_policy_match matched_rules then None
      else first_opt (List.map_filter (heuristic_command Allow) matched_rules))"

definition prefix_rule_would_approve_all_commands ::
  "path_env \<Rightarrow> policy \<Rightarrow> str list \<Rightarrow> str list list \<Rightarrow> (str list \<Rightarrow> decision) \<Rightarrow> bool \<Rightarrow> bool" where
  "prefix_rule_would_approve_all_commands env exec_policy prefix_rule commands fallback resolve =
     (case add_prefix_rule prefix_rule Allow exec_policy of
        (_, Inl _) \<Rightarrow> False
      | (policy_with_prefix_rule, Inr _) \<Rightarrow>
          list_all (\<lambda>command.
            map_option eval_decision (check_with_options env policy_with_prefix_rule command fallback resolve) = Some Allow)
            commands)"

definition BANNED_PREFIX_SUGGESTIONS :: "str list list" where
  "BANNED_PREFIX_SUGGESTIONS = map (map lit)
     [[''python3''], [''python3'', ''-''], [''python3'', ''-c''], [''python''], [''python'', ''-''], [''python'', ''-c''],
      [''py''], [''py'', ''-3''], [''pythonw''], [''pyw''], [''pypy''], [''pypy3''], [''git''], [''bash''],
      [''bash'', ''-lc''], [''sh''], [''sh'', ''-c''], [''sh'', ''-lc''], [''zsh''], [''zsh'', ''-lc''], [''/bin/zsh''],
      [''/bin/zsh'', ''-lc''], [''/bin/bash''], [''/bin/bash'', ''-lc''], [''pwsh''], [''pwsh'', ''-Command''],
      [''pwsh'', ''-c''], [''powershell''], [''powershell'', ''-Command''], [''powershell'', ''-c''], [''powershell.exe''],
      [''powershell.exe'', ''-Command''], [''powershell.exe'', ''-c''], [''env''], [''sudo''], [''node''],
      [''node'', ''-e''], [''perl''], [''perl'', ''-e''], [''ruby''], [''ruby'', ''-e''], [''php''], [''php'', ''-r''],
      [''lua''], [''lua'', ''-e''], [''osascript'']]"

definition derive_requested_execpolicy_amendment_from_prefix_rule ::
  "path_env \<Rightarrow> str list option \<Rightarrow> rule_match list \<Rightarrow> policy \<Rightarrow> str list list \<Rightarrow> (str list \<Rightarrow> decision) \<Rightarrow> bool \<Rightarrow> str list option" where
  "derive_requested_execpolicy_amendment_from_prefix_rule env prefix_rule matched_rules exec_policy commands fallback resolve =
     Option.bind prefix_rule (\<lambda>prefix_rule.
       if prefix_rule = [] then None
       else if list_ex (\<lambda>banned. prefix_rule = banned) BANNED_PREFIX_SUGGESTIONS then None
       else if list_ex is_policy_match matched_rules then None
       else if prefix_rule_would_approve_all_commands env exec_policy prefix_rule commands fallback resolve
       then Some prefix_rule else None)"

subsection \<open>Reasons\<close>

type_synonym shlex_join = "str list \<Rightarrow> str option"

definition render_shlex_command :: "shlex_join \<Rightarrow> str list \<Rightarrow> str" where
  "render_shlex_command shlex args = (case shlex args of Some s \<Rightarrow> s | None \<Rightarrow> join (lit '' '') args)"

fun rule_reason :: "decision \<Rightarrow> rule_match \<Rightarrow> (str list \<times> str option) option" where
  "rule_reason d (PrefixRuleMatch matched_prefix d' _ justification) =
     (if d' = d then Some (matched_prefix, justification) else None)"
| "rule_reason d (HeuristicsRuleMatch _ _) = None"

definition most_specific :: "decision \<Rightarrow> evaluation \<Rightarrow> (str list \<times> str option) option" where
  "most_specific d evaluation =
     max_by_key (\<lambda>(matched_prefix, _). length matched_prefix)
       (List.map_filter (rule_reason d) (eval_matched_rules evaluation))"

definition derive_prompt_reason :: "shlex_join \<Rightarrow> str list \<Rightarrow> evaluation \<Rightarrow> str option" where
  "derive_prompt_reason shlex command_args evaluation =
     (let command = render_shlex_command shlex command_args in
      case most_specific Prompt evaluation of
        Some (_, Some justification) \<Rightarrow> Some (lit ''`'' @ command @ lit ''` requires approval: '' @ justification)
      | Some (_, None) \<Rightarrow> Some (lit ''`'' @ command @ lit ''` requires approval by policy'')
      | None \<Rightarrow> None)"

definition derive_forbidden_reason :: "shlex_join \<Rightarrow> str list \<Rightarrow> evaluation \<Rightarrow> str" where
  "derive_forbidden_reason shlex command_args evaluation =
     (let command = render_shlex_command shlex command_args in
      case most_specific Forbidden evaluation of
        Some (_, Some justification) \<Rightarrow> lit ''`'' @ command @ lit ''` rejected: '' @ justification
      | Some (matched_prefix, None) \<Rightarrow>
          lit ''`'' @ command @ lit ''` rejected: policy forbids commands starting with `''
          @ render_shlex_command shlex matched_prefix @ lit ''`''
      | None \<Rightarrow> lit ''`'' @ command @ lit ''` rejected: blocked by policy'')"

subsection \<open>The approval requirement\<close>

definition request_context :: "exec_approval_request \<Rightarrow> bool \<Rightarrow> unmatched_command_context" where
  "request_context req used_complex_parsing =
     \<lparr>ctx_approval_policy = req_approval_policy req, ctx_permission_profile = req_permission_profile req,
      ctx_sandbox_permissions = req_sandbox_permissions req, ctx_used_complex_parsing = used_complex_parsing\<rparr>"

definition create_exec_approval_requirement_for_command ::
  "script_parser \<Rightarrow> shlex_join \<Rightarrow> path_env \<Rightarrow> policy \<Rightarrow> exec_approval_request \<Rightarrow> exec_approval_requirement option" where
  "create_exec_approval_requirement_for_command parse shlex env exec_policy req =
     (let cs = commands_for_exec_policy parse (req_command req);
          commands = ep_commands cs;
          auto_amendment_allowed = (\<not> ep_used_complex_parsing cs);
          fallback = render_decision_for_unmatched_command parse (request_context req (ep_used_complex_parsing cs))
      in map_option (\<lambda>evaluation.
        let requested_amendment =
              (if auto_amendment_allowed
               then derive_requested_execpolicy_amendment_from_prefix_rule env (req_prefix_rule req)
                      (eval_matched_rules evaluation) exec_policy commands fallback True
               else None)
        in case eval_decision evaluation of
             Forbidden \<Rightarrow> ExecForbidden (derive_forbidden_reason shlex (req_command req) evaluation)
           | Prompt \<Rightarrow>
               (case prompt_is_rejected_by_policy (req_approval_policy req)
                       (list_ex is_prompt_rule (eval_matched_rules evaluation)) of
                  Some reason \<Rightarrow> ExecForbidden reason
                | None \<Rightarrow>
                    NeedsApproval (derive_prompt_reason shlex (req_command req) evaluation)
                      (case requested_amendment of
                         Some amendment \<Rightarrow> Some amendment
                       | None \<Rightarrow>
                           if auto_amendment_allowed
                           then try_derive_execpolicy_amendment_for_prompt_rules (eval_matched_rules evaluation) else None))
           | Allow \<Rightarrow>
               Skip (list_all (\<lambda>command.
                   list_ex is_allow_rule (matches_for_command_with_options env exec_policy command None True)) commands)
                 (if auto_amendment_allowed
                  then try_derive_execpolicy_amendment_for_allow_rules (eval_matched_rules evaluation) else None))
        (check_multiple_with_options env exec_policy commands fallback True))"

subsection \<open>Sandboxing of the first attempt\<close>

definition default_exec_approval_requirement :: "ask_for_approval \<Rightarrow> fs_policy \<Rightarrow> exec_approval_requirement" where
  "default_exec_approval_requirement policy p =
     (let needs_approval =
        (case policy of
           Never \<Rightarrow> False | OnFailure \<Rightarrow> False
         | OnRequest \<Rightarrow> kind p = Restricted | Granular _ \<Rightarrow> kind p = Restricted
         | UnlessTrusted \<Rightarrow> True)
      in if needs_approval \<and> (case policy of Granular granular_config \<Rightarrow> \<not> sandbox_approval granular_config | _ \<Rightarrow> False)
         then ExecForbidden (lit ''approval policy disallowed sandbox approval prompt'')
         else if needs_approval then NeedsApproval None None
         else Skip False None)"

datatype sandbox_override = NoOverride | BypassSandboxFirstAttempt

definition unsandboxed_execution_allowed :: "fs_policy \<Rightarrow> bool" where
  "unsandboxed_execution_allowed p \<longleftrightarrow> \<not> has_denied_read_restrictions p"

definition sandbox_override_for_first_attempt ::
  "sandbox_permissions \<Rightarrow> exec_approval_requirement \<Rightarrow> fs_policy \<Rightarrow> sandbox_override" where
  "sandbox_override_for_first_attempt permissions requirement p =
     (if \<not> unsandboxed_execution_allowed p then NoOverride
      else if (case requirement of Skip bypass_sandbox _ \<Rightarrow> bypass_sandbox | _ \<Rightarrow> False) then BypassSandboxFirstAttempt
      else if requires_escalated_permissions permissions then BypassSandboxFirstAttempt
      else NoOverride)"

definition sandbox_permissions_preserving_denied_reads :: "sandbox_permissions \<Rightarrow> fs_policy \<Rightarrow> sandbox_permissions" where
  "sandbox_permissions_preserving_denied_reads permissions p =
     (if requires_escalated_permissions permissions \<and> \<not> unsandboxed_execution_allowed p then UseDefault else permissions)"

subsection \<open>Evaluation of a request\<close>

lemma commands_not_Nil: "ep_commands (commands_for_exec_policy parse command) \<noteq> []"
  by (simp add: commands_for_exec_policy_def Let_def split: option.split)

text \<open>With a fallback, a command has the matches of the rules, or the heuristic one if there are none.\<close>

lemma matches_with_fallback:
  "matches_for_command_with_options env p cmd (Some fb) resolve =
     (let ms = matches_for_command_with_options env p cmd None resolve
      in if ms = [] then [HeuristicsRuleMatch cmd (fb cmd)] else ms)"
  by (simp add: matches_for_command_with_options_def Let_def split: list.split option.split)

lemma rule_matches_policy: "m \<in> set (List.map_filter (rule_matches cmd) rs) \<Longrightarrow> is_policy_match m"
  by (auto simp: List.map_filter_def rule_matches_def)

lemma policy_matches: "m \<in> set (matches_for_command_with_options env p cmd None resolve) \<Longrightarrow> is_policy_match m"
proof -
  have exact: "m \<in> set ms \<Longrightarrow> is_policy_match m" if "match_exact_rules p cmd = Some ms" for m ms
    using that rule_matches_policy by (cases cmd) (auto simp: match_exact_rules_def split: option.splits)
  have resolved: "is_policy_match (with_resolved_program program m) = is_policy_match m" for program m by (cases m) simp_all
  have host: "m \<in> set (match_host_executable_rules env p cmd) \<Longrightarrow> is_policy_match m" for m
    using rule_matches_policy
    by (auto simp: match_host_executable_rules_def resolved split: list.splits sum.splits option.splits if_splits)
  assume "m \<in> set (matches_for_command_with_options env p cmd None resolve)"
  then show ?thesis
    using exact host
    by (auto simp: matches_for_command_with_options_def Let_def split: list.splits option.splits if_splits)
qed

definition request_commands :: "script_parser \<Rightarrow> exec_approval_request \<Rightarrow> str list list" where
  "request_commands parse req = ep_commands (commands_for_exec_policy parse (req_command req))"

definition request_fallback :: "script_parser \<Rightarrow> exec_approval_request \<Rightarrow> str list \<Rightarrow> decision" where
  "request_fallback parse req =
     render_decision_for_unmatched_command parse
       (request_context req (ep_used_complex_parsing (commands_for_exec_policy parse (req_command req))))"

definition request_matches :: "script_parser \<Rightarrow> path_env \<Rightarrow> policy \<Rightarrow> exec_approval_request \<Rightarrow> rule_match list" where
  "request_matches parse env p req =
     concat (map (\<lambda>c. matches_for_command_with_options env p c (Some (request_fallback parse req)) True)
       (request_commands parse req))"

lemma request_evaluation:
  "check_multiple_with_options env p (request_commands parse req) (request_fallback parse req) True =
     Some \<lparr>eval_decision = Max (match_decision ` set (request_matches parse env p req)),
           eval_matched_rules = request_matches parse env p req\<rparr>"
proof -
  have "request_matches parse env p req \<noteq> []"
    using commands_not_Nil [of parse "req_command req"]
    by (cases "request_commands parse req") (simp_all add: request_matches_def request_commands_def)
  then show ?thesis
    unfolding check_multiple_with_options_def request_matches_def [symmetric]
    by (rule evaluation_from_matches_decision)
qed

lemma in_request_matches:
  "m \<in> set (request_matches parse env p req) \<longleftrightarrow>
     (\<exists>c \<in> set (request_commands parse req).
        m \<in> set (matches_for_command_with_options env p c (Some (request_fallback parse req)) True))"
  by (auto simp: request_matches_def)

definition request_decision :: "script_parser \<Rightarrow> path_env \<Rightarrow> policy \<Rightarrow> exec_approval_request \<Rightarrow> decision" where
  "request_decision parse env p req = Max (match_decision ` set (request_matches parse env p req))"

lemma request_decision_ge: "m \<in> set (request_matches parse env p req) \<Longrightarrow> match_decision m \<le> request_decision parse env p req"
  by (simp add: request_decision_def)

text \<open>The shape of the answer, by the strictest decision.\<close>

lemma requirement_cases:
  "create_exec_approval_requirement_for_command parse shlex env p req \<noteq> None"
  "request_decision parse env p req = Forbidden \<Longrightarrow>
     \<exists>reason. create_exec_approval_requirement_for_command parse shlex env p req = Some (ExecForbidden reason)"
  "create_exec_approval_requirement_for_command parse shlex env p req = Some (NeedsApproval reason am) \<Longrightarrow>
     request_decision parse env p req = Prompt \<and>
     prompt_is_rejected_by_policy (req_approval_policy req) (list_ex is_prompt_rule (request_matches parse env p req)) = None"
  "create_exec_approval_requirement_for_command parse shlex env p req = Some (Skip bypass am) \<Longrightarrow>
     request_decision parse env p req = Allow \<and>
     bypass = list_all (\<lambda>c. list_ex is_allow_rule (matches_for_command_with_options env p c None True)) (request_commands parse req)"
  unfolding create_exec_approval_requirement_for_command_def Let_def request_commands_def [symmetric]
    request_fallback_def [symmetric] request_evaluation request_decision_def [symmetric]
  by (cases "request_decision parse env p req"; simp split: option.splits)+

subsection \<open>Properties of the answer\<close>

text \<open>C19. Every request is answered: the split of a command is never empty, so the evaluation never
  panics, whatever the policy, the parser and the settings are.\<close>

theorem approval_always_answered:
  "\<exists>requirement. create_exec_approval_requirement_for_command parse shlex env p req = Some requirement"
  using requirement_cases(1) by blast

lemma prompt_rule_matched:
  "list_ex is_prompt_rule (request_matches parse env p req) \<longleftrightarrow>
     list_ex (\<lambda>c. list_ex is_prompt_rule (matches_for_command_with_options env p c None True)) (request_commands parse req)"
proof -
  have "\<not> is_prompt_rule (HeuristicsRuleMatch c d)" for c d by (simp add: is_prompt_rule_def)
  then have "list_ex is_prompt_rule (matches_for_command_with_options env p c (Some fb) True) =
      list_ex is_prompt_rule (matches_for_command_with_options env p c None True)" for c fb
    by (simp add: matches_with_fallback Let_def)
  then show ?thesis by (simp add: request_matches_def list_ex_iff)
qed

text \<open>C22. The user is asked only when the settings allow it: never under \<open>Never\<close>, and under granular
  settings only when they allow the kind of prompt that arises, a rule that asks or the heuristics.\<close>

theorem approval_settings_respected:
  assumes "create_exec_approval_requirement_for_command parse shlex env p req = Some (NeedsApproval reason amendment)"
  shows "req_approval_policy req \<noteq> Never
    \<and> (\<forall>g. req_approval_policy req = Granular g \<longrightarrow>
         (if list_ex (\<lambda>c. list_ex is_prompt_rule (matches_for_command_with_options env p c None True)) (request_commands parse req)
          then rules g else sandbox_approval g))"
  using requirement_cases(3) [OF assms] unfolding prompt_rule_matched
  by (auto simp: prompt_is_rejected_by_policy_def split: if_splits)

definition sample_request :: "char list list \<Rightarrow> ask_for_approval \<Rightarrow> exec_approval_request" where
  "sample_request command approval =
     \<lparr>req_command = map lit command, req_approval_policy = approval,
      req_permission_profile = Managed (ManagedRestricted [fs_entry_of (Special Root) Read] None) NetworkRestricted,
      req_sandbox_permissions = UseDefault, req_prefix_rule = None\<rparr>"

definition sample_granular :: granular_approval_config where
  "sample_granular = \<lparr>sandbox_approval = True, rules = False, skill_approval = False, request_permissions = False,
     mcp_elicitations = False\<rparr>"

definition sample_path_env :: path_env where
  "sample_path_env = \<lparr>env_home = None, env_cwd = Inr (lit ''/w'')\<rparr>"

definition sample_exec_policy :: policy where
  "sample_exec_policy =
     fst (add_prefix_rule [lit ''pwd''] Allow (fst (add_prefix_rule [lit ''ls''] Allow policy_empty)))"

theorem approval_settings_respected_witness:
  "create_exec_approval_requirement_for_command sample_parser (\<lambda>_. None) sample_path_env policy_empty
     (sample_request [''rm'', ''-rf'', ''x''] (Granular sample_granular)) =
     Some (NeedsApproval None (Some (map lit [''rm'', ''-rf'', ''x''])))
   \<and> sandbox_approval sample_granular"
proof -
  let ?req = "sample_request [''rm'', ''-rf'', ''x''] (Granular sample_granular)"
  have ask: "create_exec_approval_requirement_for_command sample_parser (\<lambda>_. None) sample_path_env policy_empty ?req =
     Some (NeedsApproval None (Some (map lit [''rm'', ''-rf'', ''x''])))" by code_simp
  have none: "\<not> list_ex (\<lambda>c. list_ex is_prompt_rule (matches_for_command_with_options sample_path_env policy_empty c None True))
     (request_commands sample_parser ?req)" by code_simp
  have "req_approval_policy ?req = Granular sample_granular" by (simp add: sample_request_def)
  with approval_settings_respected [OF ask] none have "sandbox_approval sample_granular" by auto
  with ask show ?thesis by blast
qed

text \<open>C9. A command runs outside the sandbox without being asked for only if each of its parts is
  explicitly allowed: some rule allows it and no rule that matches it asks or forbids.\<close>

theorem bypass_only_when_allowed:
  assumes "create_exec_approval_requirement_for_command parse shlex env p req = Some (Skip True amendment)"
    and "c \<in> set (request_commands parse req)"
  shows "matches_for_command_with_options env p c None True \<noteq> []
    \<and> (\<forall>m \<in> set (matches_for_command_with_options env p c None True). is_allow_rule m)"
proof -
  note skip = requirement_cases(4) [OF assms(1)]
  from skip assms(2) have ex: "list_ex is_allow_rule (matches_for_command_with_options env p c None True)"
    by (simp add: list_all_iff)
  have "is_allow_rule m" if m: "m \<in> set (matches_for_command_with_options env p c None True)" for m
  proof -
    have "m \<in> set (request_matches parse env p req)"
      using m assms(2) by (auto simp: in_request_matches matches_with_fallback Let_def intro!: bexI [of _ c])
    from request_decision_ge [OF this] skip have "match_decision m = Allow"
      by (cases "match_decision m") (simp_all add: less_eq_decision_def)
    with policy_matches [OF m] show ?thesis by (simp add: is_allow_rule_def)
  qed
  with ex show ?thesis by auto
qed

theorem bypass_only_when_allowed_witness:
  "matches_for_command_with_options sample_path_env sample_exec_policy [lit ''pwd'', lit ''-P''] None True \<noteq> []
   \<and> list_all is_allow_rule (matches_for_command_with_options sample_path_env sample_exec_policy [lit ''pwd'', lit ''-P''] None True)"
proof -
  let ?req = "sample_request [''bash'', ''-lc'', ''ls && pwd -P''] OnRequest"
  have "create_exec_approval_requirement_for_command sample_parser (\<lambda>_. None) sample_path_env sample_exec_policy ?req =
     Some (Skip True None)" by code_simp
  moreover have "[lit ''pwd'', lit ''-P''] \<in> set (request_commands sample_parser ?req)" by code_simp
  ultimately show ?thesis unfolding list_all_iff by (rule bypass_only_when_allowed)
qed

lemma unmatched_dangerous:
  assumes "command_might_be_dangerous parse c" "lit ''zsh'' \<notin> set (tl c)"
    and "req_approval_policy req \<noteq> Never \<or> enforcement (req_permission_profile req) = EnforceManaged"
  shows "request_fallback parse req c \<noteq> Allow"
proof -
  have "\<not> is_known_safe_command parse c" using safe_command_not_dangerous assms(1,2) by blast
  with assms show ?thesis
    by (auto simp: request_fallback_def render_decision_for_unmatched_command_def request_context_def Let_def
        split: ask_for_approval.split permission_profile.split)
qed

text \<open>C8. A part of a command that looks dangerous and that no rule matches never runs unasked: the
  answer is a prompt or a refusal, unless prompts are off and there is no managed sandbox.  (The
  heuristics read the word \<open>zsh\<close> as \<open>bash\<close>, so it must not be an argument.)\<close>

theorem dangerous_never_skipped:
  assumes "c \<in> set (request_commands parse req)" "command_might_be_dangerous parse c" "lit ''zsh'' \<notin> set (tl c)"
    and "matches_for_command_with_options env p c None True = []"
    and "req_approval_policy req \<noteq> Never \<or> enforcement (req_permission_profile req) = EnforceManaged"
  shows "\<forall>bypass amendment.
    create_exec_approval_requirement_for_command parse shlex env p req \<noteq> Some (Skip bypass amendment)"
proof (intro allI notI)
  fix bypass amendment
  assume "create_exec_approval_requirement_for_command parse shlex env p req = Some (Skip bypass amendment)"
  then have allow: "request_decision parse env p req = Allow" using requirement_cases(4) by blast
  have "request_fallback parse req c \<noteq> Allow"
    by (rule unmatched_dangerous [OF assms(2,3,5)])
  moreover have "HeuristicsRuleMatch c (request_fallback parse req c) \<in> set (request_matches parse env p req)"
    using assms(1,4) by (auto simp: in_request_matches matches_with_fallback intro!: bexI [of _ c])
  then have "request_fallback parse req c \<le> Allow"
    using request_decision_ge allow by (metis match_decision.simps(2))
  ultimately show False by (cases "request_fallback parse req c") (simp_all add: less_eq_decision_def)
qed

theorem dangerous_never_skipped_witness:
  "\<forall>bypass amendment.
     create_exec_approval_requirement_for_command sample_parser (\<lambda>_. None) sample_path_env sample_exec_policy
       (sample_request [''sudo'', ''rm'', ''-rf'', ''x''] Never) \<noteq> Some (Skip bypass amendment)"
  by (rule dangerous_never_skipped [where c = "map lit [''sudo'', ''rm'', ''-rf'', ''x'']"]) code_simp+



end
