(* ===== verification/PolicyTransforms.thy ===== *)
theory PolicyTransforms
  imports FsLegacy
begin

text \<open>
  Additional permissions, \<open>sandboxing/src/policy_transforms.rs\<close>: how requested and granted permissions
  are normalised, merged and intersected, and how they change the policy a command runs under.  The
  compiler of glob patterns is an argument.  The lemmas compare what an intersection lets a command
  read with what the request asked for.
\<close>

subsection \<open>Permissions\<close>

record network_permissions =
  net_enabled :: "bool option"

definition network_permissions_is_empty :: "network_permissions \<Rightarrow> bool" where
  "network_permissions_is_empty n \<longleftrightarrow> net_enabled n = None"

definition fs_permissions_is_empty :: "fs_permissions \<Rightarrow> bool" where
  "fs_permissions_is_empty f \<longleftrightarrow> perm_entries f = []"

record additional_permissions =
  add_network :: "network_permissions option"
  add_file_system :: "fs_permissions option"

definition additional_is_empty :: "additional_permissions \<Rightarrow> bool" where
  "additional_is_empty a \<longleftrightarrow> add_network a = None \<and> add_file_system a = None"

text \<open>\<open>Option::filter\<close>.\<close>

definition filter_option :: "('a \<Rightarrow> bool) \<Rightarrow> 'a option \<Rightarrow> 'a option" where
  "filter_option P x = Option.bind x (\<lambda>y. if P y then Some y else None)"

subsection \<open>Normal form\<close>

definition normalize_permission_path :: "fs_env \<Rightarrow> fs_path \<Rightarrow> fs_path" where
  "normalize_permission_path env path =
     (case path of
        PathEntry path \<Rightarrow>
          PathEntry (case Option.bind (canonicalize_preserving_symlinks env path) (abs_of env) of
                       Some path \<Rightarrow> path | None \<Rightarrow> path)
      | GlobPattern pattern \<Rightarrow> GlobPattern pattern
      | Special v \<Rightarrow> Special v)"

fun normalize_entries_loop :: "fs_env \<Rightarrow> fs_entry list \<Rightarrow> fs_entry list \<Rightarrow> str + fs_entry list" where
  "normalize_entries_loop env [] es = Inr es"
| "normalize_entries_loop env (entry # rest) es =
     (if (case entry_path entry of GlobPattern _ \<Rightarrow> True | _ \<Rightarrow> False) \<and> entry_access entry \<noteq> Deny
      then Inl (lit ''glob file system permissions only support deny-read entries'')
      else normalize_entries_loop env rest
        (push_entry_if_new es (fs_entry_of (normalize_permission_path env (entry_path entry)) (entry_access entry))))"

definition normalize_additional_permissions :: "fs_env \<Rightarrow> additional_permissions \<Rightarrow> str + additional_permissions" where
  "normalize_additional_permissions env a =
     (let network = filter_option (\<lambda>n. \<not> network_permissions_is_empty n) (add_network a)
      in case add_file_system a of
           Some file_system \<Rightarrow>
             and_then (normalize_entries_loop env (perm_entries file_system) []) (\<lambda>es.
               let file_system = \<lparr>perm_entries = es, perm_glob_scan_max_depth = perm_glob_scan_max_depth file_system\<rparr>
               in Inr \<lparr>add_network = network,
                       add_file_system = (if \<not> fs_permissions_is_empty file_system then Some file_system else None)\<rparr>)
         | None \<Rightarrow> Inr \<lparr>add_network = network, add_file_system = None\<rparr>)"

subsection \<open>Merging\<close>

datatype glob_scan_depth = Bounded nat | Unbounded

definition effective_glob_scan_depth :: "fs_entry list \<Rightarrow> nat option \<Rightarrow> glob_scan_depth option" where
  "effective_glob_scan_depth es depth =
     (if list_ex (\<lambda>entry. entry_access entry = Deny \<and>
           (case entry_path entry of GlobPattern _ \<Rightarrow> True | _ \<Rightarrow> False)) es
      then Some (case depth of Some depth \<Rightarrow> Bounded depth | None \<Rightarrow> Unbounded) else None)"

definition merge_glob_scan_max_depth :: "fs_entry list \<Rightarrow> nat option \<Rightarrow> fs_entry list \<Rightarrow> nat option \<Rightarrow> nat option" where
  "merge_glob_scan_max_depth left_entries left_depth right_entries right_depth =
     (case (effective_glob_scan_depth left_entries left_depth, effective_glob_scan_depth right_entries right_depth) of
        (Some Unbounded, _) \<Rightarrow> None
      | (_, Some Unbounded) \<Rightarrow> None
      | (Some (Bounded left), Some (Bounded right)) \<Rightarrow> Some (max left right)
      | (Some (Bounded depth), None) \<Rightarrow> Some depth
      | (None, Some (Bounded depth)) \<Rightarrow> Some depth
      | (None, None) \<Rightarrow> None)"

definition merge_permission_entries :: "fs_entry list \<Rightarrow> fs_entry list \<Rightarrow> fs_entry list" where
  "merge_permission_entries base permissions = foldl push_entry_if_new [] (base @ permissions)"

definition network_granted :: "network_permissions option \<Rightarrow> bool" where
  "network_granted n \<longleftrightarrow> Option.bind n net_enabled = Some True"

definition merge_permission_profiles ::
  "additional_permissions option \<Rightarrow> additional_permissions option \<Rightarrow> additional_permissions option" where
  "merge_permission_profiles base permissions =
     (case permissions of
        None \<Rightarrow> base
      | Some permissions \<Rightarrow>
          (case base of
             Some base \<Rightarrow>
               let network = (if network_granted (add_network base) \<or> network_granted (add_network permissions)
                              then Some \<lparr>net_enabled = Some True\<rparr> else None);
                   file_system =
                     (case (add_file_system base, add_file_system permissions) of
                        (Some base, Some permissions) \<Rightarrow>
                          filter_option (\<lambda>f. \<not> fs_permissions_is_empty f) (Some
                            \<lparr>perm_entries = merge_permission_entries (perm_entries base) (perm_entries permissions),
                             perm_glob_scan_max_depth = Option.bind (merge_glob_scan_max_depth
                               (perm_entries base) (perm_glob_scan_max_depth base)
                               (perm_entries permissions) (perm_glob_scan_max_depth permissions)) non_zero\<rparr>)
                      | (Some base, None) \<Rightarrow> Some base
                      | (None, Some permissions) \<Rightarrow> Some permissions
                      | (None, None) \<Rightarrow> None)
               in filter_option (\<lambda>a. \<not> additional_is_empty a)
                    (Some \<lparr>add_network = network, add_file_system = file_system\<rparr>)
           | None \<Rightarrow> filter_option (\<lambda>a. \<not> additional_is_empty a) (Some permissions)))"

subsection \<open>Intersection\<close>

fun access_covers :: "access_mode \<Rightarrow> access_mode \<Rightarrow> bool" where
  "access_covers requested Read = can_read requested"
| "access_covers requested Write = can_write requested"
| "access_covers requested Deny = False"

definition resolve_permission_path :: "fs_env \<Rightarrow> fs_path \<Rightarrow> str \<Rightarrow> str option" where
  "resolve_permission_path env path cwd =
     (case path of
        PathEntry path \<Rightarrow> Some path
      | GlobPattern _ \<Rightarrow> None
      | Special v \<Rightarrow>
          (case v of
             Root \<Rightarrow> abs_of env (last (path_ancestors cwd))
           | ProjectRoots subpath \<Rightarrow>
               Option.bind (abs_of env cwd) (\<lambda>cwd.
                 Some (case subpath of
                         Some subpath \<Rightarrow> resolve_path_against_base (fs_home env) subpath cwd
                       | None \<Rightarrow> cwd))
           | Tmpdir \<Rightarrow> Option.bind (fs_tmpdir env) (\<lambda>tmpdir. if tmpdir = [] then None else abs_of env tmpdir)
           | SlashTmp \<Rightarrow> filter_option (fs_is_dir env) (abs_of env (lit ''/tmp''))
           | Minimal \<Rightarrow> None
           | UnknownPath _ _ \<Rightarrow> None))"

definition materialize_cwd_dependent_entry :: "fs_env \<Rightarrow> fs_entry \<Rightarrow> str \<Rightarrow> fs_entry" where
  "materialize_cwd_dependent_entry env entry cwd =
     (case entry_path entry of
        Special (ProjectRoots _) \<Rightarrow>
          (case resolve_permission_path env (entry_path entry) cwd of
             Some path \<Rightarrow> fs_entry_of (PathEntry path) (entry_access entry)
           | None \<Rightarrow> entry)
      | GlobPattern pattern \<Rightarrow>
          fs_entry_of (GlobPattern (resolve_path_against_base (fs_home env) pattern cwd)) (entry_access entry)
      | _ \<Rightarrow> entry)"

definition paths_overlap :: "str \<Rightarrow> str \<Rightarrow> bool" where
  "paths_overlap left right \<longleftrightarrow> path_starts_with right left \<or> path_starts_with left right"

text \<open>The directory that every match of a pattern is below.\<close>

definition glob_char :: "uchar \<Rightarrow> bool" where
  "glob_char c \<longleftrightarrow> c \<in> set (lit ''*?[]'')"

definition glob_static_prefix_path :: "fs_env \<Rightarrow> str \<Rightarrow> str \<Rightarrow> str option" where
  "glob_static_prefix_path env pattern cwd =
     (let resolved_pattern = resolve_path_against_base (fs_home env) pattern cwd in
      if list_ex glob_char resolved_pattern then
        let pre = takeWhile (\<lambda>c. \<not> glob_char c) resolved_pattern in
        if pre = [] then None
        else Option.bind
          (if last pre = slash \<or> last pre = of_char (CHR 0x5C) then Some pre else path_parent pre) (abs_of env)
      else abs_of env resolved_pattern)"

definition granted_file_system_entry_within_request ::
  "fs_env \<Rightarrow> fs_permissions \<Rightarrow> fs_policy \<Rightarrow> read_deny_matcher option \<Rightarrow> fs_entry \<Rightarrow> str \<Rightarrow> bool" where
  "granted_file_system_entry_within_request env requested requested_policy requested_read_deny_matcher granted_entry cwd =
     (if \<not> can_read (entry_access granted_entry) then False
      else (case resolve_permission_path env (entry_path granted_entry) cwd of
              Some path \<Rightarrow>
                (if (case requested_read_deny_matcher of Some matcher \<Rightarrow> is_read_denied env matcher path | None \<Rightarrow> False)
                 then False
                 else access_covers (resolve_access_with_cwd env requested_policy path cwd) (entry_access granted_entry))
            | None \<Rightarrow>
                list_ex (\<lambda>requested_entry.
                  access_covers (entry_access requested_entry) (entry_access granted_entry)
                  \<and> fs_path_eq (entry_path requested_entry) (entry_path granted_entry)) (perm_entries requested)))"

definition deny_entry_constrains_accepted_grant :: "fs_env \<Rightarrow> fs_entry \<Rightarrow> fs_entry list \<Rightarrow> str \<Rightarrow> bool" where
  "deny_entry_constrains_accepted_grant env deny_entry accepted_entries cwd \<longleftrightarrow>
     list_ex (\<lambda>entry.
       case resolve_permission_path env (entry_path entry) cwd of
         None \<Rightarrow> False
       | Some grant_path \<Rightarrow>
           (case entry_path deny_entry of
              GlobPattern pattern \<Rightarrow>
                (case glob_static_prefix_path env pattern cwd of
                   Some pre \<Rightarrow> paths_overlap pre grant_path | None \<Rightarrow> False)
            | _ \<Rightarrow>
                (case resolve_permission_path env (entry_path deny_entry) cwd of
                   Some deny_path \<Rightarrow> paths_overlap deny_path grant_path | None \<Rightarrow> False)))
       (filter (\<lambda>entry. can_read (entry_access entry)) accepted_entries)"

text \<open>The loop returns the retained entries and the output list.\<close>

fun retain_loop ::
  "fs_env \<Rightarrow> fs_entry list \<Rightarrow> fs_entry list \<Rightarrow> str \<Rightarrow> fs_entry list \<Rightarrow> fs_entry list \<Rightarrow> fs_entry list \<times> fs_entry list" where
  "retain_loop env [] accepted_entries cwd output_entries retained = (retained, output_entries)"
| "retain_loop env (entry # rest) accepted_entries cwd output_entries retained =
     (if \<not> deny_entry_constrains_accepted_grant env entry accepted_entries cwd
      then retain_loop env rest accepted_entries cwd output_entries retained
      else let entry = materialize_cwd_dependent_entry env entry cwd
        in retain_loop env rest accepted_entries cwd (push_entry_if_new output_entries entry) (retained @ [entry]))"

definition retain_constraining_deny_entries ::
  "fs_env \<Rightarrow> fs_entry list \<Rightarrow> fs_entry list \<Rightarrow> str \<Rightarrow> fs_entry list \<Rightarrow> fs_entry list \<times> fs_entry list" where
  "retain_constraining_deny_entries env source_entries accepted_entries cwd output_entries =
     retain_loop env (filter (\<lambda>entry. entry_access entry = Deny) source_entries) accepted_entries cwd output_entries []"

text \<open>The entries of the grant that the request covers.  The matcher is built by \<open>ReadDenyMatcher::new\<close>,
  which is total.\<close>

definition accepted_grants ::
  "fs_env \<Rightarrow> glob_compiler \<Rightarrow> fs_permissions \<Rightarrow> fs_permissions \<Rightarrow> str \<Rightarrow> fs_entry list" where
  "accepted_grants env compile requested granted cwd =
     (let requested_policy = restricted (perm_entries requested);
          matcher = (case matcher_new env compile requested_policy cwd of Some m \<Rightarrow> m | None \<Rightarrow> None)
      in foldl (\<lambda>accepted entry. push_entry_if_new accepted (materialize_cwd_dependent_entry env entry cwd)) []
           (filter (\<lambda>entry. granted_file_system_entry_within_request env requested requested_policy matcher entry cwd)
             (perm_entries granted)))"

definition intersect_file_system ::
  "fs_env \<Rightarrow> glob_compiler \<Rightarrow> fs_permissions \<Rightarrow> fs_permissions \<Rightarrow> str \<Rightarrow> fs_permissions" where
  "intersect_file_system env compile requested granted cwd =
     (let accepted_entries = accepted_grants env compile requested granted cwd;
          (requested_retained, es) =
            retain_constraining_deny_entries env (perm_entries requested) accepted_entries cwd accepted_entries;
          (granted_retained, es) =
            retain_constraining_deny_entries env (perm_entries granted) accepted_entries cwd es
      in \<lparr>perm_entries = es,
          perm_glob_scan_max_depth = Option.bind (merge_glob_scan_max_depth
            requested_retained (perm_glob_scan_max_depth requested)
            granted_retained (perm_glob_scan_max_depth granted)) non_zero\<rparr>)"

definition intersect_permission_profiles ::
  "fs_env \<Rightarrow> glob_compiler \<Rightarrow> additional_permissions \<Rightarrow> additional_permissions \<Rightarrow> str \<Rightarrow> additional_permissions" where
  "intersect_permission_profiles env compile requested granted cwd =
     \<lparr>add_network =
        (if network_granted (add_network requested) \<and> network_granted (add_network granted)
         then Some \<lparr>net_enabled = Some True\<rparr> else None),
      add_file_system =
        filter_option (\<lambda>f. \<not> fs_permissions_is_empty f)
          (map_option (\<lambda>requested_file_system.
             intersect_file_system env compile requested_file_system
               (case add_file_system granted of Some f \<Rightarrow> f | None \<Rightarrow> \<lparr>perm_entries = [], perm_glob_scan_max_depth = None\<rparr>)
               cwd) (add_file_system requested))\<rparr>"

subsection \<open>The policy of a command\<close>

definition merge_file_system_policy_with_additional_permissions :: "fs_policy \<Rightarrow> fs_permissions \<Rightarrow> fs_policy" where
  "merge_file_system_policy_with_additional_permissions p a =
     (case kind p of
        Restricted \<Rightarrow>
          p\<lparr>entries := foldl push_entry_if_new (entries p) (perm_entries a),
            glob_scan_max_depth := merge_glob_scan_max_depth (entries p) (glob_scan_max_depth p)
              (perm_entries a) (perm_glob_scan_max_depth a)\<rparr>
      | _ \<Rightarrow> p)"

definition effective_file_system_sandbox_policy :: "fs_policy \<Rightarrow> additional_permissions option \<Rightarrow> fs_policy" where
  "effective_file_system_sandbox_policy p additional =
     (case additional of
        None \<Rightarrow> p
      | Some additional \<Rightarrow>
          (case add_file_system additional of
             None \<Rightarrow> p
           | Some f \<Rightarrow>
               if fs_permissions_is_empty f then p
               else merge_file_system_policy_with_additional_permissions p f))"

definition merge_network_access :: "bool \<Rightarrow> additional_permissions \<Rightarrow> bool" where
  "merge_network_access base_network_access a \<longleftrightarrow>
     base_network_access \<or> (case Option.bind (add_network a) net_enabled of Some e \<Rightarrow> e | None \<Rightarrow> False)"

definition effective_network_sandbox_policy :: "network_sandbox_policy \<Rightarrow> additional_permissions option \<Rightarrow> network_sandbox_policy" where
  "effective_network_sandbox_policy n additional =
     (if (case additional of Some a \<Rightarrow> merge_network_access (is_enabled n) a | None \<Rightarrow> False) then NetworkEnabled
      else if additional \<noteq> None then NetworkRestricted
      else n)"

definition effective_permission_profile ::
  "permission_profile \<Rightarrow> additional_permissions option \<Rightarrow> permission_profile option" where
  "effective_permission_profile profile additional =
     (let (file_system_policy, network_policy) = to_runtime_permissions profile
      in from_runtime_permissions_with_enforcement (enforcement profile)
           (effective_file_system_sandbox_policy file_system_policy additional)
           (effective_network_sandbox_policy network_policy additional))"

definition should_require_platform_sandbox :: "fs_policy \<Rightarrow> network_sandbox_policy \<Rightarrow> bool \<Rightarrow> bool" where
  "should_require_platform_sandbox p n has_managed_network_requirements =
     (if has_managed_network_requirements then True
      else if \<not> is_enabled n then kind p \<noteq> ExternalSandbox
      else (case kind p of Restricted \<Rightarrow> \<not> has_full_disk_write_access p | _ \<Rightarrow> False))"

subsection \<open>What an intersection lets a command read\<close>

lemma resolve_permission_path_eq:
  assumes "fs_env_ok env" "normal_path cwd"
  shows "resolve_permission_path env path cwd = resolve_entry_path env path (Some cwd)"
  using assms
  by (cases path; cases "case path of Special v \<Rightarrow> v | _ \<Rightarrow> Root")
    (auto simp: resolve_permission_path_def resolve_entry_path_def absolute_root_path_for_cwd_def filter_option_def
      normal_tmp split: option.splits)

lemma fs_path_eq_resolves:
  assumes "normal_path cwd" "fs_path_eq a b"
  shows "resolve_entry_path env a (Some cwd) = resolve_entry_path env b (Some cwd)"
proof (cases "\<exists>l. a = Special (ProjectRoots l)")
  case True
  then obtain l where a: "a = Special (ProjectRoots l)" by blast
  with assms(2) obtain w where w: "b = Special w" "special_paths_share_target (ProjectRoots l) w" by (cases b) auto
  then obtain l' where "w = ProjectRoots l'" "rel_option path_eq l l'" by (cases w) auto
  with a w(1) assms(1) show ?thesis
    by (cases l; cases l') (auto simp: resolve_entry_path_def resolve_path_eq normal_path_absolute)
next
  case False
  show ?thesis
  proof (cases "\<exists>v w. a = Special v \<and> b = Special w")
    case True
    then obtain v w where "a = Special v" "b = Special w" by blast
    with False assms(2) show ?thesis by (cases v; cases w) (auto simp: resolve_entry_path_def)
  next
    case no: False
    with assms(2) show ?thesis by (cases a; cases b) (auto simp: resolve_entry_path_def)
  qed
qed

lemma materialize_access [simp]: "entry_access (materialize_cwd_dependent_entry env e cwd) = entry_access e"
  by (simp add: materialize_cwd_dependent_entry_def fs_entry_of_def split: fs_path.split special_path.split option.split)

lemma materialize_resolves:
  assumes "fs_env_ok env" "normal_path cwd"
  shows "resolve_entry_path env (entry_path (materialize_cwd_dependent_entry env e cwd)) (Some cwd) =
    resolve_entry_path env (entry_path e) (Some cwd)"
proof (cases "\<exists>l. entry_path e = Special (ProjectRoots l)")
  case True
  then obtain l where l: "entry_path e = Special (ProjectRoots l)" by blast
  with assms(2) show ?thesis
    by (cases l) (simp_all add: materialize_cwd_dependent_entry_def resolve_permission_path_def resolve_entry_path_def fs_entry_of_def)
next
  case False
  then show ?thesis
    by (auto simp: materialize_cwd_dependent_entry_def resolve_entry_path_def fs_entry_of_def
        split: fs_path.split special_path.split)
qed

lemma retain_loop_spec:
  assumes "retain_loop env ds accepted cwd out ret = (ret', out')"
  shows "set out \<subseteq> set out'"
    and "e \<in> set out' \<Longrightarrow> e \<in> set out \<or> (\<exists>d \<in> set ds. e = materialize_cwd_dependent_entry env d cwd)"
    and "d \<in> set ds \<Longrightarrow> deny_entry_constrains_accepted_grant env d accepted cwd \<Longrightarrow>
      \<exists>e \<in> set out'. e = materialize_cwd_dependent_entry env d cwd \<or> entry_eq e (materialize_cwd_dependent_entry env d cwd)"
proof -
  have "set out \<subseteq> set out'
    \<and> (\<forall>e \<in> set out'. e \<in> set out \<or> (\<exists>d \<in> set ds. e = materialize_cwd_dependent_entry env d cwd))
    \<and> (\<forall>d \<in> set ds. deny_entry_constrains_accepted_grant env d accepted cwd \<longrightarrow>
      (\<exists>e \<in> set out'. e = materialize_cwd_dependent_entry env d cwd \<or> entry_eq e (materialize_cwd_dependent_entry env d cwd)))"
    using assms
  proof (induction ds arbitrary: out ret)
    case (Cons d ds)
    let ?m = "materialize_cwd_dependent_entry env d cwd"
    show ?case
    proof (cases "deny_entry_constrains_accepted_grant env d accepted cwd")
      case True
      have "retain_loop env ds accepted cwd (push_entry_if_new out ?m) (ret @ [?m]) = (ret', out')"
        using Cons.prems True by (simp add: Let_def)
      note ih = Cons.IH [OF this]
      have "\<exists>e \<in> set (push_entry_if_new out ?m). e = ?m \<or> entry_eq e ?m"
        using push_entries_add [of ?m "[?m]" out] by simp
      moreover have "set out \<subseteq> set (push_entry_if_new out ?m)" "set (push_entry_if_new out ?m) \<subseteq> insert ?m (set out)"
        by (auto simp: push_entry_if_new_def)
      ultimately show ?thesis using ih True by (simp add: subset_iff) blast
    next
      case False
      then have "retain_loop env ds accepted cwd out ret = (ret', out')" using Cons.prems by simp
      from Cons.IH [OF this] False show ?thesis by auto
    qed
  qed simp
  then show "set out \<subseteq> set out'"
    and "e \<in> set out' \<Longrightarrow> e \<in> set out \<or> (\<exists>d \<in> set ds. e = materialize_cwd_dependent_entry env d cwd)"
    and "d \<in> set ds \<Longrightarrow> deny_entry_constrains_accepted_grant env d accepted cwd \<Longrightarrow>
      \<exists>e \<in> set out'. e = materialize_cwd_dependent_entry env d cwd \<or> entry_eq e (materialize_cwd_dependent_entry env d cwd)"
    by blast+
qed

definition request_matcher :: "fs_env \<Rightarrow> glob_compiler \<Rightarrow> fs_permissions \<Rightarrow> str \<Rightarrow> read_deny_matcher option" where
  "request_matcher env compile requested cwd =
     (case matcher_new env compile (restricted (perm_entries requested)) cwd of Some m \<Rightarrow> m | None \<Rightarrow> None)"

lemma accepted_grants_eq:
  "accepted_grants env compile requested granted cwd =
     foldl push_entry_if_new [] (map (\<lambda>g. materialize_cwd_dependent_entry env g cwd)
       (filter (\<lambda>g. granted_file_system_entry_within_request env requested (restricted (perm_entries requested))
         (request_matcher env compile requested cwd) g cwd) (perm_entries granted)))"
proof -
  have fold: "foldl (\<lambda>acc entry. push_entry_if_new acc (f entry)) es xs = foldl push_entry_if_new es (map f xs)" for f es xs
    by (induction xs arbitrary: es) simp_all
  show ?thesis
    by (simp only: accepted_grants_def Let_def request_matcher_def fold [of "\<lambda>g. materialize_cwd_dependent_entry env g cwd"])
qed

lemma accepted_grants_within:
  assumes "a \<in> set (accepted_grants env compile requested granted cwd)"
  obtains m g where "g \<in> set (perm_entries granted)" "a = materialize_cwd_dependent_entry env g cwd"
    "granted_file_system_entry_within_request env requested (restricted (perm_entries requested)) m g cwd"
proof -
  from push_entries_from [OF assms [unfolded accepted_grants_eq]] obtain g where "g \<in> set (perm_entries granted)"
    "granted_file_system_entry_within_request env requested (restricted (perm_entries requested))
      (request_matcher env compile requested cwd) g cwd" "a = materialize_cwd_dependent_entry env g cwd" by auto
  then show thesis using that by blast
qed

text \<open>The entries of an intersection: grants within the request, and denials.\<close>

lemma intersect_entries:
  assumes "e \<in> set (perm_entries (intersect_file_system env compile requested granted cwd))" "can_read (entry_access e)"
  shows "e \<in> set (accepted_grants env compile requested granted cwd)"
proof -
  let ?acc = "accepted_grants env compile requested granted cwd"
  obtain r es where r: "retain_constraining_deny_entries env (perm_entries requested) ?acc cwd ?acc = (r, es)" by fastforce
  obtain g es' where g: "retain_constraining_deny_entries env (perm_entries granted) ?acc cwd es = (g, es')" by fastforce
  have e: "e \<in> set es'" using assms(1) r g by (simp add: intersect_file_system_def Let_def)
  have "entry_access (materialize_cwd_dependent_entry env d cwd) = Deny"
    if "d \<in> set (filter (\<lambda>entry. entry_access entry = Deny) ds)" for d ds using that by simp
  then have "e \<in> set es" using retain_loop_spec(2) [OF g [unfolded retain_constraining_deny_entries_def] e] assms(2) by auto
  from retain_loop_spec(2) [OF r [unfolded retain_constraining_deny_entries_def] this] assms(2) show ?thesis by auto
qed

lemma intersect_keeps_denials:
  assumes "d \<in> set (perm_entries requested) \<union> set (perm_entries granted)" "entry_access d = Deny"
    and "deny_entry_constrains_accepted_grant env d (accepted_grants env compile requested granted cwd) cwd"
  shows "\<exists>e \<in> set (perm_entries (intersect_file_system env compile requested granted cwd)).
    e = materialize_cwd_dependent_entry env d cwd \<or> entry_eq e (materialize_cwd_dependent_entry env d cwd)"
proof -
  let ?acc = "accepted_grants env compile requested granted cwd"
  obtain r es where r: "retain_constraining_deny_entries env (perm_entries requested) ?acc cwd ?acc = (r, es)" by fastforce
  obtain g es' where g: "retain_constraining_deny_entries env (perm_entries granted) ?acc cwd es = (g, es')" by fastforce
  have es': "perm_entries (intersect_file_system env compile requested granted cwd) = es'"
    using r g by (simp add: intersect_file_system_def Let_def)
  note r = r [unfolded retain_constraining_deny_entries_def] and g = g [unfolded retain_constraining_deny_entries_def]
  show ?thesis
  proof (cases "d \<in> set (perm_entries granted)")
    case True
    with assms(2) have "d \<in> set (filter (\<lambda>entry. entry_access entry = Deny) (perm_entries granted))" by simp
    from retain_loop_spec(3) [OF g this assms(3)] es' show ?thesis by simp
  next
    case False
    with assms(1,2) have "d \<in> set (filter (\<lambda>entry. entry_access entry = Deny) (perm_entries requested))" by simp
    from retain_loop_spec(3) [OF r this assms(3)] retain_loop_spec(1) [OF g] es' show ?thesis by blast
  qed
qed

lemma overlapping_denial_constrains:
  assumes "fs_env_ok env" "normal_path cwd" "a \<in> set accepted" "can_read (entry_access a)"
    and "resolve_entry_path env (entry_path a) (Some cwd) = Some p" "resolve_entry_path env (entry_path d) (Some cwd) = Some q"
    and "paths_overlap q p"
  shows "deny_entry_constrains_accepted_grant env d accepted cwd"
proof -
  note eq = resolve_permission_path_eq [OF assms(1,2)]
  have "\<exists>q. entry_path d = PathEntry q \<or> (\<exists>v. entry_path d = Special v)"
    using assms(6) by (cases "entry_path d") (simp_all add: resolve_entry_path_def)
  then show ?thesis
    unfolding deny_entry_constrains_accepted_grant_def list_ex_iff
    by (intro bexI [of _ a]) (use assms in \<open>auto simp: eq\<close>)
qed

lemma granted_read_within_request:
  assumes "fs_env_ok env" "normal_path cwd" "granted_file_system_entry_within_request env requested p m g cwd"
    and "resolve_entry_path env (entry_path g) (Some cwd) = Some q"
  shows "can_read (entry_access g)" "can_read (resolve_access_with_cwd env p q cwd)"
proof -
  from assms have "can_read (entry_access g)" "access_covers (resolve_access_with_cwd env p q cwd) (entry_access g)"
    by (auto simp: granted_file_system_entry_within_request_def resolve_permission_path_eq split: if_splits)
  then show "can_read (entry_access g)" "can_read (resolve_access_with_cwd env p q cwd)"
    by (cases "entry_access g"; cases "resolve_access_with_cwd env p q cwd"; simp)+
qed

definition below_denials :: "fs_env \<Rightarrow> str \<Rightarrow> fs_entry list \<Rightarrow> str \<Rightarrow> str \<Rightarrow> bool" where
  "below_denials env cwd es target q \<longleftrightarrow>
     (\<forall>d \<in> set es. \<forall>r. entry_access d = Deny \<and> resolve_entry_path env (entry_path d) (Some cwd) = Some r
        \<and> path_starts_with r target \<longrightarrow> length (path_components r) < length (path_components q))"

text \<open>The entry that lets a command read a path: a grant within the request, deeper than every
  denial of either side that covers the path.\<close>

lemma intersection_reader:
  fixes env compile requested granted cwd
  defines "p \<equiv> restricted (perm_entries (intersect_file_system env compile requested granted cwd))"
  assumes env: "fs_env_ok env" and cwd: "normal_path cwd" and target: "resolve_candidate_path env path cwd = Some target"
    and read: "can_read_path_with_cwd env p path cwd"
  obtains g q m where "g \<in> set (perm_entries granted)" "resolve_entry_path env (entry_path g) (Some cwd) = Some q"
    "granted_file_system_entry_within_request env requested (restricted (perm_entries requested)) m g cwd"
    "path_starts_with q target"
    "below_denials env cwd (perm_entries requested @ perm_entries granted) target q"
proof -
  let ?acc = "accepted_grants env compile requested granted cwd"
  have kind: "kind p = Restricted" by (simp add: p_def restricted_def)
  have abs: "abs_of env cwd = Some cwd" using cwd by simp
  have "covering env p target cwd \<noteq> []"
    using read resolve_access_uncovered [OF kind target] by (auto simp: can_read_path_with_cwd_def)
  from resolve_access_entry [OF kind target this] obtain e where e: "e \<in> set (covering env p target cwd)"
    "resolve_access_with_cwd env p path cwd = res_access e"
    and e_max: "\<And>e'. e' \<in> set (covering env p target cwd) \<Longrightarrow> resolved_entry_precedence e' \<le> resolved_entry_precedence e"
    by blast
  from e(1) obtain x where x: "x \<in> set (entries p)" "resolve_entry_path env (entry_path x) (Some cwd) = Some (res_path e)"
    "entry_access x = res_access e" "path_starts_with (res_path e) target" by (elim coveringE) (simp add: abs)
  have x_read: "can_read (entry_access x)" using read e(2) x(3) by (simp add: can_read_path_with_cwd_def)
  have acc: "x \<in> set ?acc" using x(1) by (intro intersect_entries x_read) (simp add: p_def restricted_def)
  then obtain m g where g: "g \<in> set (perm_entries granted)" "x = materialize_cwd_dependent_entry env g cwd"
    "granted_file_system_entry_within_request env requested (restricted (perm_entries requested)) m g cwd"
    by (rule accepted_grants_within)
  show thesis
  proof (rule that [OF g(1) _ g(3) x(4)])
    show "resolve_entry_path env (entry_path g) (Some cwd) = Some (res_path e)"
      using x(2) g(2) materialize_resolves [OF env cwd] by simp
  next
    have "length (path_components r) < length (path_components (res_path e))"
      if d: "d \<in> set (perm_entries requested) \<union> set (perm_entries granted)" "entry_access d = Deny"
        "resolve_entry_path env (entry_path d) (Some cwd) = Some r" "path_starts_with r target" for d r
    proof -
      have "paths_overlap r (res_path e)"
        using path_starts_with_linear [OF d(4) x(4)] path_starts_with_linear [OF x(4) d(4)]
          nat_le_linear [of "length (path_components r)" "length (path_components (res_path e))"]
        by (auto simp: paths_overlap_def)
      then have "deny_entry_constrains_accepted_grant env d ?acc cwd"
        by (rule overlapping_denial_constrains [OF env cwd acc x_read x(2) d(3)])
      from intersect_keeps_denials [OF d(1,2) this] obtain z where z: "z \<in> set (entries p)"
        "z = materialize_cwd_dependent_entry env d cwd \<or> entry_eq z (materialize_cwd_dependent_entry env d cwd)"
        by (auto simp: p_def restricted_def)
      have "resolve_entry_path env (entry_path z) (Some cwd) = Some r" "entry_access z = Deny"
        using z(2) d(2,3) materialize_resolves [OF env cwd, of d] fs_path_eq_resolves [OF cwd] by (auto simp: entry_eq_def)
      then have "\<lparr>res_path = r, res_access = Deny\<rparr> \<in> set (covering env p target cwd)"
        using coveringI [OF z(1) _ d(4)] by (simp add: abs)
      from e_max [OF this] show ?thesis
        using x(3) x_read by (cases "res_access e") (auto simp: resolved_entry_precedence_le depth_of_def less_eq_access_mode_def)
    qed
    then show "below_denials env cwd (perm_entries requested @ perm_entries granted) target (res_path e)"
      by (simp add: below_denials_def)
  qed
qed

text \<open>A policy lets a path be read when an entry covers it and every denial that covers it is shallower.\<close>

lemma can_read_covered:
  assumes "kind p = Restricted" "abs_of env cwd = Some cwd" "resolve_candidate_path env path cwd = Some target"
    and "x \<in> set (entries p)" "resolve_entry_path env (entry_path x) (Some cwd) = Some q" "path_starts_with q target"
    and "below_denials env cwd (entries p) target q"
  shows "can_read_path_with_cwd env p path cwd"
proof -
  have x: "\<lparr>res_path = q, res_access = entry_access x\<rparr> \<in> set (covering env p target cwd)"
    using coveringI [OF assms(4) _ assms(6)] assms(2,5) by simp
  then have "covering env p target cwd \<noteq> []" by auto
  from resolve_access_entry [OF assms(1,3) this] obtain e where e: "e \<in> set (covering env p target cwd)"
    "resolve_access_with_cwd env p path cwd = res_access e"
    "\<And>e'. e' \<in> set (covering env p target cwd) \<Longrightarrow> resolved_entry_precedence e' \<le> resolved_entry_precedence e" by blast
  from e(1) obtain y where y: "y \<in> set (entries p)" "resolve_entry_path env (entry_path y) (Some cwd) = Some (res_path e)"
    "entry_access y = res_access e" "path_starts_with (res_path e) target" by (elim coveringE) (simp add: assms(2))
  from e(3) [OF x] have "length (path_components q) \<le> length (path_components (res_path e))"
    by (auto simp: resolved_entry_precedence_le depth_of_def)
  with assms(7) y have "res_access e \<noteq> Deny" unfolding below_denials_def by (metis leD)
  then show ?thesis using e(2) by (cases "res_access e") (simp_all add: can_read_path_with_cwd_def)
qed

lemma intersect_reads_granted:
  assumes "fs_env_ok env" "normal_path cwd" "resolve_candidate_path env path cwd = Some target"
    and "can_read_path_with_cwd env
      (restricted (perm_entries (intersect_file_system env compile requested granted cwd))) path cwd"
  shows "can_read_path_with_cwd env (restricted (perm_entries granted)) path cwd"
proof -
  obtain g q m where g: "g \<in> set (perm_entries granted)" "resolve_entry_path env (entry_path g) (Some cwd) = Some q"
    "granted_file_system_entry_within_request env requested (restricted (perm_entries requested)) m g cwd"
    "path_starts_with q target"
    and deeper: "below_denials env cwd (perm_entries requested @ perm_entries granted) target q" by (rule intersection_reader [OF assms])
  show ?thesis
    by (rule can_read_covered [OF _ _ assms(3) _ g(2,4)])
      (use g(1) deeper assms(2) in \<open>auto simp: restricted_def below_denials_def\<close>)
qed

lemma intersect_reads_requested:
  assumes "fs_env_ok env" "normal_path cwd" "policy_paths_ok (restricted (perm_entries granted))"
    and "resolve_candidate_path env path cwd = Some target"
    and "can_read_path_with_cwd env
      (restricted (perm_entries (intersect_file_system env compile requested granted cwd))) path cwd"
  shows "can_read_path_with_cwd env (restricted (perm_entries requested)) path cwd"
proof -
  let ?r = "restricted (perm_entries requested)"
  have kind: "kind ?r = Restricted" by (simp add: restricted_def)
  have abs: "abs_of env cwd = Some cwd" using assms(2) by simp
  obtain g q m where g: "g \<in> set (perm_entries granted)"
    "resolve_entry_path env (entry_path g) (Some cwd) = Some q"
    "granted_file_system_entry_within_request env requested ?r m g cwd" "path_starts_with q target"
    and deeper: "below_denials env cwd (perm_entries requested @ perm_entries granted) target q" by (rule intersection_reader [OF assms(1,2,4,5)])
  have q: "resolve_candidate_path env q cwd = Some q"
    using resolve_entry_normal [OF assms(1) abs _ g(2)] assms(3) g(1) by (simp add: policy_paths_ok_def restricted_def)
  have q_read: "can_read (resolve_access_with_cwd env ?r q cwd)"
    by (rule granted_read_within_request(2) [OF assms(1,2) g(3,2)])
  have "covering env ?r q cwd \<noteq> []" using q_read resolve_access_uncovered [OF kind q] by auto
  from resolve_access_entry [OF kind q this] obtain e where e: "e \<in> set (covering env ?r q cwd)"
    "resolve_access_with_cwd env ?r q cwd = res_access e"
    and e_max: "\<And>d. d \<in> set (covering env ?r q cwd) \<Longrightarrow> resolved_entry_precedence d \<le> resolved_entry_precedence e" by blast
  from e(1) obtain x where x: "x \<in> set (entries ?r)" "resolve_entry_path env (entry_path x) (Some cwd) = Some (res_path e)"
    "entry_access x = res_access e" "path_starts_with (res_path e) q" by (elim coveringE) (simp add: abs)
  show ?thesis
  proof (rule can_read_covered [OF kind abs assms(4) x(1,2)])
    show "path_starts_with (res_path e) target" using x(4) g(4) by (rule path_starts_with_trans)
    have "length (path_components r) < length (path_components (res_path e))"
      if d: "d \<in> set (entries ?r)" "entry_access d = Deny" "resolve_entry_path env (entry_path d) (Some cwd) = Some r"
        "path_starts_with r target" for d r
    proof -
      have "length (path_components r) < length (path_components q)"
        using deeper d by (auto simp: below_denials_def restricted_def)
      then have "path_starts_with r q" by (intro path_starts_with_linear [OF d(4) g(4)]) simp
      from coveringI [OF d(1) _ this, of env cwd] d(3) abs
      have "\<lparr>res_path = r, res_access = Deny\<rparr> \<in> set (covering env ?r q cwd)" using d(2) by simp
      from e_max [OF this] q_read e(2) show ?thesis
        by (cases "res_access e") (auto simp: resolved_entry_precedence_le depth_of_def less_eq_access_mode_def)
    qed
    then show "below_denials env cwd (entries ?r) target (res_path e)" by (simp add: below_denials_def)
  qed
qed

text \<open>C14. An intersection of permissions lets a command read nothing that the request or the grant does
  not let it read, and lets it use the network only when both do.\<close>

theorem intersection_within_request:
  assumes "fs_env_ok env" "normal_path cwd"
    and "add_file_system requested = Some r" "add_file_system granted = Some g" "policy_paths_ok (restricted (perm_entries g))"
    and "resolve_candidate_path env path cwd \<noteq> None"
  shows "(case add_file_system (intersect_permission_profiles env compile requested granted cwd) of
      Some f \<Rightarrow> can_read_path_with_cwd env (restricted (perm_entries f)) path cwd \<longrightarrow>
        can_read_path_with_cwd env (restricted (perm_entries r)) path cwd
        \<and> can_read_path_with_cwd env (restricted (perm_entries g)) path cwd
    | None \<Rightarrow> True)
    \<and> (network_granted (add_network (intersect_permission_profiles env compile requested granted cwd)) \<longleftrightarrow>
       network_granted (add_network requested) \<and> network_granted (add_network granted))"
proof
  let ?i = "intersect_permission_profiles env compile requested granted cwd"
  from assms(6) obtain target where target: "resolve_candidate_path env path cwd = Some target" by blast
  have fs: "add_file_system ?i = filter_option (\<lambda>f. \<not> fs_permissions_is_empty f) (Some (intersect_file_system env compile r g cwd))"
    by (simp add: intersect_permission_profiles_def assms(3,4))
  show "case add_file_system ?i of
      Some f \<Rightarrow> can_read_path_with_cwd env (restricted (perm_entries f)) path cwd \<longrightarrow>
        can_read_path_with_cwd env (restricted (perm_entries r)) path cwd
        \<and> can_read_path_with_cwd env (restricted (perm_entries g)) path cwd
    | None \<Rightarrow> True"
    using intersect_reads_requested [OF assms(1,2,5) target, of compile r]
      intersect_reads_granted [OF assms(1,2) target, of compile r g]
    unfolding fs by (simp add: filter_option_def)
qed (simp add: intersect_permission_profiles_def network_granted_def)

definition sample_request_permissions :: additional_permissions where
  "sample_request_permissions =
     \<lparr>add_network = Some \<lparr>net_enabled = Some True\<rparr>, add_file_system = Some
       \<lparr>perm_entries = [fs_entry_of (Special (ProjectRoots None)) Write, fs_entry_of (PathEntry (lit ''/w/docs'')) Read,
          fs_entry_of (PathEntry (lit ''/w/private'')) Deny],
        perm_glob_scan_max_depth = None\<rparr>\<rparr>"

definition sample_grant_permissions :: additional_permissions where
  "sample_grant_permissions =
     \<lparr>add_network = Some \<lparr>net_enabled = Some True\<rparr>, add_file_system = Some
       \<lparr>perm_entries = [fs_entry_of (PathEntry (lit ''/w'')) Write], perm_glob_scan_max_depth = None\<rparr>\<rparr>"

definition sample_intersection :: additional_permissions where
  "sample_intersection =
     intersect_permission_profiles sample_env (\<lambda>_. Inr (\<lambda>_. False)) sample_request_permissions sample_grant_permissions (lit ''/w'')"

theorem intersection_within_request_witness:
  "(\<exists>f. add_file_system sample_intersection = Some f
      \<and> \<not> can_read_path_with_cwd sample_env (restricted (perm_entries f)) (lit ''/w/private/key'') (lit ''/w''))
   \<and> network_granted (add_network sample_intersection)"
proof -
  let ?r = "the (add_file_system sample_request_permissions)"
  let ?g = "the (add_file_system sample_grant_permissions)"
  have "fs_env_ok sample_env" "add_file_system sample_request_permissions = Some ?r"
    "add_file_system sample_grant_permissions = Some ?g"
    "resolve_candidate_path sample_env (lit ''/w/private/key'') (lit ''/w'') \<noteq> None" by code_simp+
  moreover have w: "normal_path (lit ''/w'')" unfolding normal_path_def by (rule exI [of _ "[lit ''w'']"]) code_simp
  moreover have "policy_paths_ok (restricted (perm_entries ?g))"
    using w by (simp add: policy_paths_ok_def sample_grant_permissions_def restricted_def fs_entry_of_def)
  moreover have "\<not> can_read_path_with_cwd sample_env (restricted (perm_entries ?r)) (lit ''/w/private/key'') (lit ''/w'')"
    "network_granted (add_network sample_request_permissions) \<and> network_granted (add_network sample_grant_permissions)"
    by code_simp+
  moreover have "add_file_system sample_intersection \<noteq> None" by code_simp
  ultimately show ?thesis
    using intersection_within_request [of sample_env "lit ''/w''" sample_request_permissions ?r sample_grant_permissions ?g
        "lit ''/w/private/key''" "\<lambda>_. Inr (\<lambda>_. False)"]
    by (auto simp: sample_intersection_def [symmetric])
qed

text \<open>Parts of the request that are only readable are not kept: where the request asks to write a
  directory and to read a part of it, and the grant is to write the directory, the intersection lets
  the command write that part too.\<close>

lemma intersection_widens_write:
  "resolve_access_with_cwd sample_env (restricted (perm_entries (the (add_file_system sample_request_permissions))))
     (lit ''/w/docs/a'') (lit ''/w'') = Read
   \<and> resolve_access_with_cwd sample_env (restricted (perm_entries (the (add_file_system sample_intersection))))
     (lit ''/w/docs/a'') (lit ''/w'') = Write"
  by (rule conjI) code_simp+

end
