(* ===== verification/SandboxManager.thy ===== *)
theory SandboxManager
  imports PolicyTransforms
begin

text \<open>
  Choosing and applying a sandbox, \<open>sandboxing/src/manager.rs\<close> and \<open>sandboxing/src/landlock.rs\<close>, as
  compiled for Linux: which sandbox a command gets, and the command line that runs it in the helper
  \<open>codex-linux-sandbox\<close>.  The serialised form of a profile, the kernel check for WSL1 and the path of the
  proxy's trust bundle are arguments.  The lemmas show that the helper gets the effective
  profile and passes on the command unchanged.
\<close>

subsection \<open>Sandboxes\<close>

datatype sandbox_type = SandboxNone | MacosSeatbelt | LinuxSeccomp | WindowsRestrictedToken

datatype sandboxable_preference = Auto | Require | Forbid

definition get_platform_sandbox :: "bool \<Rightarrow> sandbox_type option" where
  "get_platform_sandbox windows_sandbox_enabled = Some LinuxSeccomp"

definition or_none :: "sandbox_type option \<Rightarrow> sandbox_type" where
  "or_none s = (case s of Some s \<Rightarrow> s | None \<Rightarrow> SandboxNone)"

definition select_initial ::
  "fs_policy \<Rightarrow> network_sandbox_policy \<Rightarrow> sandboxable_preference \<Rightarrow> bool \<Rightarrow> bool \<Rightarrow> sandbox_type" where
  "select_initial p network pref windows_sandbox_enabled has_managed_network_requirements =
     (case pref of
        Forbid \<Rightarrow> SandboxNone
      | Require \<Rightarrow> or_none (get_platform_sandbox windows_sandbox_enabled)
      | Auto \<Rightarrow>
          if should_require_platform_sandbox p network has_managed_network_requirements
          then or_none (get_platform_sandbox windows_sandbox_enabled) else SandboxNone)"

definition with_managed_mitm_ca_readable_root ::
  "fs_env \<Rightarrow> permission_profile \<Rightarrow> str option \<Rightarrow> str \<Rightarrow> permission_profile option" where
  "with_managed_mitm_ca_readable_root env profile bundle_path sandbox_policy_cwd =
     (case bundle_path of
        None \<Rightarrow> Some profile
      | Some bundle_path \<Rightarrow>
          let (fs, network) = to_runtime_permissions profile
          in from_runtime_permissions_with_enforcement (enforcement profile)
               (with_additional_readable_roots env fs sandbox_policy_cwd [bundle_path]) network)"

subsection \<open>The helper's command line\<close>

definition CODEX_LINUX_SANDBOX_ARG0 :: str where
  "CODEX_LINUX_SANDBOX_ARG0 = lit ''codex-linux-sandbox''"

definition allow_network_for_proxy :: "bool \<Rightarrow> bool" where
  "allow_network_for_proxy enforce_managed_network = enforce_managed_network"

definition create_linux_sandbox_command_args_for_permission_profile ::
  "(permission_profile \<Rightarrow> str) \<Rightarrow> str list \<Rightarrow> str \<Rightarrow> permission_profile \<Rightarrow> str \<Rightarrow> bool \<Rightarrow> bool \<Rightarrow> str list" where
  "create_linux_sandbox_command_args_for_permission_profile to_json command command_cwd profile sandbox_policy_cwd
       use_legacy_landlock allow_network =
     [lit ''--sandbox-policy-cwd'', sandbox_policy_cwd, lit ''--command-cwd'', command_cwd,
      lit ''--permission-profile'', to_json profile]
     @ (if use_legacy_landlock \<and> \<not> allow_network then [lit ''--use-legacy-landlock''] else [])
     @ (if allow_network then [lit ''--allow-network-for-proxy''] else [])
     @ [lit ''--''] @ command"

definition linux_sandbox_arg0_override :: "str \<Rightarrow> str" where
  "linux_sandbox_arg0_override exe =
     (if path_file_name exe = Some CODEX_LINUX_SANDBOX_ARG0 then exe else CODEX_LINUX_SANDBOX_ARG0)"

record sandbox_command =
  cmd_program :: str
  cmd_args :: "str list"
  cmd_cwd :: str
  cmd_env :: "(str \<times> str) list"
  cmd_additional_permissions :: "additional_permissions option"

record sandbox_transform_request =
  tr_command :: sandbox_command
  tr_permissions :: permission_profile
  tr_sandbox :: sandbox_type
  tr_enforce_managed_network :: bool
  tr_mitm_ca_path :: "str option"
  tr_sandbox_policy_cwd :: str
  tr_codex_linux_sandbox_exe :: "str option"
  tr_use_legacy_landlock :: bool

record sandbox_exec_request =
  ex_command :: "str list"
  ex_cwd :: str
  ex_env :: "(str \<times> str) list"
  ex_sandbox :: sandbox_type
  ex_permission_profile :: permission_profile
  ex_file_system_sandbox_policy :: fs_policy
  ex_network_sandbox_policy :: network_sandbox_policy
  ex_arg0 :: "str option"

datatype sandbox_transform_error =
    MissingLinuxSandboxExecutable
  | Wsl1UnsupportedForBubblewrap
  | SeatbeltUnavailable

definition ensure_linux_bubblewrap_is_supported :: "fs_policy \<Rightarrow> bool \<Rightarrow> bool \<Rightarrow> bool \<Rightarrow> sandbox_transform_error + unit" where
  "ensure_linux_bubblewrap_is_supported p use_legacy_landlock allow_network is_wsl1 =
     (let requires_bubblewrap = allow_network \<or> (\<not> use_legacy_landlock \<and> \<not> has_full_disk_write_access p)
      in if is_wsl1 \<and> requires_bubblewrap then Inl Wsl1UnsupportedForBubblewrap else Inr ())"

text \<open>\<open>None\<close> is the panic of the profile constructors, which does not occur.\<close>

definition effective_transform_profile :: "fs_env \<Rightarrow> sandbox_transform_request \<Rightarrow> permission_profile option" where
  "effective_transform_profile env request =
     Option.bind (effective_permission_profile (tr_permissions request) (cmd_additional_permissions (tr_command request)))
       (\<lambda>profile. with_managed_mitm_ca_readable_root env profile (tr_mitm_ca_path request) (tr_sandbox_policy_cwd request))"

definition sandbox_argv ::
  "(permission_profile \<Rightarrow> str) \<Rightarrow> bool \<Rightarrow> sandbox_transform_request \<Rightarrow> permission_profile \<Rightarrow>
   sandbox_transform_error + str list \<times> str option" where
  "sandbox_argv to_json is_wsl1 request profile =
     (let argv = cmd_program (tr_command request) # cmd_args (tr_command request) in
      case tr_sandbox request of
        SandboxNone \<Rightarrow> Inr (argv, None)
      | MacosSeatbelt \<Rightarrow> Inl SeatbeltUnavailable
      | WindowsRestrictedToken \<Rightarrow> Inr (argv, None)
      | LinuxSeccomp \<Rightarrow>
          (case tr_codex_linux_sandbox_exe request of
             None \<Rightarrow> Inl MissingLinuxSandboxExecutable
           | Some exe \<Rightarrow>
               let allow_proxy_network = allow_network_for_proxy (tr_enforce_managed_network request) in
               and_then (ensure_linux_bubblewrap_is_supported (fst (to_runtime_permissions profile))
                   (tr_use_legacy_landlock request) allow_proxy_network is_wsl1) (\<lambda>_.
                 Inr (exe # create_linux_sandbox_command_args_for_permission_profile to_json argv
                     (cmd_cwd (tr_command request)) profile (tr_sandbox_policy_cwd request)
                     (tr_use_legacy_landlock request) allow_proxy_network,
                   Some (linux_sandbox_arg0_override exe)))))"

definition transform ::
  "fs_env \<Rightarrow> (permission_profile \<Rightarrow> str) \<Rightarrow> bool \<Rightarrow> sandbox_transform_request \<Rightarrow>
   (sandbox_transform_error + sandbox_exec_request) option" where
  "transform env to_json is_wsl1 request =
     map_option (\<lambda>profile.
       map_sum id (\<lambda>(argv, arg0).
         \<lparr>ex_command = argv, ex_cwd = cmd_cwd (tr_command request), ex_env = cmd_env (tr_command request),
          ex_sandbox = tr_sandbox request, ex_permission_profile = profile,
          ex_file_system_sandbox_policy = fst (to_runtime_permissions profile),
          ex_network_sandbox_policy = snd (to_runtime_permissions profile), ex_arg0 = arg0\<rparr>)
         (sandbox_argv to_json is_wsl1 request profile)) (effective_transform_profile env request)"

subsection \<open>Legacy policies for compatibility\<close>

definition compatibility_workspace_write_policy :: "fs_env \<Rightarrow> fs_policy \<Rightarrow> network_sandbox_policy \<Rightarrow> str \<Rightarrow> sandbox_policy" where
  "compatibility_workspace_write_policy env p network cwd =
     (let cwd_abs = abs_of env cwd;
          writable_roots = filter (\<lambda>root. cwd_abs \<noteq> Some root) (map wr_root (get_writable_roots_with_cwd env p cwd));
          tmpdir_writable =
            (case Option.bind (filter_option (\<lambda>t. t \<noteq> []) (fs_tmpdir env)) (abs_of env) of
               Some tmpdir \<Rightarrow> can_write_path_with_cwd env p tmpdir cwd | None \<Rightarrow> False);
          slash_tmp_writable =
            (is_absolute (lit ''/tmp'') \<and> fs_is_dir env (lit ''/tmp'') \<and> can_write_path_with_cwd env p (lit ''/tmp'') cwd)
      in WorkspaceWrite writable_roots (is_enabled network) (\<not> tmpdir_writable) (\<not> slash_tmp_writable))"

definition compatibility_sandbox_policy_for_permission_profile :: "fs_env \<Rightarrow> permission_profile \<Rightarrow> str \<Rightarrow> sandbox_policy" where
  "compatibility_sandbox_policy_for_permission_profile env profile cwd =
     (case profile_to_legacy_sandbox_policy env profile cwd of
        Inr sp \<Rightarrow> sp
      | Inl _ \<Rightarrow> (let (p, network) = to_runtime_permissions profile
                  in compatibility_workspace_write_policy env p network cwd))"

subsection \<open>The effective profile\<close>

lemma from_runtime_total: "from_runtime_permissions_with_enforcement enf p network \<noteq> None"
  by (simp add: from_runtime_permissions_with_enforcement_def from_sandbox_policy_def split: sandbox_kind.splits)

lemma from_runtime_policy:
  assumes "from_runtime_permissions_with_enforcement enf p network = Some profile" "kind p = Restricted"
  shows "kind (file_system_sandbox_policy profile) = Restricted" "entries (file_system_sandbox_policy profile) = entries p"
    "profile_network_policy profile = network"
  using assms by (auto simp: from_runtime_permissions_with_enforcement_def from_sandbox_policy_def)

lemma effective_entries:
  assumes "kind p = Restricted"
  shows "kind (effective_file_system_sandbox_policy p a) = Restricted"
    "set (entries p) \<subseteq> set (entries (effective_file_system_sandbox_policy p a))"
  using assms push_entries_keep
  by (auto simp: effective_file_system_sandbox_policy_def merge_file_system_policy_with_additional_permissions_def
      split: option.split)

lemma with_additional_readable_roots_entries:
  "kind (with_additional_readable_roots env p cwd roots) = kind p
   \<and> set (entries p) \<subseteq> set (entries (with_additional_readable_roots env p cwd roots))"
proof -
  have "kind (foldl (\<lambda>p path. if can_read_path_with_cwd env p path cwd then p
      else p\<lparr>entries := entries p @ [fs_entry_of (PathEntry path) Read]\<rparr>) p roots) = kind p
    \<and> set (entries p) \<subseteq> set (entries (foldl (\<lambda>p path. if can_read_path_with_cwd env p path cwd then p
      else p\<lparr>entries := entries p @ [fs_entry_of (PathEntry path) Read]\<rparr>) p roots))"
  proof (induction roots arbitrary: p)
    case (Cons path roots)
    from Cons.IH [of "if can_read_path_with_cwd env p path cwd then p
        else p\<lparr>entries := entries p @ [fs_entry_of (PathEntry path) Read]\<rparr>"] show ?case
      by (auto split: if_splits)
  qed simp
  then show ?thesis by (simp add: with_additional_readable_roots_def)
qed

lemma effective_transform_entries:
  assumes "effective_transform_profile env request = Some profile"
    and "kind (file_system_sandbox_policy (tr_permissions request)) = Restricted"
  shows "kind (file_system_sandbox_policy profile) = Restricted"
    "set (entries (file_system_sandbox_policy (tr_permissions request))) \<subseteq> set (entries (file_system_sandbox_policy profile))"
proof -
  let ?p = "file_system_sandbox_policy (tr_permissions request)"
  let ?a = "cmd_additional_permissions (tr_command request)"
  from assms(1) obtain q where q: "effective_permission_profile (tr_permissions request) ?a = Some q"
    and profile: "with_managed_mitm_ca_readable_root env q (tr_mitm_ca_path request) (tr_sandbox_policy_cwd request) = Some profile"
    by (auto simp: effective_transform_profile_def split: bind_splits)
  from q have "from_runtime_permissions_with_enforcement (enforcement (tr_permissions request))
      (effective_file_system_sandbox_policy ?p ?a)
      (effective_network_sandbox_policy (profile_network_policy (tr_permissions request)) ?a) = Some q"
    by (simp add: effective_permission_profile_def to_runtime_permissions_def)
  note q = from_runtime_policy [OF this] effective_entries [OF assms(2), of ?a]
  have "kind (file_system_sandbox_policy profile) = Restricted \<and> set (entries ?p) \<subseteq> set (entries (file_system_sandbox_policy profile))"
  proof (cases "tr_mitm_ca_path request")
    case (Some ca)
    let ?r = "with_additional_readable_roots env (file_system_sandbox_policy q) (tr_sandbox_policy_cwd request) [ca]"
    have r: "kind ?r = Restricted" "set (entries ?p) \<subseteq> set (entries ?r)"
      using with_additional_readable_roots_entries [of env "file_system_sandbox_policy q"] q by auto
    from profile Some have "from_runtime_permissions_with_enforcement (enforcement q) ?r (profile_network_policy q) = Some profile"
      by (simp add: with_managed_mitm_ca_readable_root_def to_runtime_permissions_def)
    from from_runtime_policy [OF this r(1)] r(2)
    show ?thesis by simp
  qed (use profile q in \<open>auto simp: with_managed_mitm_ca_readable_root_def\<close>)
  then show "kind (file_system_sandbox_policy profile) = Restricted"
    "set (entries ?p) \<subseteq> set (entries (file_system_sandbox_policy profile))" by simp_all
qed

lemma transform_total: "transform env to_json is_wsl1 request \<noteq> None"
proof -
  have "effective_permission_profile p a \<noteq> None" for p a
    using from_runtime_total by (simp add: effective_permission_profile_def split: prod.split)
  moreover have "with_managed_mitm_ca_readable_root env p b cwd \<noteq> None" for p b cwd
    using from_runtime_total by (auto simp: with_managed_mitm_ca_readable_root_def split: option.split prod.split)
  ultimately show ?thesis by (auto simp: transform_def effective_transform_profile_def bind_eq_None_conv)
qed

text \<open>C15. A command that gets the Linux sandbox runs through the helper: the helper is called with the
  profile the command runs under, after its options come a separator and the command unchanged, and
  no entry of the session's policy, no denied read for one, is lost from the policy it runs under,
  whatever additional permissions the command has.\<close>

theorem sandboxed_command_wrapped:
  assumes "transform env to_json is_wsl1 request = Some (Inr r)" "tr_sandbox request = LinuxSeccomp"
    and "kind (file_system_sandbox_policy (tr_permissions request)) = Restricted"
  shows "(\<exists>exe flags. tr_codex_linux_sandbox_exe request = Some exe
      \<and> ex_command r = [exe, lit ''--sandbox-policy-cwd'', tr_sandbox_policy_cwd request,
            lit ''--command-cwd'', cmd_cwd (tr_command request), lit ''--permission-profile'', to_json (ex_permission_profile r)]
          @ flags @ lit ''--'' # cmd_program (tr_command request) # cmd_args (tr_command request)
      \<and> set flags \<subseteq> {lit ''--use-legacy-landlock'', lit ''--allow-network-for-proxy''})
    \<and> kind (ex_file_system_sandbox_policy r) = Restricted
    \<and> set (entries (file_system_sandbox_policy (tr_permissions request))) \<subseteq> set (entries (ex_file_system_sandbox_policy r))"
proof -
  from assms(1) obtain profile argv arg0 where profile: "effective_transform_profile env request = Some profile"
    and argv: "sandbox_argv to_json is_wsl1 request profile = Inr (argv, arg0)"
    and r: "ex_command r = argv" "ex_permission_profile r = profile"
      "ex_file_system_sandbox_policy r = file_system_sandbox_policy profile"
    by (cases "effective_transform_profile env request")
      (auto simp: transform_def to_runtime_permissions_def map_sum_def split: sum.splits)
  from argv assms(2) obtain exe where exe: "tr_codex_linux_sandbox_exe request = Some exe"
    "argv = exe # create_linux_sandbox_command_args_for_permission_profile to_json
       (cmd_program (tr_command request) # cmd_args (tr_command request)) (cmd_cwd (tr_command request)) profile
       (tr_sandbox_policy_cwd request) (tr_use_legacy_landlock request)
       (allow_network_for_proxy (tr_enforce_managed_network request))"
    by (auto simp: sandbox_argv_def Let_def and_then_def split: option.splits sum.splits)
  show ?thesis
  proof (intro conjI)
    show "\<exists>exe flags. tr_codex_linux_sandbox_exe request = Some exe
      \<and> ex_command r = [exe, lit ''--sandbox-policy-cwd'', tr_sandbox_policy_cwd request,
            lit ''--command-cwd'', cmd_cwd (tr_command request), lit ''--permission-profile'', to_json (ex_permission_profile r)]
          @ flags @ lit ''--'' # cmd_program (tr_command request) # cmd_args (tr_command request)
      \<and> set flags \<subseteq> {lit ''--use-legacy-landlock'', lit ''--allow-network-for-proxy''}"
      unfolding r exe create_linux_sandbox_command_args_for_permission_profile_def by auto
  qed (use effective_transform_entries [OF profile assms(3)] in \<open>simp_all add: r\<close>)
qed

definition sample_transform_request :: sandbox_transform_request where
  "sample_transform_request =
     \<lparr>tr_command = \<lparr>cmd_program = lit ''cat'', cmd_args = [lit ''key''], cmd_cwd = lit ''/w'', cmd_env = [],
        cmd_additional_permissions = Some sample_grant_permissions\<rparr>,
      tr_permissions = Managed (ManagedRestricted (entries sample_policy) None) NetworkRestricted,
      tr_sandbox = LinuxSeccomp, tr_enforce_managed_network = False, tr_mitm_ca_path = Some (lit ''/ca.pem''),
      tr_sandbox_policy_cwd = lit ''/w'', tr_codex_linux_sandbox_exe = Some (lit ''/bin/codex''),
      tr_use_legacy_landlock = False\<rparr>"

theorem sandboxed_command_wrapped_witness:
  "\<exists>r. transform sample_env (\<lambda>_. lit ''{}'') False sample_transform_request = Some (Inr r)
     \<and> take 2 (rev (ex_command r)) = [lit ''key'', lit ''cat'']
     \<and> fs_entry_of (PathEntry (lit ''/w/private'')) Deny \<in> set (entries (ex_file_system_sandbox_policy r))"
proof -
  let ?t = "transform sample_env (\<lambda>_. lit ''{}'') False sample_transform_request"
  have "case ?t of Some (Inr _) \<Rightarrow> True | _ \<Rightarrow> False" by code_simp
  then obtain r where r: "?t = Some (Inr r)" by (auto split: option.splits sum.splits)
  have req: "tr_sandbox sample_transform_request = LinuxSeccomp"
    "kind (file_system_sandbox_policy (tr_permissions sample_transform_request)) = Restricted"
    "fs_entry_of (PathEntry (lit ''/w/private'')) Deny
       \<in> set (entries (file_system_sandbox_policy (tr_permissions sample_transform_request)))"
    "cmd_program (tr_command sample_transform_request) = lit ''cat''"
    "cmd_args (tr_command sample_transform_request) = [lit ''key'']" by code_simp+
  from sandboxed_command_wrapped [OF r req(1,2)] req(3-5) show ?thesis using r by auto
qed

end
