(* ===== verification/ToolPermissions.thy ===== *)
theory ToolPermissions
  imports ExecApproval SandboxManager
begin

text \<open>
  Additional permissions of a tool call, \<open>core/src/tools/handlers/mod.rs\<close>: validating what a call asks
  for, and combining it with what the user has granted for the session and the turn.  The grants, which
  the session keeps, are arguments.  The lemmas show that what counts as approved already was granted.
\<close>

subsection \<open>Requests\<close>

definition debug_bool :: "bool \<Rightarrow> str" where
  "debug_bool b = (if b then lit ''true'' else lit ''false'')"

text \<open>The derived \<open>Debug\<close> text of the approval policy.\<close>

fun debug_approval :: "ask_for_approval \<Rightarrow> str" where
  "debug_approval UnlessTrusted = lit ''UnlessTrusted''"
| "debug_approval OnFailure = lit ''OnFailure''"
| "debug_approval OnRequest = lit ''OnRequest''"
| "debug_approval Never = lit ''Never''"
| "debug_approval (Granular g) =
     lit ''Granular(GranularApprovalConfig { sandbox_approval: '' @ debug_bool (sandbox_approval g)
     @ lit '', rules: '' @ debug_bool (rules g) @ lit '', skill_approval: '' @ debug_bool (skill_approval g)
     @ lit '', request_permissions: '' @ debug_bool (request_permissions g)
     @ lit '', mcp_elicitations: '' @ debug_bool (mcp_elicitations g) @ lit '' })''"

definition normalize_and_validate_additional_permissions ::
  "fs_env \<Rightarrow> bool \<Rightarrow> ask_for_approval \<Rightarrow> sandbox_permissions \<Rightarrow> additional_permissions option \<Rightarrow> bool \<Rightarrow>
   str + additional_permissions option" where
  "normalize_and_validate_additional_permissions env additional_permissions_allowed approval_policy sandbox_permissions
       additional preapproved =
     (let uses_additional = (sandbox_permissions = WithAdditionalPermissions) in
      if \<not> preapproved \<and> \<not> additional_permissions_allowed \<and> (uses_additional \<or> additional \<noteq> None)
      then Inl (lit ''additional permissions are disabled; enable `features.exec_permission_approvals` before using `with_additional_permissions`'')
      else if uses_additional then
        (if \<not> preapproved \<and> approval_policy \<noteq> OnRequest
         then Inl (lit ''approval policy is '' @ debug_approval approval_policy @ lit ''; reject command '' @ [8212]
           @ lit '' you cannot request additional permissions unless the approval policy is OnRequest'')
         else (case additional of
                 None \<Rightarrow> Inl (lit ''missing `additional_permissions`; provide at least one of `network` or `file_system` when using `with_additional_permissions`'')
               | Some additional \<Rightarrow>
                   and_then (normalize_additional_permissions env additional) (\<lambda>normalized.
                     if additional_is_empty normalized
                     then Inl (lit ''`additional_permissions` must include at least one requested permission in `network` or `file_system`'')
                     else Inr (Some normalized))))
      else if additional \<noteq> None
      then Inl (lit ''`additional_permissions` requires `sandbox_permissions` set to `with_additional_permissions`'')
      else Inr None)"

record effective_additional_permissions =
  eff_sandbox_permissions :: sandbox_permissions
  eff_additional_permissions :: "additional_permissions option"
  eff_permissions_preapproved :: bool

definition implicit_granted_permissions ::
  "sandbox_permissions \<Rightarrow> additional_permissions option \<Rightarrow> effective_additional_permissions \<Rightarrow> additional_permissions option" where
  "implicit_granted_permissions sandbox_permissions additional effective_permissions =
     (if \<not> uses_additional_permissions sandbox_permissions \<and> sandbox_permissions \<noteq> RequireEscalated \<and> additional = None
      then eff_additional_permissions effective_permissions else None)"

subsection \<open>Grants\<close>

text \<open>The derived equality of permissions.\<close>

definition fs_permissions_eq :: "fs_permissions \<Rightarrow> fs_permissions \<Rightarrow> bool" where
  "fs_permissions_eq a b \<longleftrightarrow>
     list_all2 entry_eq (perm_entries a) (perm_entries b) \<and> perm_glob_scan_max_depth a = perm_glob_scan_max_depth b"

definition additional_eq :: "additional_permissions \<Rightarrow> additional_permissions \<Rightarrow> bool" where
  "additional_eq a b \<longleftrightarrow>
     add_network a = add_network b \<and> rel_option fs_permissions_eq (add_file_system a) (add_file_system b)"

definition permissions_are_preapproved ::
  "fs_env \<Rightarrow> glob_compiler \<Rightarrow> additional_permissions \<Rightarrow> additional_permissions \<Rightarrow> str \<Rightarrow> bool" where
  "permissions_are_preapproved env compile effective_permissions granted_permissions cwd \<longleftrightarrow>
     additional_eq (intersect_permission_profiles env compile effective_permissions granted_permissions cwd)
       (intersect_permission_profiles env compile effective_permissions effective_permissions cwd)"

definition apply_granted_turn_permissions ::
  "fs_env \<Rightarrow> glob_compiler \<Rightarrow> additional_permissions option \<Rightarrow> additional_permissions option \<Rightarrow> str \<Rightarrow>
   sandbox_permissions \<Rightarrow> additional_permissions option \<Rightarrow> effective_additional_permissions" where
  "apply_granted_turn_permissions env compile granted_session granted_turn cwd sandbox_permissions additional =
     (if sandbox_permissions = RequireEscalated
      then \<lparr>eff_sandbox_permissions = sandbox_permissions, eff_additional_permissions = additional,
            eff_permissions_preapproved = False\<rparr>
      else
        let granted = merge_permission_profiles granted_session granted_turn;
            effective_permissions = merge_permission_profiles additional granted;
            preapproved =
              (case (effective_permissions, granted) of
                 (Some effective_permissions, Some granted) \<Rightarrow>
                   permissions_are_preapproved env compile effective_permissions granted cwd
               | _ \<Rightarrow> False)
        in \<lparr>eff_sandbox_permissions =
              (if effective_permissions \<noteq> None \<and> \<not> uses_additional_permissions sandbox_permissions
               then WithAdditionalPermissions else sandbox_permissions),
            eff_additional_permissions = effective_permissions, eff_permissions_preapproved = preapproved\<rparr>)"

subsection \<open>What is approved already was granted\<close>

text \<open>Without denied reads every entry that decides the access of its own path is accepted from a
  grant equal to the request.\<close>

lemma self_grant_accepted:
  assumes "fs_env_ok env" "normal_path cwd" "\<not> has_denied_read_restrictions (restricted (perm_entries f))"
    and "e \<in> set (perm_entries f)" "can_read (entry_access e)"
    and "resolve_entry_path env (entry_path e) (Some cwd) = Some q"
    and "resolve_access_with_cwd env (restricted (perm_entries f)) q cwd = entry_access e"
  shows "\<exists>x \<in> set (accepted_grants env compile f f cwd).
    x = materialize_cwd_dependent_entry env e cwd \<or> entry_eq x (materialize_cwd_dependent_entry env e cwd)"
proof -
  have "request_matcher env compile f cwd = None"
    using assms(3) by (simp add: request_matcher_def matcher_new_def matcher_build_def)
  moreover have "access_covers (entry_access e) (entry_access e)" using assms(5) by (cases "entry_access e") simp_all
  ultimately have "granted_file_system_entry_within_request env f (restricted (perm_entries f))
      (request_matcher env compile f cwd) e cwd"
    using assms by (simp add: granted_file_system_entry_within_request_def resolve_permission_path_eq)
  with assms(4) show ?thesis unfolding accepted_grants_eq by (intro push_entries_add) auto
qed

lemma accepted_in_intersection:
  "set (accepted_grants env compile requested granted cwd) \<subseteq> set (perm_entries (intersect_file_system env compile requested granted cwd))"
proof -
  let ?acc = "accepted_grants env compile requested granted cwd"
  obtain r es where r: "retain_constraining_deny_entries env (perm_entries requested) ?acc cwd ?acc = (r, es)" by fastforce
  obtain g es' where g: "retain_constraining_deny_entries env (perm_entries granted) ?acc cwd es = (g, es')" by fastforce
  from retain_loop_spec(1) [OF r [unfolded retain_constraining_deny_entries_def]]
    retain_loop_spec(1) [OF g [unfolded retain_constraining_deny_entries_def]] r g
  show ?thesis by (simp add: intersect_file_system_def Let_def)
qed

definition granted_fs :: "additional_permissions \<Rightarrow> fs_permissions" where
  "granted_fs a = (case add_file_system a of Some f \<Rightarrow> f | None \<Rightarrow> \<lparr>perm_entries = [], perm_glob_scan_max_depth = None\<rparr>)"

lemma preapproved_entries:
  assumes "permissions_are_preapproved env compile a g cwd" "add_file_system a = Some f"
    and "x \<in> set (perm_entries (intersect_file_system env compile f f cwd))"
  obtains x' where "x' \<in> set (perm_entries (intersect_file_system env compile f (granted_fs g) cwd))" "entry_eq x' x"
proof -
  have "rel_option fs_permissions_eq
      (filter_option (\<lambda>f. \<not> fs_permissions_is_empty f) (Some (intersect_file_system env compile f (granted_fs g) cwd)))
      (filter_option (\<lambda>f. \<not> fs_permissions_is_empty f) (Some (intersect_file_system env compile f f cwd)))"
    using assms(1,2) by (simp add: permissions_are_preapproved_def additional_eq_def intersect_permission_profiles_def granted_fs_def)
  with assms(3) have "list_all2 entry_eq (perm_entries (intersect_file_system env compile f (granted_fs g) cwd))
      (perm_entries (intersect_file_system env compile f f cwd))"
    by (auto simp: filter_option_def fs_permissions_is_empty_def fs_permissions_eq_def split: if_splits)
  with assms(3) that show thesis by (metis in_set_conv_nth list_all2_conv_all_nth)
qed

lemma resolve_access_at_entry:
  assumes "kind p = Restricted" "fs_env_ok env" "normal_path cwd" "policy_paths_ok p"
    and "e \<in> set (covering env p target cwd)"
    and "\<And>e'. e' \<in> set (covering env p target cwd) \<Longrightarrow> resolved_entry_precedence e' \<le> resolved_entry_precedence e"
  shows "resolve_access_with_cwd env p (res_path e) cwd = res_access e"
proof -
  have abs: "abs_of env cwd = Some cwd" using assms(3) by simp
  have "e \<in> set (resolved_entries_with_cwd env p cwd)" using assms(5) by (simp add: covering_def)
  from resolved_entries_normal [OF assms(2) abs assms(4) this]
  have norm: "resolve_candidate_path env (res_path e) cwd = Some (res_path e)" by simp
  have e: "e \<in> set (covering env p (res_path e) cwd)" using assms(5) by (simp add: covering_def)
  then have "covering env p (res_path e) cwd \<noteq> []" by auto
  from resolve_access_entry [OF assms(1) norm this] obtain m where m: "m \<in> set (covering env p (res_path e) cwd)"
    "resolve_access_with_cwd env p (res_path e) cwd = res_access m"
    "\<And>e'. e' \<in> set (covering env p (res_path e) cwd) \<Longrightarrow> resolved_entry_precedence e' \<le> resolved_entry_precedence m" by blast
  have "m \<in> set (covering env p target cwd)"
    using m(1) assms(5) path_starts_with_trans by (auto simp: covering_def)
  from assms(6) [OF this] m(3) [OF e] have "res_access m = res_access e" by (auto simp: resolved_entry_precedence_le)
  with m(2) show ?thesis by simp
qed

lemma merged_contains_granted:
  assumes "merge_permission_profiles additional (Some g) = Some a" "add_file_system a = Some f" "d \<in> set (perm_entries (granted_fs g))"
  shows "\<exists>d' \<in> set (perm_entries f). d' = d \<or> entry_eq d' d"
proof -
  from assms(3) obtain gf where gf: "add_file_system g = Some gf" "d \<in> set (perm_entries gf)"
    by (auto simp: granted_fs_def split: option.splits)
  show ?thesis
  proof (cases additional)
    case None
    with assms(1,2) gf show ?thesis by (auto simp: merge_permission_profiles_def filter_option_def split: if_splits)
  next
    case (Some b)
    show ?thesis
    proof (cases "add_file_system b")
      case None
      with Some assms(1,2) gf show ?thesis
        by (auto simp: merge_permission_profiles_def filter_option_def Let_def split: if_splits)
    next
      case (Some bf)
      with \<open>additional = Some b\<close> assms(1,2) gf
      have "perm_entries f = foldl push_entry_if_new [] (perm_entries bf @ perm_entries gf)"
        by (auto simp: merge_permission_profiles_def filter_option_def merge_permission_entries_def Let_def split: if_splits)
      with gf(2) push_entries_add [of d "perm_entries bf @ perm_entries gf" "[]"] show ?thesis by simp
    qed
  qed
qed

lemma preapproved_access:
  assumes env: "fs_env_ok env" and cwd: "normal_path cwd"
    and merged: "merge_permission_profiles additional (Some g) = Some a" and f: "add_file_system a = Some f"
    and pre: "permissions_are_preapproved env compile a g cwd"
    and paths: "policy_paths_ok (restricted (perm_entries f))"
    and no_denials: "\<not> has_denied_read_restrictions (restricted (perm_entries f))"
    and read: "can_read_path_with_cwd env (restricted (perm_entries f)) path cwd"
  shows "resolve_access_with_cwd env (restricted (perm_entries (granted_fs g))) path cwd =
    resolve_access_with_cwd env (restricted (perm_entries f)) path cwd"
proof -
  let ?p = "restricted (perm_entries f)"
  let ?g = "restricted (perm_entries (granted_fs g))"
  have kind: "kind ?p = Restricted" "kind ?g = Restricted" by (simp_all add: restricted_def)
  have abs: "abs_of env cwd = Some cwd" using cwd by simp
  obtain target where target: "resolve_candidate_path env path cwd = Some target"
    using read kind(1) by (auto simp: can_read_path_with_cwd_def resolve_access_with_cwd_def split: option.splits)
  have "covering env ?p target cwd \<noteq> []"
    using read resolve_access_uncovered [OF kind(1) target] by (auto simp: can_read_path_with_cwd_def)
  from resolve_access_entry [OF kind(1) target this] obtain e where e: "e \<in> set (covering env ?p target cwd)"
    "resolve_access_with_cwd env ?p path cwd = res_access e"
    and e_max: "\<And>e'. e' \<in> set (covering env ?p target cwd) \<Longrightarrow> resolved_entry_precedence e' \<le> resolved_entry_precedence e"
    by blast
  from e(1) obtain y where y: "y \<in> set (entries ?p)" "resolve_entry_path env (entry_path y) (Some cwd) = Some (res_path e)"
    "entry_access y = res_access e" "path_starts_with (res_path e) target" by (elim coveringE) (simp add: abs)
  have y_read: "can_read (entry_access y)" using read e(2) y(3) by (simp add: can_read_path_with_cwd_def)
  have "resolve_access_with_cwd env ?p (res_path e) cwd = entry_access y"
    using resolve_access_at_entry [OF kind(1) env cwd paths e(1) e_max] y(3) by simp
  from self_grant_accepted [OF env cwd no_denials _ y_read y(2) this, of compile] y(1)
  obtain x where x: "x \<in> set (accepted_grants env compile f f cwd)"
    "x = materialize_cwd_dependent_entry env y cwd \<or> entry_eq x (materialize_cwd_dependent_entry env y cwd)"
    by (auto simp: restricted_def)
  then have "x \<in> set (perm_entries (intersect_file_system env compile f f cwd))" using accepted_in_intersection by blast
  from pre f this obtain x' where
    x': "x' \<in> set (perm_entries (intersect_file_system env compile f (granted_fs g) cwd))" "entry_eq x' x"
    by (rule preapproved_entries)
  have res: "resolve_entry_path env (entry_path x') (Some cwd) = Some (res_path e)" "entry_access x' = res_access e"
    using x(2) x'(2) y(2,3) materialize_resolves [OF env cwd, of y] fs_path_eq_resolves [OF cwd] by (auto simp: entry_eq_def)
  have "x' \<in> set (accepted_grants env compile f (granted_fs g) cwd)"
    using intersect_entries [OF x'(1)] res(2) y_read y(3) by simp
  then obtain m g' where g': "g' \<in> set (perm_entries (granted_fs g))" "x' = materialize_cwd_dependent_entry env g' cwd"
    by (rule accepted_grants_within)
  have "resolve_entry_path env (entry_path g') (Some cwd) = Some (res_path e)" "entry_access g' = res_access e"
    using res g'(2) materialize_resolves [OF env cwd, of g'] by simp_all
  then have mine: "\<lparr>res_path = res_path e, res_access = res_access e\<rparr> \<in> set (covering env ?g target cwd)"
    using coveringI [of g' ?g env cwd "res_path e" target] g'(1) y(4) abs by (simp add: restricted_def)
  then have "covering env ?g target cwd \<noteq> []" by auto
  from resolve_access_entry [OF kind(2) target this] obtain d where d: "d \<in> set (covering env ?g target cwd)"
    "resolve_access_with_cwd env ?g path cwd = res_access d"
    and d_max: "\<And>d'. d' \<in> set (covering env ?g target cwd) \<Longrightarrow> resolved_entry_precedence d' \<le> resolved_entry_precedence d"
    by blast
  from d(1) obtain z where z: "z \<in> set (perm_entries (granted_fs g))"
    "resolve_entry_path env (entry_path z) (Some cwd) = Some (res_path d)" "entry_access z = res_access d"
    "path_starts_with (res_path d) target" by (elim coveringE) (simp add: abs restricted_def)
  from merged_contains_granted [OF merged f z(1)] obtain z' where z': "z' \<in> set (perm_entries f)" "z' = z \<or> entry_eq z' z" by blast
  have "resolve_entry_path env (entry_path z') (Some cwd) = Some (res_path d)" "entry_access z' = res_access d"
    using z'(2) z(2,3) fs_path_eq_resolves [OF cwd] by (auto simp: entry_eq_def)
  then have "\<lparr>res_path = res_path d, res_access = res_access d\<rparr> \<in> set (covering env ?p target cwd)"
    using coveringI [of z' ?p env cwd "res_path d" target] z'(1) z(4) abs by (simp add: restricted_def)
  from e_max [OF this] d_max [OF mine] have "res_access d = res_access e"
    by (auto simp: resolved_entry_precedence_le depth_of_def)
  with d(2) e(2) show ?thesis by simp
qed

text \<open>C13. Permissions of a tool call count as approved already only when they were granted: without
  denied reads among them, every path they let the command read or write has the same access under
  what the user granted for the session and the turn, and network access was granted as well.\<close>

theorem preapproved_was_granted:
  assumes "eff = apply_granted_turn_permissions env compile granted_session granted_turn cwd permissions additional"
    and "fs_env_ok env" "normal_path cwd" "eff_permissions_preapproved eff"
    and "eff_additional_permissions eff = Some a" "add_file_system a = Some f"
    and "policy_paths_ok (restricted (perm_entries f))" "\<not> has_denied_read_restrictions (restricted (perm_entries f))"
    and "can_read_path_with_cwd env (restricted (perm_entries f)) path cwd"
  shows "\<exists>g. merge_permission_profiles granted_session granted_turn = Some g
    \<and> resolve_access_with_cwd env (restricted (perm_entries (granted_fs g))) path cwd =
        resolve_access_with_cwd env (restricted (perm_entries f)) path cwd
    \<and> (network_granted (add_network a) \<longrightarrow> network_granted (add_network g))"
proof -
  from assms(4,5) obtain g where g: "merge_permission_profiles granted_session granted_turn = Some g"
    "merge_permission_profiles additional (Some g) = Some a" "permissions_are_preapproved env compile a g cwd"
    by (auto simp: assms(1) apply_granted_turn_permissions_def Let_def split: if_splits option.splits)
  have "network_granted (add_network a) \<longrightarrow> network_granted (add_network g)"
    using g(3) by (auto simp: permissions_are_preapproved_def additional_eq_def intersect_permission_profiles_def split: if_splits)
  with preapproved_access [OF assms(2,3) g(2) assms(6) g(3) assms(7-9)] g(1) show ?thesis by blast
qed

definition fs_grant :: "(string \<times> access_mode) list \<Rightarrow> additional_permissions" where
  "fs_grant es =
     \<lparr>add_network = None, add_file_system = Some
       \<lparr>perm_entries = map (\<lambda>(p, a). fs_entry_of (PathEntry (lit p)) a) es, perm_glob_scan_max_depth = None\<rparr>\<rparr>"

abbreviation no_globs :: glob_compiler where
  "no_globs \<equiv> \<lambda>_. Inr (\<lambda>_. False)"

definition sample_effective :: effective_additional_permissions where
  "sample_effective =
     apply_granted_turn_permissions sample_env no_globs (Some (fs_grant [(''/w/out'', Write)])) (Some (fs_grant [(''/w'', Read)]))
       (lit ''/w'') WithAdditionalPermissions (Some (fs_grant [(''/w/out'', Write)]))"

theorem preapproved_was_granted_witness:
  "\<exists>g. merge_permission_profiles (Some (fs_grant [(''/w/out'', Write)])) (Some (fs_grant [(''/w'', Read)])) = Some g
    \<and> resolve_access_with_cwd sample_env (restricted (perm_entries (granted_fs g))) (lit ''/w/out/a'') (lit ''/w'') = Write"
proof -
  let ?a = "the (eff_additional_permissions sample_effective)"
  let ?f = "the (add_file_system ?a)"
  have "fs_env_ok sample_env" "eff_permissions_preapproved sample_effective"
    "eff_additional_permissions sample_effective = Some ?a" "add_file_system ?a = Some ?f"
    "\<not> has_denied_read_restrictions (restricted (perm_entries ?f))"
    "can_read_path_with_cwd sample_env (restricted (perm_entries ?f)) (lit ''/w/out/a'') (lit ''/w'')" by code_simp+
  moreover have "normal_path (lit ''/w'')" unfolding normal_path_def by (rule exI [of _ "[lit ''w'']"]) code_simp
  moreover have "policy_paths_ok (restricted (perm_entries ?f))"
  proof -
    have "perm_entries ?f = [fs_entry_of (PathEntry (lit ''/w/out'')) Write, fs_entry_of (PathEntry (lit ''/w'')) Read]" by code_simp
    moreover have "normal_path (lit ''/w/out'')" unfolding normal_path_def
      by (rule exI [of _ "[lit ''w'', lit ''out'']"]) code_simp
    ultimately show ?thesis using \<open>normal_path (lit ''/w'')\<close> by (simp add: policy_paths_ok_def restricted_def fs_entry_of_def)
  qed
  moreover have "resolve_access_with_cwd sample_env (restricted (perm_entries ?f)) (lit ''/w/out/a'') (lit ''/w'') = Write" by code_simp
  ultimately show ?thesis
    using preapproved_was_granted [OF sample_effective_def, of ?a ?f "lit ''/w/out/a''"] by metis
qed

text \<open>With a denied read the comparison misses a request: a permission below a directory that the same
  request denies is dropped on both sides, so that a call that asks to write \<open>/w/.ssh\<close> and to be denied \<open>/w\<close>
  counts as approved when the user has granted to read \<open>/srv\<close>.  The permissions the command then has
  let it write \<open>/w/.ssh\<close>.\<close>

lemma preapproved_without_grant:
  "let eff = apply_granted_turn_permissions sample_env no_globs (Some (fs_grant [(''/srv'', Read)])) None
       (lit ''/w'') WithAdditionalPermissions (Some (fs_grant [(''/w'', Deny), (''/w/.ssh'', Write)]))
   in eff_permissions_preapproved eff
    \<and> resolve_access_with_cwd sample_env
        (effective_file_system_sandbox_policy read_only (eff_additional_permissions eff)) (lit ''/w/.ssh/rc'') (lit ''/w'') = Write"
  by code_simp

end
