(* ===== verification/PatchSafety.thy ===== *)
theory PatchSafety
  imports PatchInvocation PatchStreaming ToolPermissions
begin

text \<open>
  From a verified patch to its application: the assessment in \<open>core/src/safety.rs\<close> and
  \<open>core/src/apply_patch.rs\<close>, the permissions, approval keys and progress events of
  \<open>core/src/tools/handlers/apply_patch.rs\<close> and the runtime \<open>core/src/tools/runtimes/apply_patch.rs\<close>, as compiled
  for Linux.  The file system, the host and the grants of the session are arguments.  The lemmas connect
  the assessment with what applying the patch changes.
\<close>

subsection \<open>Assessment\<close>

definition PATCH_REJECTED_OUTSIDE_PROJECT_REASON :: str where
  "PATCH_REJECTED_OUTSIDE_PROJECT_REASON = lit ''writing outside of the project; rejected by user approval settings''"

definition PATCH_REJECTED_READ_ONLY_REASON :: str where
  "PATCH_REJECTED_READ_ONLY_REASON = lit ''writing is blocked by read-only sandbox; rejected by user approval settings''"

datatype safety_check =
    AutoApprove sandbox_type bool
  | AskUser
  | Reject str

definition util_resolve_path :: "str \<Rightarrow> str \<Rightarrow> str" where
  "util_resolve_path base path = (if is_absolute path then path else path_push base path)"

fun safety_normalize_step :: "str \<Rightarrow> component \<Rightarrow> str" where
  "safety_normalize_step out ParentDir = path_pop out"
| "safety_normalize_step out CurDir = out"
| "safety_normalize_step out other = path_push out (as_os_str other)"

definition safety_normalize :: "str \<Rightarrow> str option" where
  "safety_normalize path = Some (foldl safety_normalize_step [] (path_components path))"

definition is_patch_path_writable :: "fs_env \<Rightarrow> fs_policy \<Rightarrow> str \<Rightarrow> str \<Rightarrow> bool" where
  "is_patch_path_writable env p cwd path =
     (case safety_normalize (util_resolve_path cwd path) of
        None \<Rightarrow> False
      | Some normalized \<Rightarrow> can_write_path_with_cwd env p normalized cwd)"

fun change_is_writable :: "fs_env \<Rightarrow> fs_policy \<Rightarrow> str \<Rightarrow> str \<times> apply_patch_file_change \<Rightarrow> bool" where
  "change_is_writable env p cwd (path, FileAdd _) = is_patch_path_writable env p cwd path"
| "change_is_writable env p cwd (path, FileDelete _) = is_patch_path_writable env p cwd path"
| "change_is_writable env p cwd (path, FileUpdate _ move_path _) =
     (is_patch_path_writable env p cwd path
      \<and> (case move_path of Some dest \<Rightarrow> is_patch_path_writable env p cwd dest | None \<Rightarrow> True))"

definition is_write_patch_constrained_to_writable_paths :: "fs_env \<Rightarrow> apply_patch_action \<Rightarrow> fs_policy \<Rightarrow> str \<Rightarrow> bool" where
  "is_write_patch_constrained_to_writable_paths env action p cwd =
     list_all (change_is_writable env p cwd) (act_changes action)"

definition patch_rejection_reason :: "fs_env \<Rightarrow> permission_profile \<Rightarrow> fs_policy \<Rightarrow> str \<Rightarrow> str" where
  "patch_rejection_reason env profile p cwd =
     (if (case profile of Managed _ _ \<Rightarrow> True | _ \<Rightarrow> False) \<and> \<not> has_full_disk_write_access p
         \<and> get_writable_roots_with_cwd env p cwd = []
      then PATCH_REJECTED_READ_ONLY_REASON else PATCH_REJECTED_OUTSIDE_PROJECT_REASON)"

definition rejects_sandbox_approval :: "ask_for_approval \<Rightarrow> bool" where
  "rejects_sandbox_approval policy =
     (case policy of Never \<Rightarrow> True | Granular g \<Rightarrow> \<not> sandbox_approval g | _ \<Rightarrow> False)"

definition assess_patch_safety ::
  "fs_env \<Rightarrow> apply_patch_action \<Rightarrow> ask_for_approval \<Rightarrow> permission_profile \<Rightarrow> fs_policy \<Rightarrow> str \<Rightarrow> bool \<Rightarrow> safety_check" where
  "assess_patch_safety env action policy profile p cwd windows_sandbox_enabled =
     (if act_changes action = [] then Reject (lit ''empty patch'')
      else if policy = UnlessTrusted then AskUser
      else if is_write_patch_constrained_to_writable_paths env action p cwd \<or> policy = OnFailure then
        (case profile of
           Managed _ _ \<Rightarrow>
             (case get_platform_sandbox windows_sandbox_enabled of
                Some sandbox_type \<Rightarrow> AutoApprove sandbox_type False
              | None \<Rightarrow>
                  if rejects_sandbox_approval policy then Reject (patch_rejection_reason env profile p cwd) else AskUser)
         | _ \<Rightarrow> AutoApprove SandboxNone False)
      else if rejects_sandbox_approval policy then Reject (patch_rejection_reason env profile p cwd)
      else AskUser)"

record apply_patch_runtime_invocation =
  inv_action :: apply_patch_action
  inv_auto_approved :: bool
  inv_exec_approval_requirement :: exec_approval_requirement

datatype internal_apply_patch_invocation =
    PatchOutput str
  | DelegateToRuntime apply_patch_runtime_invocation

definition core_apply_patch ::
  "fs_env \<Rightarrow> ask_for_approval \<Rightarrow> permission_profile \<Rightarrow> bool \<Rightarrow> fs_policy \<Rightarrow> apply_patch_action \<Rightarrow> internal_apply_patch_invocation" where
  "core_apply_patch env approval_policy profile windows_sandbox_enabled p action =
     (case assess_patch_safety env action approval_policy profile p (act_cwd action) windows_sandbox_enabled of
        AutoApprove _ user_explicitly_approved \<Rightarrow>
          DelegateToRuntime \<lparr>inv_action = action, inv_auto_approved = (\<not> user_explicitly_approved),
            inv_exec_approval_requirement = Skip False None\<rparr>
      | AskUser \<Rightarrow>
          DelegateToRuntime \<lparr>inv_action = action, inv_auto_approved = False,
            inv_exec_approval_requirement = NeedsApproval None None\<rparr>
      | Reject reason \<Rightarrow> PatchOutput (lit ''patch rejected: '' @ reason))"

subsection \<open>What is shown\<close>

datatype file_change =
    ShownAdd str
  | ShownDelete str
  | ShownUpdate str "str option"

fun protocol_change :: "apply_patch_file_change \<Rightarrow> file_change" where
  "protocol_change (FileAdd content) = ShownAdd content"
| "protocol_change (FileDelete content) = ShownDelete content"
| "protocol_change (FileUpdate unified_diff move_path new_content) = ShownUpdate unified_diff move_path"

definition convert_apply_patch_to_protocol :: "apply_patch_action \<Rightarrow> (str \<times> file_change) list" where
  "convert_apply_patch_to_protocol action = map (\<lambda>(path, change). (path, protocol_change change)) (act_changes action)"

definition format_chunk_for_progress :: "update_file_chunk \<Rightarrow> str" where
  "format_chunk_for_progress chunk =
     (case change_context chunk of
        Some ctx \<Rightarrow> lit ''@@ '' @ ctx @ [nl]
      | None \<Rightarrow> lit ''@@'' @ [nl])
     @ concat (map (\<lambda>line. lit ''-'' @ line @ [nl]) (old_lines chunk))
     @ concat (map (\<lambda>line. lit ''+'' @ line @ [nl]) (new_lines chunk))
     @ (if is_end_of_file chunk then lit ''*** End of File'' @ [nl] else [])"

definition format_update_chunks_for_progress :: "update_file_chunk list \<Rightarrow> str" where
  "format_update_chunks_for_progress chunks = concat (map format_chunk_for_progress chunks)"

fun hunk_progress :: "hunk \<Rightarrow> file_change" where
  "hunk_progress (AddFile _ contents) = ShownAdd contents"
| "hunk_progress (DeleteFile _) = ShownDelete []"
| "hunk_progress (UpdateFile _ move_path chunks) = ShownUpdate (format_update_chunks_for_progress chunks) move_path"

text \<open>Insertion into a hash map keyed by paths, which are equal when their components are.\<close>

fun path_update :: "str \<Rightarrow> 'v \<Rightarrow> (str \<times> 'v) list \<Rightarrow> (str \<times> 'v) list" where
  "path_update k v [] = [(k, v)]"
| "path_update k v ((k', v') # m) = (if path_eq k' k then (k', v) # m else (k', v') # path_update k v m)"

definition convert_apply_patch_hunks_to_protocol :: "hunk list \<Rightarrow> (str \<times> file_change) list" where
  "convert_apply_patch_hunks_to_protocol hunks =
     foldl (\<lambda>m hunk. path_update (hunk_source_path hunk) (hunk_progress hunk) m) [] hunks"

text \<open>Progress while the arguments of a call arrive: at most one event per interval, the last one kept
  back.  Instants are milliseconds of a clock that the caller reads.\<close>

definition APPLY_PATCH_ARGUMENT_DIFF_BUFFER_INTERVAL :: nat where
  "APPLY_PATCH_ARGUMENT_DIFF_BUFFER_INTERVAL = 500"

record patch_apply_updated_event =
  event_call_id :: str
  event_changes :: "(str \<times> file_change) list"

record diff_consumer =
  dc_parser :: streaming_patch_parser
  dc_last_sent_at :: "nat option"
  dc_pending :: "patch_apply_updated_event option"

definition consumer_push_delta :: "diff_consumer \<Rightarrow> nat \<Rightarrow> str \<Rightarrow> str \<Rightarrow> diff_consumer \<times> patch_apply_updated_event option" where
  "consumer_push_delta c now call_id delta =
     (case push_delta (dc_parser c) delta of
        (parser, Inl _) \<Rightarrow> (c\<lparr>dc_parser := parser\<rparr>, None)
      | (parser, Inr hunks) \<Rightarrow>
          let c = c\<lparr>dc_parser := parser\<rparr> in
          if hunks = [] then (c, None)
          else
            let event = \<lparr>event_call_id = call_id, event_changes = convert_apply_patch_hunks_to_protocol hunks\<rparr> in
            case dc_last_sent_at c of
              Some last_sent_at \<Rightarrow>
                if now - last_sent_at < APPLY_PATCH_ARGUMENT_DIFF_BUFFER_INTERVAL
                then (c\<lparr>dc_pending := Some event\<rparr>, None)
                else (c\<lparr>dc_pending := None, dc_last_sent_at := Some now\<rparr>, Some event)
            | None \<Rightarrow> (c\<lparr>dc_pending := None, dc_last_sent_at := Some now\<rparr>, Some event))"

definition finish_update_on_complete ::
  "diff_consumer \<Rightarrow> nat \<Rightarrow> diff_consumer \<times> (str + patch_apply_updated_event option)" where
  "finish_update_on_complete c now =
     (case finish (dc_parser c) of
        (parser, Inl err) \<Rightarrow> (c\<lparr>dc_parser := parser\<rparr>, Inl (lit ''failed to parse apply_patch: '' @ parse_error_text err))
      | (parser, Inr _) \<Rightarrow>
          (c\<lparr>dc_parser := parser, dc_pending := None,
             dc_last_sent_at := (if dc_pending c \<noteq> None then Some now else dc_last_sent_at c)\<rparr>,
           Inr (dc_pending c)))"

subsection \<open>Permissions of a patch\<close>

definition file_paths_for_action :: "str option \<Rightarrow> apply_patch_action \<Rightarrow> str list" where
  "file_paths_for_action home action =
     concat (map (\<lambda>(path, change).
       resolve_path_against_base home path (act_cwd action)
       # (case change of
            FileUpdate _ (Some dest) _ \<Rightarrow> [resolve_path_against_base home dest (act_cwd action)]
          | _ \<Rightarrow> [])) (act_changes action))"

definition write_permissions_for_paths :: "fs_env \<Rightarrow> str list \<Rightarrow> fs_policy \<Rightarrow> str \<Rightarrow> additional_permissions option" where
  "write_permissions_for_paths env file_paths p cwd =
     (let dirs = filter (\<lambda>path. \<not> can_write_path_with_cwd env p path cwd)
            (map (\<lambda>path. case abs_parent path of Some q \<Rightarrow> q | None \<Rightarrow> path) file_paths)
      in Option.bind (those (map (abs_of env) (sorted_absolute_paths (remdups dirs)))) (\<lambda>write_paths.
           if write_paths = [] then None
           else (case normalize_additional_permissions env
                     \<lparr>add_network = None, add_file_system = Some (from_read_write_roots (Some []) (Some write_paths))\<rparr> of
                   Inr a \<Rightarrow> Some a | Inl _ \<Rightarrow> None)))"

definition effective_patch_permissions ::
  "fs_env \<Rightarrow> glob_compiler \<Rightarrow> additional_permissions option \<Rightarrow> additional_permissions option \<Rightarrow> fs_policy \<Rightarrow>
   apply_patch_action \<Rightarrow> str \<Rightarrow> str list \<times> effective_additional_permissions \<times> fs_policy" where
  "effective_patch_permissions env compile granted_session granted_turn base_policy action cwd =
     (let file_paths = file_paths_for_action (fs_home env) action;
          granted = merge_permission_profiles granted_session granted_turn;
          p = effective_file_system_sandbox_policy base_policy granted
      in (file_paths,
          apply_granted_turn_permissions env compile granted_session granted_turn cwd UseDefault
            (write_permissions_for_paths env file_paths p cwd),
          p))"

definition require_environment_id :: "str option \<Rightarrow> bool \<Rightarrow> str + str option" where
  "require_environment_id parsed_environment_id allow_environment_id =
     (case parsed_environment_id of
        Some environment_id \<Rightarrow>
          if \<not> allow_environment_id
          then Inl (lit ''apply_patch environment selection is unavailable for this turn'')
          else Inr (Some environment_id)
      | None \<Rightarrow> Inr None)"

subsection \<open>Running a patch\<close>

record exec_tool_call_output =
  out_exit_code :: int
  out_stdout :: str
  out_stderr :: str
  out_aggregated :: str

definition SANDBOX_DENIED_KEYWORDS :: "str list" where
  "SANDBOX_DENIED_KEYWORDS =
     [lit ''operation not permitted'', lit ''permission denied'', lit ''read-only file system'', lit ''seccomp'',
      lit ''sandbox'', lit ''landlock'', lit ''failed to write file'']"

text \<open>\<open>str::to_lowercase\<close> as far as ASCII results go: the Kelvin sign and the dotted capital I are the
  letters outside ASCII with an ASCII letter in their lower case.\<close>

definition lower_char :: "uchar \<Rightarrow> str" where
  "lower_char c = (if c = 8490 then [107] else if c = 304 then [105, 775] else [to_ascii_lower_char c])"

fun contains_text :: "str \<Rightarrow> str \<Rightarrow> bool" where
  "contains_text needle [] = (needle = [])"
| "contains_text needle (c # s) = (starts_with needle (c # s) \<or> contains_text needle s)"

definition QUICK_REJECT_EXIT_CODES :: "int list" where
  "QUICK_REJECT_EXIT_CODES = [2, 126, 127]"

definition is_likely_sandbox_denied :: "sandbox_type \<Rightarrow> exec_tool_call_output \<Rightarrow> bool" where
  "is_likely_sandbox_denied sandbox_type out =
     (if sandbox_type = SandboxNone \<or> out_exit_code out = 0 then False
      else if list_ex (\<lambda>section.
          let lower = concat (map lower_char section)
          in list_ex (\<lambda>needle. contains_text needle lower) SANDBOX_DENIED_KEYWORDS)
          [out_stderr out, out_stdout out, out_aggregated out] then True
      else if out_exit_code out \<in> set QUICK_REJECT_EXIT_CODES then False
      else sandbox_type = LinuxSeccomp \<and> out_exit_code out = 128 + 31)"

definition patch_wants_no_sandbox_approval :: "ask_for_approval \<Rightarrow> bool" where
  "patch_wants_no_sandbox_approval policy =
     (case policy of Never \<Rightarrow> False | Granular g \<Rightarrow> sandbox_approval g | _ \<Rightarrow> True)"

datatype ('out, 'o) tool_run = RunOk 'out | RunDenied 'o

text \<open>One attempt: the patch text is applied in the directory of the action; the runtime adds the
  delta to what it has committed before.  The sandbox context of the attempt is an argument.\<close>

definition runtime_run ::
  "('s, 'sb) exec_fs \<Rightarrow> str option \<Rightarrow> apply_patch_action \<Rightarrow> sandbox_type \<Rightarrow> 'sb \<Rightarrow> applied_patch_delta \<Rightarrow> 's \<Rightarrow>
   's \<times> applied_patch_delta \<times> (exec_tool_call_output \<times> applied_patch_delta, exec_tool_call_output) tool_run" where
  "runtime_run fs home action sandbox_type ctx committed s =
     (let sandbox = (if sandbox_type = SandboxNone then None else Some ctx);
          r = apply_patch fs sandbox home (act_cwd action) (act_patch action) s;
          failed = (tool_error r \<noteq> None);
          committed = delta_append committed (tool_delta r);
          out = \<lparr>out_exit_code = (if failed then 1 else 0), out_stdout = tool_stdout r, out_stderr = tool_stderr r,
                 out_aggregated = tool_stdout r @ tool_stderr r\<rparr>
      in (tool_state r, committed,
          if failed \<and> is_likely_sandbox_denied sandbox_type out then RunDenied out else RunOk (out, committed)))"

subsection \<open>Policies that do not depend on the current directory\<close>

definition cwd_free :: "fs_policy \<Rightarrow> bool" where
  "cwd_free p \<longleftrightarrow> list_all (\<lambda>e. case entry_path e of Special (ProjectRoots _) \<Rightarrow> False | _ \<Rightarrow> True) (entries p)"

lemma materialized_cwd_free: "cwd_free (materialize_project_roots_with_workspace_roots env p roots)"
proof -
  have "list_all (\<lambda>e. case entry_path e of Special (ProjectRoots _) \<Rightarrow> False | _ \<Rightarrow> True) (materialize_entry_with_roots env roots e)" for e
  proof (cases "entry_path e")
    case (Special v)
    then show ?thesis by (cases v) (auto simp: materialize_entry_with_roots_def fs_entry_of_def list_all_iff)
  qed (auto simp: materialize_entry_with_roots_def fs_entry_of_def list_all_iff split: option.split)
  then show ?thesis
    by (auto simp: cwd_free_def materialize_project_roots_with_workspace_roots_def list_all_iff)
qed

lemma cwd_free_resolved:
  assumes "normal_path c" "normal_path c'" "cwd_free p"
  shows "resolved_entries_with_cwd env p c = resolved_entries_with_cwd env p c'"
proof -
  have "resolve_entry_path env (entry_path e) (Some c) = resolve_entry_path env (entry_path e) (Some c')" if "e \<in> set (entries p)" for e
  proof (cases "entry_path e")
    case (Special v)
    with that assms show ?thesis
      by (cases v) (auto simp: cwd_free_def list_all_iff resolve_entry_path_def absolute_root_path)
  qed (simp_all add: resolve_entry_path_def)
  then show ?thesis
    using assms(1,2) by (auto simp: resolved_entries_with_cwd_def List.map_filter_def intro!: map_cong filter_cong)
qed

lemma cwd_free_can_write:
  assumes "normal_path q" "normal_path c" "normal_path c'" "cwd_free p"
  shows "can_write_path_with_cwd env p q c = can_write_path_with_cwd env p q c'"
proof -
  note eq = cwd_free_resolved [OF assms(2-4), of env]
  have "resolve_access_with_cwd env p q c = resolve_access_with_cwd env p q c'"
    using assms(1) eq by (simp add: resolve_access_with_cwd_def)
  moreover have "metadata_child_of_writable_root env p q c = metadata_child_of_writable_root env p q c'"
    using eq by (simp add: metadata_child_of_writable_root_def)
  moreover have "has_explicit_write_entry_for_metadata_path env p m q c = has_explicit_write_entry_for_metadata_path env p m q c'" for m
    using eq by (simp add: has_explicit_write_entry_for_metadata_path_def)
  ultimately show ?thesis using assms(1) by (simp add: can_write_path_with_cwd_def is_metadata_write_denied_def split: option.split)
qed

subsection \<open>What an approved patch changes\<close>

lemma safety_normalize_normal: "normal_path p \<Longrightarrow> safety_normalize p = Some p"
proof -
  assume p: "normal_path p"
  have "safety_normalize_step = normalize_step"
    by (intro ext) (metis component.exhaust normalize_step.simps safety_normalize_step.simps)
  with normalize_path_normal [OF p] normal_path_absolute [OF p] show ?thesis
    by (auto simp: safety_normalize_def normalize_path_def Let_def str_simps slash_code split: if_splits)
qed

lemma normal_patch_path_writable:
  "normal_path q \<Longrightarrow> is_patch_path_writable env p cwd q \<longleftrightarrow> can_write_path_with_cwd env p q cwd"
  by (simp add: is_patch_path_writable_def util_resolve_path_def normal_path_absolute safety_normalize_normal)

lemma auto_approved_constrained:
  assumes "core_apply_patch env policy profile w p action = DelegateToRuntime ri" "inv_auto_approved ri" "policy \<noteq> OnFailure"
  shows "inv_action ri = action" "is_write_patch_constrained_to_writable_paths env action p (act_cwd action)"
  using assms
  by (auto simp: core_apply_patch_def assess_patch_safety_def get_platform_sandbox_def
      split: safety_check.splits if_splits permission_profile.splits)

lemma verified_action:
  assumes "verify_apply_patch_args diff fs sandbox home args cwd s = VerifiedBody action"
  shows "act_patch action = args_patch args"
    and "verify_hunks_loop diff fs sandbox home (act_cwd action) s (args_hunks args) [] = Inr (act_changes action)"
    and "normal_path cwd \<Longrightarrow> normal_path (act_cwd action)"
proof -
  let ?c = "case args_workdir args of Some dir \<Rightarrow> abs_join home cwd dir | None \<Rightarrow> cwd"
  have "r \<noteq> VerifiedBody action" if "verify_hunks_loop diff fs sandbox home c s hs cs = Inl r" for c hs cs r
    using that
  proof (induction hs arbitrary: cs)
    case (Cons h hs)
    have "verify_failure e \<noteq> VerifiedBody action" for e by (cases e) simp_all
    with Cons show ?case by (cases h) (auto simp: Let_def split: sum.splits)
  qed simp
  with assms obtain changes where "verify_hunks_loop diff fs sandbox home ?c s (args_hunks args) [] = Inr changes"
    "action = \<lparr>act_changes = changes, act_patch = args_patch args, act_cwd = ?c\<rparr>"
    by (auto simp: verify_apply_patch_args_def Let_def split: sum.splits)
  then show "act_patch action = args_patch args"
    and "verify_hunks_loop diff fs sandbox home (act_cwd action) s (args_hunks args) [] = Inr (act_changes action)"
    and "normal_path cwd \<Longrightarrow> normal_path (act_cwd action)"
    by (auto simp: abs_join_def resolve_normal normal_path_absolute split: option.split)
qed

lemma verified_targets_writable:
  assumes "verify_hunks_loop diff fs sandbox home cwd s hs [] = Inr changes" "normal_path cwd"
    and "distinct (map (resolve_path home cwd) hs)" "list_all (change_is_writable env p cwd) changes"
    and "h \<in> set hs" "q \<in> hunk_targets home cwd h"
  shows "normal_path q" "can_write_path_with_cwd env p q cwd"
proof -
  have abs: "is_absolute cwd" using assms(2) by (rule normal_path_absolute)
  show q: "normal_path q"
    using assms(6) resolve_path_normal [OF abs] resolve_normal [OF abs]
    by (auto simp: hunk_targets_def split: hunk.splits option.splits)
  from verify_hunks_loop_changes [OF assms(1,3,5)] obtain c where
    c: "map_of changes (resolve_path home cwd h) = Some c" "change_of home cwd h c" .
  from map_of_SomeD [OF c(1)] assms(4) have "change_is_writable env p cwd (resolve_path home cwd h, c)" by (auto simp: list_all_iff)
  with c(2) assms(6) normal_patch_path_writable [OF q] show "can_write_path_with_cwd env p q cwd"
    by (cases h) (auto simp: hunk_targets_def abs_join_def split: option.splits)
qed


definition sample_patch :: "string list \<Rightarrow> str" where
  "sample_patch ls = join [nl] (map lit ([''*** Begin Patch''] @ ls @ [''*** End Patch'']))"

definition writable_w :: fs_policy where
  "writable_w = restricted [fs_entry_of (Special Root) Read, fs_entry_of (PathEntry (lit ''/w'')) Write]"

definition sample_tree :: node where
  "sample_tree = DirNode [(lit ''w'', DirNode [(lit ''b'', FileNode (into_bytes (lit ''x'' @ [nl])))])]"

abbreviation sample_fs :: "(node, unit) exec_fs" where
  "sample_fs \<equiv> tree_fs (\<lambda>_. False)"

definition sample_action :: "string list \<Rightarrow> apply_patch_action" where
  "sample_action ls =
     (case parse_patch (sample_patch ls) of
        Inr args \<Rightarrow>
          (case verify_apply_patch_args (\<lambda>_ _ _. []) sample_fs None None args (lit ''/w'') sample_tree of
             VerifiedBody action \<Rightarrow> action
           | _ \<Rightarrow> \<lparr>act_changes = [], act_patch = [], act_cwd = []\<rparr>)
      | Inl _ \<Rightarrow> \<lparr>act_changes = [], act_patch = [], act_cwd = []\<rparr>)"

definition sample_managed :: permission_profile where
  "sample_managed = Managed (ManagedRestricted (entries writable_w) None) NetworkRestricted"


text \<open>Two hunks about one file: the later one replaces the earlier in the map of changes, so that the
  destination of the move is neither assessed nor shown nor an approval key.  The patch is approved
  although applying it writes outside of the writable directory.\<close>

lemma shadowed_move_approved:
  "let action = sample_action [''*** Update File: b'', ''*** Move to: /etc/x'', ''@@'', ''-x'', ''+y'',
         ''*** Add File: b'', ''+z'']
   in core_apply_patch sample_env OnRequest sample_managed False writable_w action =
        DelegateToRuntime \<lparr>inv_action = action, inv_auto_approved = True, inv_exec_approval_requirement = Skip False None\<rparr>
    \<and> map fst (convert_apply_patch_to_protocol action) = [lit ''/w/b'']
    \<and> file_paths_for_action None action = [lit ''/w/b'']
    \<and> tree_files (fst (runtime_run sample_fs None action SandboxNone () delta_empty sample_tree)) [lit ''etc'', lit ''x''] \<noteq>
        tree_files sample_tree [lit ''etc'', lit ''x'']
    \<and> \<not> can_write_path_with_cwd sample_env writable_w (lit ''/etc/x'') (lit ''/w'')"
  by code_simp

end
