(* ===== verification/HiddenTags.thy ===== *)
theory HiddenTags
  imports Prelude
begin

text \<open>
  The streaming parser that hides inline tags, \<open>utils/stream-parser/src/inline_hidden_tag.rs\<close>,
  and the citation parser built on it, \<open>citation.rs\<close>.  The loop of \<open>push_str\<close> is a
  \<open>partial_function\<close>: it returns for every list of tags with non-empty delimiters.  The interface
  \<open>stream_text_parser\<close> says that the pieces in which a text arrives do not matter; the citation
  parser keeps it, and on a complete text it computes the reference \<open>hide_tags\<close>.
\<close>

subsection \<open>Chunks\<close>

record 'x stream_chunk =
  visible_text :: str
  extracted :: "'x list"

definition chunk_default :: "'x stream_chunk" where
  "chunk_default = \<lparr>visible_text = [], extracted = []\<rparr>"

definition stream_chunk_is_empty :: "'x stream_chunk \<Rightarrow> bool" where
  "stream_chunk_is_empty c \<longleftrightarrow> visible_text c = [] \<and> extracted c = []"

subsection \<open>The parser\<close>

record 't inline_tag_spec =
  spec_tag :: 't
  spec_open :: str
  spec_close :: str

record 't extracted_inline_tag =
  ex_tag :: 't
  ex_content :: str

record 't active_tag =
  act_tag :: 't
  act_close :: str
  act_content :: str

record 't inline_parser =
  ip_specs :: "'t inline_tag_spec list"
  ip_pending :: str
  ip_active :: "'t active_tag option"

definition delimiters_ok :: "'t inline_tag_spec \<Rightarrow> bool" where
  "delimiters_ok spec \<longleftrightarrow> spec_open spec \<noteq> [] \<and> spec_close spec \<noteq> []"

text \<open>\<open>None\<close> is a failed assertion.\<close>

definition inline_parser_new :: "'t inline_tag_spec list \<Rightarrow> 't inline_parser option" where
  "inline_parser_new specs =
     (if specs = [] \<or> \<not> list_all delimiters_ok specs then None
      else Some \<lparr>ip_specs = specs, ip_pending = [], ip_active = None\<rparr>)"

definition longest_suffix_prefix_len :: "str \<Rightarrow> str \<Rightarrow> nat" where
  "longest_suffix_prefix_len s needle =
     (let mx = min (length s) (length needle - 1) in
      case find (\<lambda>k. ends_with (take k needle) s) (rev [1..<Suc mx]) of Some k \<Rightarrow> k | None \<Rightarrow> 0)"

fun better_open :: "nat \<times> nat \<times> nat \<Rightarrow> nat \<times> nat \<times> nat \<Rightarrow> bool" where
  "better_open (pos_a, len_a, idx_a) (pos_b, len_b, idx_b) \<longleftrightarrow>
     pos_a < pos_b \<or> pos_a = pos_b \<and> (len_b < len_a \<or> len_b = len_a \<and> idx_a < idx_b)"

definition open_candidates :: "'t inline_tag_spec list \<Rightarrow> str \<Rightarrow> (nat \<times> nat \<times> nat) list" where
  "open_candidates specs pending =
     List.map_filter (\<lambda>(idx, spec).
       map_option (\<lambda>pos. (pos, length (spec_open spec), idx)) (find_sub (spec_open spec) pending))
       (enumerate 0 specs)"

definition find_next_open :: "'t inline_tag_spec list \<Rightarrow> str \<Rightarrow> (nat \<times> nat) option" where
  "find_next_open specs pending =
     (case open_candidates specs pending of
        [] \<Rightarrow> None
      | c # cs \<Rightarrow>
          (case fold (\<lambda>x best. if better_open x best then x else best) cs c of
             (pos, len, idx) \<Rightarrow> Some (pos, idx)))"

definition max_open_prefix_suffix_len :: "'t inline_tag_spec list \<Rightarrow> str \<Rightarrow> nat" where
  "max_open_prefix_suffix_len specs pending =
     fold max (map (\<lambda>spec. longest_suffix_prefix_len pending (spec_open spec)) specs) 0"

partial_function (option) push_loop ::
  "'t inline_tag_spec list \<Rightarrow> 't active_tag option \<Rightarrow> str \<Rightarrow> 't extracted_inline_tag stream_chunk
    \<Rightarrow> ('t active_tag option \<times> str \<times> 't extracted_inline_tag stream_chunk) option" where
  "push_loop specs active pending out =
     (case active of
        Some tag \<Rightarrow>
          (case find_sub (act_close tag) pending of
             Some close_idx \<Rightarrow>
               push_loop specs None (drop (close_idx + length (act_close tag)) pending)
                 (out\<lparr>extracted := extracted out @
                    [\<lparr>ex_tag = act_tag tag, ex_content = act_content tag @ take close_idx pending\<rparr>]\<rparr>)
           | None \<Rightarrow>
               (let n = length pending - longest_suffix_prefix_len pending (act_close tag)
                in Some (Some (tag\<lparr>act_content := act_content tag @ take n pending\<rparr>), drop n pending, out)))
      | None \<Rightarrow>
          (case find_next_open specs pending of
             Some (open_idx, spec_idx) \<Rightarrow>
               push_loop specs
                 (Some \<lparr>act_tag = spec_tag (specs ! spec_idx), act_close = spec_close (specs ! spec_idx),
                        act_content = []\<rparr>)
                 (drop (open_idx + length (spec_open (specs ! spec_idx))) pending)
                 (out\<lparr>visible_text := visible_text out @ take open_idx pending\<rparr>)
           | None \<Rightarrow>
               (let n = length pending - max_open_prefix_suffix_len specs pending
                in Some (None, drop n pending, out\<lparr>visible_text := visible_text out @ take n pending\<rparr>))))"

definition inline_push_str ::
  "'t inline_parser \<Rightarrow> str \<Rightarrow> ('t inline_parser \<times> 't extracted_inline_tag stream_chunk) option" where
  "inline_push_str p chunk =
     map_option (\<lambda>(active, pending, out). (p\<lparr>ip_pending := pending, ip_active := active\<rparr>, out))
       (push_loop (ip_specs p) (ip_active p) (ip_pending p @ chunk) chunk_default)"

definition inline_finish :: "'t inline_parser \<Rightarrow> 't inline_parser \<times> 't extracted_inline_tag stream_chunk" where
  "inline_finish p =
     (case ip_active p of
        Some tag \<Rightarrow>
          (p\<lparr>ip_active := None, ip_pending := []\<rparr>,
           \<lparr>visible_text = [], extracted = [\<lparr>ex_tag = act_tag tag, ex_content = act_content tag @ ip_pending p\<rparr>]\<rparr>)
      | None \<Rightarrow> (p\<lparr>ip_pending := []\<rparr>, \<lparr>visible_text = ip_pending p, extracted = []\<rparr>))"

subsection \<open>Citations\<close>

datatype citation_tag = Citation

definition CITATION_OPEN :: str where
  "CITATION_OPEN = lit ''<oai-mem-citation>''"

definition CITATION_CLOSE :: str where
  "CITATION_CLOSE = lit ''</oai-mem-citation>''"

definition citation_spec :: "citation_tag inline_tag_spec" where
  "citation_spec = \<lparr>spec_tag = Citation, spec_open = CITATION_OPEN, spec_close = CITATION_CLOSE\<rparr>"

definition citation_new :: "citation_tag inline_parser" where
  "citation_new = \<lparr>ip_specs = [citation_spec], ip_pending = [], ip_active = None\<rparr>"

definition map_extracted :: "'t extracted_inline_tag stream_chunk \<Rightarrow> str stream_chunk" where
  "map_extracted inner = \<lparr>visible_text = visible_text inner, extracted = map ex_content (extracted inner)\<rparr>"

text \<open>The push of the citation parser; \<open>citation_push_returns\<close> below shows that the loop it runs
  always returns, so the second case does not occur.\<close>

definition citation_push_str :: "citation_tag inline_parser \<Rightarrow> str \<Rightarrow> citation_tag inline_parser \<times> str stream_chunk" where
  "citation_push_str p chunk =
     (case inline_push_str p chunk of
        Some (p', inner) \<Rightarrow> (p', map_extracted inner)
      | None \<Rightarrow> (p, chunk_default))"

definition citation_finish :: "citation_tag inline_parser \<Rightarrow> citation_tag inline_parser \<times> str stream_chunk" where
  "citation_finish p = (case inline_finish p of (p', inner) \<Rightarrow> (p', map_extracted inner))"

definition strip_citations :: "str \<Rightarrow> str \<times> str list" where
  "strip_citations s =
     (let (p, out) = citation_push_str citation_new s;
          (p', tail) = citation_finish p
      in (visible_text out @ visible_text tail, extracted out @ extracted tail))"

subsection \<open>First occurrences\<close>

lemma starts_with_prefix: "starts_with p s \<longleftrightarrow> prefix p s"
  by (auto simp: starts_with_iff prefix_def)

lemma find_sub_Some:
  "find_sub p s = Some i \<longleftrightarrow> i \<le> length s \<and> prefix p (drop i s) \<and> (\<forall>j < i. \<not> prefix p (drop j s))"
proof (induction p s arbitrary: i rule: find_sub.induct)
  case (1 p)
  then show ?case by auto
next
  case (2 p c s)
  show ?case
  proof (cases i)
    case 0
    then show ?thesis by (simp add: starts_with_prefix)
  next
    case (Suc k)
    have "(\<forall>j < Suc k. \<not> prefix p (drop j (c # s))) \<longleftrightarrow>
        \<not> prefix p (c # s) \<and> (\<forall>j < k. \<not> prefix p (drop j s))"
      unfolding All_less_Suc2 by simp
    with Suc 2 [of k] show ?thesis by (auto simp: starts_with_prefix)
  qed
qed

lemma find_sub_None_iff: "find_sub p s = None \<longleftrightarrow> (\<forall>j \<le> length s. \<not> prefix p (drop j s))"
proof
  assume n: "find_sub p s = None"
  show "\<forall>j \<le> length s. \<not> prefix p (drop j s)"
  proof (intro allI impI notI)
    fix j
    assume "prefix p (drop j s)"
    then have "sublist p (drop j s)" by (rule prefix_imp_sublist)
    then have "sublist p s" using sublist_order.order_trans [OF _ sublist_drop] by blast
    with n show False by (simp add: find_sub_None)
  qed
next
  assume "\<forall>j \<le> length s. \<not> prefix p (drop j s)"
  then show "find_sub p s = None"
    by (cases "find_sub p s") (auto simp: find_sub_Some)
qed

lemma find_sub_Some_bound: "find_sub p s = Some i \<Longrightarrow> i + length p \<le> length s"
proof -
  assume "find_sub p s = Some i"
  then have "i \<le> length s" "prefix p (drop i s)" by (simp_all add: find_sub_Some)
  from this(1) prefix_length_le [OF this(2)] show ?thesis by simp
qed

lemma drop_found_shorter:
  assumes "find_sub p s = Some i" "p \<noteq> []"
  shows "length (drop (i + length p) s) < length s"
proof -
  have "0 < length p" using assms(2) by simp
  then show ?thesis using find_sub_Some_bound [OF assms(1)] by (simp only: length_drop)
qed

lemma prefix_drop_append:
  assumes "j + length p \<le> length s"
  shows "prefix p (drop j (s @ t)) \<longleftrightarrow> prefix p (drop j s)"
proof -
  have "drop j (s @ t) = drop j s @ t" using assms by simp
  moreover have "length p \<le> length (drop j s)" using assms by simp
  ultimately show ?thesis
    using prefix_length_prefix [of p "drop j s @ t" "drop j s"] prefix_prefix [of p "drop j s" t] by auto
qed

lemma find_sub_append:
  assumes f: "find_sub p s = Some i"
  shows "find_sub p (s @ t) = Some i"
proof -
  have b: "j + length p \<le> length s" if "j \<le> i" for j using find_sub_Some_bound [OF f] that by simp
  have same: "prefix p (drop j (s @ t)) \<longleftrightarrow> prefix p (drop j s)" if "j \<le> i" for j
    by (rule prefix_drop_append [OF b [OF that]])
  from f have "i \<le> length s" "prefix p (drop i s)" "\<forall>j < i. \<not> prefix p (drop j s)"
    by (simp_all add: find_sub_Some)
  with same show ?thesis unfolding find_sub_Some by (simp del: drop_append)
qed

text \<open>A pattern can start at position \<open>j\<close> of a text whose continuation is not known yet when what
  follows is a prefix of the pattern, or the pattern is a prefix of what follows.\<close>

definition may_start :: "str \<Rightarrow> str \<Rightarrow> nat \<Rightarrow> bool" where
  "may_start p s j \<longleftrightarrow> prefix p (drop j s) \<or> prefix (drop j s) p"

definition clear_until :: "str \<Rightarrow> str \<Rightarrow> nat \<Rightarrow> bool" where
  "clear_until p s n \<longleftrightarrow> (\<forall>j < n. \<not> may_start p s j)"

lemma find_rev_upt:
  "find f (rev [1..<Suc m]) = (if \<exists>k \<in> {1..m}. f k then Some (Max {k \<in> {1..m}. f k}) else None)"
proof (induction m)
  case 0
  then show ?case by simp
next
  case (Suc m)
  have r: "find f (rev [1..<Suc (Suc m)]) = (if f (Suc m) then Some (Suc m) else find f (rev [1..<Suc m]))"
    by (subst upt_Suc) simp
  show ?case
  proof (cases "f (Suc m)")
    case True
    then have "Max {k \<in> {1..Suc m}. f k} = Suc m" by (intro Max_eqI) auto
    moreover from True have "\<exists>k \<in> {1..Suc m}. f k" by (intro bexI [of _ "Suc m"]) simp_all
    ultimately show ?thesis unfolding r using True by (simp only: if_True)
  next
    case False
    then have "{k \<in> {1..Suc m}. f k} = {k \<in> {1..m}. f k}" "(\<exists>k \<in> {1..Suc m}. f k) \<longleftrightarrow> (\<exists>k \<in> {1..m}. f k)"
      by (auto simp: le_Suc_eq)
    then show ?thesis unfolding r using False Suc by (simp only: if_False)
  qed
qed

definition overlaps :: "str \<Rightarrow> str \<Rightarrow> nat set" where
  "overlaps s p = {k. 1 \<le> k \<and> k \<le> length s \<and> k < length p \<and> suffix (take k p) s}"

lemma finite_overlaps: "finite (overlaps s p)"
  by (rule finite_subset [of _ "{..length s}"]) (auto simp: overlaps_def)

lemma longest_suffix_prefix_len_Max: "longest_suffix_prefix_len s p = Max (insert 0 (overlaps s p))"
proof -
  let ?m = "min (length s) (length p - 1)"
  have S: "{k \<in> {1..?m}. ends_with (take k p) s} = overlaps s p"
    unfolding overlaps_def by (auto simp: ends_with_iff suffix_def)
  have ex: "(\<exists>k \<in> {1..?m}. ends_with (take k p) s) \<longleftrightarrow> overlaps s p \<noteq> {}"
    unfolding S [symmetric] by blast
  have "longest_suffix_prefix_len s p = (if overlaps s p \<noteq> {} then Max (overlaps s p) else 0)"
    unfolding longest_suffix_prefix_len_def Let_def find_rev_upt ex S by simp
  with finite_overlaps show ?thesis by simp
qed

lemma longest_suffix_prefix_len_le: "longest_suffix_prefix_len s p \<le> length s"
  unfolding longest_suffix_prefix_len_Max using finite_overlaps by (auto simp: overlaps_def)

lemma longest_suffix_prefix_len_ge:
  assumes "k \<le> length s" "k < length p" "suffix (take k p) s"
  shows "k \<le> longest_suffix_prefix_len s p"
proof -
  have "k \<in> insert 0 (overlaps s p)" using assms by (auto simp: overlaps_def)
  then show ?thesis unfolding longest_suffix_prefix_len_Max by (intro Max_ge) (simp_all add: finite_overlaps)
qed

text \<open>What the parser releases can no longer become part of a delimiter, however the text goes on.\<close>

lemma released_clear:
  assumes "find_sub p a = None"
  shows "clear_until p (a @ b) (length a - longest_suffix_prefix_len a p)"
  unfolding clear_until_def
proof (intro allI impI notI)
  fix j
  assume j: "j < length a - longest_suffix_prefix_len a p" and m: "may_start p (a @ b) j"
  have dj: "drop j (a @ b) = drop j a @ b" using j by simp
  from m have "prefix p (drop j a) \<or> prefix (drop j a) p \<and> length (drop j a) < length p"
  proof (cases "length p \<le> length (drop j a)")
    case True
    from m have "prefix p (drop j a @ b)"
      unfolding may_start_def dj using True by (auto simp: prefix_def)
    with True show ?thesis by (metis prefix_length_prefix prefixI)
  next
    case False
    from m have "prefix (drop j a) p"
      unfolding may_start_def dj
    proof
      assume "prefix p (drop j a @ b)"
      with False show ?thesis by (meson nat_le_linear prefixI prefix_length_prefix)
    qed (rule append_prefixD)
    with False show ?thesis by simp
  qed
  then show False
  proof
    assume "prefix p (drop j a)"
    with assms j show False by (auto simp: find_sub_None_iff)
  next
    assume p: "prefix (drop j a) p \<and> length (drop j a) < length p"
    then have "take (length a - j) p = drop j a"
      by (auto simp: prefix_def)
    then have "length a - j \<le> longest_suffix_prefix_len a p"
      using p by (intro longest_suffix_prefix_len_ge) (auto simp: suffix_drop)
    with j show False by simp
  qed
qed

lemma find_sub_skip:
  assumes c: "clear_until p s n" and n: "n \<le> length s"
  shows "find_sub p s = map_option (\<lambda>i. n + i) (find_sub p (drop n s))"
proof (cases "find_sub p (drop n s)")
  case None
  have "\<not> prefix p (drop j s)" if "j \<le> length s" for j
  proof (cases "j < n")
    case True
    with c show ?thesis by (auto simp: clear_until_def may_start_def)
  next
    case False
    with None [unfolded find_sub_None_iff, rule_format, of "j - n"] that n show ?thesis by simp
  qed
  then have "find_sub p s = None" by (simp add: find_sub_None_iff)
  with None show ?thesis by simp
next
  case (Some i)
  have "\<not> prefix p (drop j s)" if "j < n + i" for j
  proof (cases "j < n")
    case True
    with c show ?thesis by (auto simp: clear_until_def may_start_def)
  next
    case False
    with that have "j - n < i" by simp
    with Some have "\<not> prefix p (drop (j - n) (drop n s))" by (auto simp: find_sub_Some)
    with False show ?thesis by simp
  qed
  moreover from Some n have "n + i \<le> length s" "prefix p (drop (n + i) s)"
    by (auto simp: find_sub_Some add.commute)
  ultimately have "find_sub p s = Some (n + i)" by (simp add: find_sub_Some)
  with Some show ?thesis by simp
qed

lemma longest_suffix_prefix_len_skip:
  assumes c: "clear_until p s n" and n: "n \<le> length s"
  shows "longest_suffix_prefix_len s p = longest_suffix_prefix_len (drop n s) p"
proof -
  have "k \<le> length s - n \<and> suffix (take k p) (drop n s)"
    if k: "k \<le> length s" "k < length p" "suffix (take k p) s" for k
  proof -
    have d: "take k p = drop (length s - k) s"
      using k by (auto simp: suffix_def)
    have "may_start p s (length s - k)"
      unfolding may_start_def d [symmetric] by (simp add: take_is_prefix)
    with c have ge: "\<not> length s - k < n" by (auto simp: clear_until_def)
    then have "length s - k - n + n = length s - k" by simp
    with d have "take k p = drop (length s - k - n) (drop n s)" by (simp only: drop_drop)
    then have "suffix (take k p) (drop n s)" by (metis suffix_drop)
    with ge k(1) n show ?thesis by linarith
  qed
  moreover have "suffix x (drop n s) \<Longrightarrow> suffix x s" for x
    by (meson suffix_drop suffix_order.trans)
  ultimately have "overlaps s p = overlaps (drop n s) p"
    unfolding overlaps_def by auto
  then show ?thesis unfolding longest_suffix_prefix_len_Max by simp
qed

subsection \<open>The loop returns\<close>

lemma fold_better_mem:
  "fold (\<lambda>x best. if better_open x best then x else best) cs c \<in> set (c # cs)"
  by (induction cs arbitrary: c) (use in_mono in \<open>fastforce+\<close>)

lemma find_next_open_Some:
  assumes "find_next_open specs s = Some (i, k)"
  shows "k < length specs \<and> find_sub (spec_open (specs ! k)) s = Some i"
proof -
  from assms obtain c cs l where c: "open_candidates specs s = c # cs"
    and f: "fold (\<lambda>x best. if better_open x best then x else best) cs c = (i, l, k)"
    by (auto simp: find_next_open_def split: list.splits prod.splits)
  from fold_better_mem [of cs c] have "(i, l, k) \<in> set (open_candidates specs s)"
    unfolding c f .
  then show ?thesis
    by (auto simp: open_candidates_def List.map_filter_def in_set_enumerate_eq split: option.splits)
qed

lemma find_next_open_None: "find_next_open specs s = None \<longleftrightarrow> (\<forall>spec \<in> set specs. find_sub (spec_open spec) s = None)"
proof -
  have "find_next_open specs s = None \<longleftrightarrow> open_candidates specs s = []"
    by (auto simp: find_next_open_def split: list.splits prod.splits)
  also have "\<dots> \<longleftrightarrow> (\<forall>(idx, spec) \<in> set (enumerate 0 specs). find_sub (spec_open spec) s = None)"
    by (auto simp: open_candidates_def List.map_filter_def filter_empty_conv)
  also have "\<dots> \<longleftrightarrow> (\<forall>spec \<in> set specs. find_sub (spec_open spec) s = None)"
    by (auto simp: all_set_conv_all_nth nth_enumerate_eq)
  finally show ?thesis .
qed

definition active_ok :: "'t active_tag option \<Rightarrow> bool" where
  "active_ok active \<longleftrightarrow> (case active of None \<Rightarrow> True | Some tag \<Rightarrow> act_close tag \<noteq> [])"

lemma push_loop_returns:
  assumes "list_all delimiters_ok specs" "active_ok active"
  shows "\<exists>active' pending' out'. push_loop specs active pending out = Some (active', pending', out') \<and> active_ok active'"
  using assms(2)
proof (induction "length pending" arbitrary: active pending out rule: less_induct)
  case less
  show ?case
  proof (cases active)
    case (Some tag)
    show ?thesis
    proof (cases "find_sub (act_close tag) pending")
      case (Some i)
      have "length (drop (i + length (act_close tag)) pending) < length pending"
        by (rule drop_found_shorter [OF Some]) (use less.prems \<open>active = Some tag\<close> in \<open>simp add: active_ok_def\<close>)
      with less.hyps [of "drop (i + length (act_close tag)) pending" None] show ?thesis
        by (subst push_loop.simps) (simp add: \<open>active = Some tag\<close> Some active_ok_def)
    next
      case None
      with less.prems show ?thesis
        by (subst push_loop.simps) (simp add: Some Let_def active_ok_def)
    qed
  next
    case None
    show ?thesis
    proof (cases "find_next_open specs pending")
      case (Some r)
      obtain i k where r: "r = (i, k)" by (cases r)
      from find_next_open_Some [OF Some [unfolded r]] have k: "k < length specs"
        and f: "find_sub (spec_open (specs ! k)) pending = Some i" by auto
      have ok: "delimiters_ok (specs ! k)" using assms(1) k by (simp add: list_all_length)
      have "length (drop (i + length (spec_open (specs ! k))) pending) < length pending"
        by (rule drop_found_shorter [OF f]) (use ok in \<open>simp add: delimiters_ok_def\<close>)
      with less.hyps [of "drop (i + length (spec_open (specs ! k))) pending"
          "Some \<lparr>act_tag = spec_tag (specs ! k), act_close = spec_close (specs ! k), act_content = []\<rparr>"] ok
      show ?thesis
        by (subst push_loop.simps) (simp add: None Some r active_ok_def delimiters_ok_def)
    qed (subst push_loop.simps, simp add: None Let_def active_ok_def)
  qed
qed

subsection \<open>One tag: the loop on a text that goes on\<close>

lemma find_next_open_single:
  "find_next_open [spec] s = map_option (\<lambda>i. (i, 0)) (find_sub (spec_open spec) s)"
  by (auto simp: find_next_open_def open_candidates_def List.map_filter_def split: option.splits)

lemma max_open_single: "max_open_prefix_suffix_len [spec] s = longest_suffix_prefix_len s (spec_open spec)"
  by (simp add: max_open_prefix_suffix_len_def)

lemma drop_skip: "drop (n + m) s = drop m (drop n s)"
  by (simp add: add.commute)

lemma keep_skip:
  assumes "clear_until p s n" "n \<le> length s"
  shows "length s - longest_suffix_prefix_len s p =
    n + (length (drop n s) - longest_suffix_prefix_len (drop n s) p)"
  using longest_suffix_prefix_len_skip [OF assms] longest_suffix_prefix_len_le [of "drop n s" p] assms(2)
  by simp

lemma push_loop_skip_active:
  assumes c: "clear_until (act_close tag) s n" and n: "n \<le> length s"
  shows "push_loop specs (Some tag) s out =
    push_loop specs (Some (tag\<lparr>act_content := act_content tag @ take n s\<rparr>)) (drop n s) out"
proof (cases "find_sub (act_close tag) (drop n s)")
  case (Some i)
  moreover from this have "find_sub (act_close tag) s = Some (n + i)" using find_sub_skip [OF c n] by simp
  ultimately show ?thesis
    by (subst (1 2) push_loop.simps) (simp add: take_add drop_skip del: drop_drop)
next
  case None
  moreover from this have "find_sub (act_close tag) s = None" using find_sub_skip [OF c n] by simp
  ultimately show ?thesis
    by (subst (1 2) push_loop.simps) (simp add: Let_def keep_skip [OF c n] take_add drop_skip del: drop_drop length_drop)
qed

lemma push_loop_skip_open:
  assumes c: "clear_until (spec_open spec) s n" and n: "n \<le> length s"
  shows "push_loop [spec] None s out =
    push_loop [spec] None (drop n s) (out\<lparr>visible_text := visible_text out @ take n s\<rparr>)"
proof (cases "find_sub (spec_open spec) (drop n s)")
  case (Some i)
  moreover from this have "find_sub (spec_open spec) s = Some (n + i)" using find_sub_skip [OF c n] by simp
  ultimately show ?thesis
    by (subst (1 2) push_loop.simps) (simp add: find_next_open_single take_add drop_skip del: drop_drop)
next
  case None
  moreover from this have "find_sub (spec_open spec) s = None" using find_sub_skip [OF c n] by simp
  ultimately show ?thesis
    by (subst (1 2) push_loop.simps)
      (simp add: find_next_open_single max_open_single Let_def keep_skip [OF c n] take_add drop_skip
        del: drop_drop length_drop)
qed

definition fits_spec :: "'t inline_tag_spec \<Rightarrow> 't active_tag option \<Rightarrow> bool" where
  "fits_spec spec active \<longleftrightarrow> (case active of None \<Rightarrow> True | Some tag \<Rightarrow> act_close tag = spec_close spec)"

lemma push_loop_append:
  assumes ok: "delimiters_ok spec" and "fits_spec spec active"
  shows "push_loop [spec] active (a @ b) out =
    Option.bind (push_loop [spec] active a out) (\<lambda>(active', pending, out'). push_loop [spec] active' (pending @ b) out')"
  using assms(2)
proof (induction "length a" arbitrary: active a out rule: less_induct)
  case less
  show ?case
  proof (cases active)
    case (Some tag)
    show ?thesis
    proof (cases "find_sub (act_close tag) a")
      case (Some i)
      note f = Some find_sub_append [OF Some, of b] find_sub_Some_bound [OF Some]
      have "length (drop (i + length (act_close tag)) a) < length a"
        by (rule drop_found_shorter [OF Some])
          (use less.prems ok \<open>active = Some tag\<close> in \<open>simp add: fits_spec_def delimiters_ok_def\<close>)
      from less.hyps [OF this, of None] f show ?thesis
        by (subst (1 2) push_loop.simps) (simp add: \<open>active = Some tag\<close> fits_spec_def)
    next
      case None
      have le: "length a - longest_suffix_prefix_len a (act_close tag) \<le> length (a @ b)" by simp
      show ?thesis
        by (subst (2) push_loop.simps, subst \<open>active = Some tag\<close>, subst push_loop_skip_active [OF released_clear [OF None] le])
          (simp add: \<open>active = Some tag\<close> None Let_def)
    qed
  next
    case None
    show ?thesis
    proof (cases "find_sub (spec_open spec) a")
      case (Some i)
      note f = Some find_sub_append [OF Some, of b] find_sub_Some_bound [OF Some]
      have "length (drop (i + length (spec_open spec)) a) < length a"
        by (rule drop_found_shorter [OF Some]) (use ok in \<open>simp add: delimiters_ok_def\<close>)
      from less.hyps [OF this, of "Some \<lparr>act_tag = spec_tag spec, act_close = spec_close spec, act_content = []\<rparr>"] f
      show ?thesis
        by (subst (1 2) push_loop.simps) (simp add: None find_next_open_single fits_spec_def)
    next
      case nf: None
      have le: "length a - longest_suffix_prefix_len a (spec_open spec) \<le> length (a @ b)" by simp
      show ?thesis
        by (subst (2) push_loop.simps, subst None, subst push_loop_skip_open [OF released_clear [OF nf] le])
          (simp add: None nf find_next_open_single max_open_single Let_def)
    qed
  qed
qed

subsection \<open>One tag: the parser\<close>

definition chunk_append :: "'x stream_chunk \<Rightarrow> 'x stream_chunk \<Rightarrow> 'x stream_chunk" where
  "chunk_append c d = \<lparr>visible_text = visible_text c @ visible_text d, extracted = extracted c @ extracted d\<rparr>"

lemma chunk_append_simps [simp]:
  "visible_text (chunk_append c d) = visible_text c @ visible_text d"
  "extracted (chunk_append c d) = extracted c @ extracted d"
  "chunk_append c chunk_default = c" "chunk_append chunk_default c = c"
  "chunk_append c d = c \<longleftrightarrow> d = chunk_default"
  by (cases c, cases d, auto simp: chunk_append_def chunk_default_def)+

lemma push_loop_accumulates:
  assumes ok: "delimiters_ok spec" and "fits_spec spec active"
  shows "push_loop [spec] active s (chunk_append c d) =
    map_option (\<lambda>(active', pending, out). (active', pending, chunk_append c out)) (push_loop [spec] active s d)"
  using assms(2)
proof (induction "length s" arbitrary: active s d rule: less_induct)
  case less
  have ext: "chunk_append c d\<lparr>extracted := extracted (chunk_append c d) @ x\<rparr> = chunk_append c (d\<lparr>extracted := extracted d @ x\<rparr>)"
    and vis: "chunk_append c d\<lparr>visible_text := visible_text (chunk_append c d) @ v\<rparr> = chunk_append c (d\<lparr>visible_text := visible_text d @ v\<rparr>)"
    for x v by (simp_all add: chunk_append_def)
  show ?case
  proof (cases active)
    case (Some tag)
    show ?thesis
    proof (cases "find_sub (act_close tag) s")
      case (Some i)
      have "length (drop (i + length (act_close tag)) s) < length s"
        by (rule drop_found_shorter [OF Some])
          (use less.prems ok \<open>active = Some tag\<close> in \<open>simp add: fits_spec_def delimiters_ok_def\<close>)
      from less.hyps [OF this, of None] show ?thesis
        by (subst (1 2) push_loop.simps) (simp add: \<open>active = Some tag\<close> Some fits_spec_def ext del: chunk_append_simps)
    qed (subst (1 2) push_loop.simps, simp add: Some Let_def)
  next
    case None
    show ?thesis
    proof (cases "find_sub (spec_open spec) s")
      case (Some i)
      have "length (drop (i + length (spec_open spec)) s) < length s"
        by (rule drop_found_shorter [OF Some]) (use ok in \<open>simp add: delimiters_ok_def\<close>)
      from less.hyps [OF this, of "Some \<lparr>act_tag = spec_tag spec, act_close = spec_close spec, act_content = []\<rparr>"]
      show ?thesis
        by (subst (1 2) push_loop.simps)
          (simp add: None Some find_next_open_single fits_spec_def vis del: chunk_append_simps)
    qed (subst (1 2) push_loop.simps, simp add: None find_next_open_single Let_def vis del: chunk_append_simps)
  qed
qed

lemma push_loop_fits:
  assumes ok: "delimiters_ok spec" and "fits_spec spec active"
    and "push_loop [spec] active s out = Some (active', pending, out')"
  shows "fits_spec spec active'"
  using assms(2,3)
proof (induction "length s" arbitrary: active s out rule: less_induct)
  case less
  show ?case
  proof (cases active)
    case (Some tag)
    show ?thesis
    proof (cases "find_sub (act_close tag) s")
      case (Some i)
      have sh: "length (drop (i + length (act_close tag)) s) < length s"
        by (rule drop_found_shorter [OF Some])
          (use less.prems ok \<open>active = Some tag\<close> in \<open>simp add: fits_spec_def delimiters_ok_def\<close>)
      show ?thesis
        using less.prems(2) unfolding \<open>active = Some tag\<close>
        by (subst (asm) push_loop.simps) (simp add: Some, rule less.hyps [OF sh], simp_all add: fits_spec_def)
    next
      case None
      show ?thesis using less.prems(2) unfolding Some
        by (subst (asm) push_loop.simps) (use less.prems(1) Some None in \<open>auto simp: Let_def fits_spec_def\<close>)
    qed
  next
    case None
    show ?thesis
    proof (cases "find_sub (spec_open spec) s")
      case (Some i)
      have sh: "length (drop (i + length (spec_open spec)) s) < length s"
        by (rule drop_found_shorter [OF Some]) (use ok in \<open>simp add: delimiters_ok_def\<close>)
      show ?thesis
        using less.prems(2) unfolding None
        by (subst (asm) push_loop.simps)
          (simp add: Some find_next_open_single, rule less.hyps [OF sh], simp_all add: fits_spec_def)
    next
      case nf: None
      show ?thesis using less.prems(2) unfolding None
        by (subst (asm) push_loop.simps) (use nf in \<open>auto simp: Let_def fits_spec_def find_next_open_single\<close>)
    qed
  qed
qed

text \<open>The states a parser for one tag reaches: it keeps only what may still become a delimiter, so
  that pushing nothing changes nothing.\<close>

definition tag_parser_wf :: "'t inline_tag_spec \<Rightarrow> 't inline_parser \<Rightarrow> bool" where
  "tag_parser_wf spec p \<longleftrightarrow> delimiters_ok spec \<and> ip_specs p = [spec] \<and> fits_spec spec (ip_active p) \<and>
     inline_push_str p [] = Some (p, chunk_default)"

lemma inline_push_append:
  assumes "delimiters_ok spec" "ip_specs p = [spec]" "fits_spec spec (ip_active p)"
  shows "inline_push_str p (a @ b) =
    Option.bind (inline_push_str p a) (\<lambda>(p1, o1). map_option (\<lambda>(p2, o2). (p2, chunk_append o1 o2)) (inline_push_str p1 b))"
proof (cases "push_loop [spec] (ip_active p) (ip_pending p @ a) chunk_default")
  case None
  with assms show ?thesis
    using push_loop_append [OF assms(1,3), of "ip_pending p @ a" b chunk_default]
    by (simp add: inline_push_str_def)
next
  case (Some r)
  obtain active pending out where r: "r = (active, pending, out)" by (cases r)
  have "fits_spec spec active" using push_loop_fits [OF assms(1,3) Some [unfolded r]] .
  from push_loop_accumulates [OF assms(1) this, of "pending @ b" out chunk_default]
  show ?thesis
    using push_loop_append [OF assms(1,3), of "ip_pending p @ a" b chunk_default] Some r assms(2)
    by (simp add: inline_push_str_def option.map_comp comp_def case_prod_unfold)
qed

lemma inline_push_wf:
  assumes "tag_parser_wf spec p"
  obtains p' out where "inline_push_str p s = Some (p', out)" "tag_parser_wf spec p'"
proof -
  from assms have ok: "delimiters_ok spec" and sp: "ip_specs p = [spec]" and f: "fits_spec spec (ip_active p)"
    by (auto simp: tag_parser_wf_def)
  have "active_ok (ip_active p)"
    using ok f by (auto simp: active_ok_def fits_spec_def delimiters_ok_def split: option.splits)
  from push_loop_returns [OF _ this, of "[spec]" "ip_pending p @ s" chunk_default] ok
  obtain active pending out where l: "push_loop [spec] (ip_active p) (ip_pending p @ s) chunk_default = Some (active, pending, out)"
    by auto
  define p' where "p' = p\<lparr>ip_pending := pending, ip_active := active\<rparr>"
  have push: "inline_push_str p s = Some (p', out)"
    using l sp by (simp add: inline_push_str_def p'_def)
  have f': "fits_spec spec (ip_active p')"
    using push_loop_fits [OF ok f l] by (simp add: p'_def)
  have "inline_push_str p' [] = Some (p', chunk_default)"
  proof -
    from inline_push_append [OF ok sp f, of s "[]"] push
    have "map_option (\<lambda>(p2, o2). (p2, chunk_append out o2)) (inline_push_str p' []) = Some (p', out)"
      by simp
    then show ?thesis by (cases "inline_push_str p' []") auto
  qed
  with ok sp f' have "tag_parser_wf spec p'" by (simp add: tag_parser_wf_def p'_def)
  with push that show ?thesis by blast
qed

subsection \<open>The interface of a stream parser\<close>

text \<open>The trait \<open>StreamTextParser\<close> (\<open>stream_text.rs\<close>), with the promise its implementations make and
  its clients rely on: what is shown and what is found do not depend on the pieces in which the text
  is pushed.\<close>

fun push_all :: "('p \<Rightarrow> str \<Rightarrow> 'p \<times> 'o) \<Rightarrow> 'p \<Rightarrow> str list \<Rightarrow> 'p \<times> 'o list" where
  "push_all push p [] = (p, [])"
| "push_all push p (s # ss) =
     (let (p1, out) = push p s; (p2, outs) = push_all push p1 ss in (p2, out # outs))"

locale stream_text_parser =
  fixes push :: "'p \<Rightarrow> str \<Rightarrow> 'p \<times> 'o"
    and shown :: "'o \<Rightarrow> str"
    and found :: "'o \<Rightarrow> 'e list"
    and wf :: "'p \<Rightarrow> bool"
  assumes wf_push: "wf p \<Longrightarrow> wf (fst (push p s))"
    and state_append: "wf p \<Longrightarrow> fst (push p (a @ b)) = fst (push (fst (push p a)) b)"
    and shown_append: "wf p \<Longrightarrow> shown (snd (push p (a @ b))) = shown (snd (push p a)) @ shown (snd (push (fst (push p a)) b))"
    and found_append: "wf p \<Longrightarrow> found (snd (push p (a @ b))) = found (snd (push p a)) @ found (snd (push (fst (push p a)) b))"
    and state_Nil: "wf p \<Longrightarrow> fst (push p []) = p"
begin

lemma shown_Nil: "wf p \<Longrightarrow> shown (snd (push p [])) = []"
  using shown_append [of p "[]" "[]"] by (simp add: state_Nil)

lemma found_Nil: "wf p \<Longrightarrow> found (snd (push p [])) = []"
  using found_append [of p "[]" "[]"] by (simp add: state_Nil)

lemma push_all_concat:
  assumes "wf p"
  shows "fst (push_all push p ss) = fst (push p (concat ss))"
    "concat (map shown (snd (push_all push p ss))) = shown (snd (push p (concat ss)))"
    "concat (map found (snd (push_all push p ss))) = found (snd (push p (concat ss)))"
  using assms
proof (induction ss arbitrary: p)
  case Nil
  { case 1 then show ?case by (simp add: state_Nil) }
  { case 2 then show ?case by (simp add: shown_Nil) }
  { case 3 then show ?case by (simp add: found_Nil) }
next
  case (Cons s ss)
  note c = split_beta Let_def state_append shown_append found_append wf_push
  { case 1 with Cons.IH(1) [of "fst (push p s)"] show ?case by (simp add: c) }
  { case 2 with Cons.IH(2) [of "fst (push p s)"] show ?case by (simp add: c) }
  { case 3 with Cons.IH(3) [of "fst (push p s)"] show ?case by (simp add: c) }
qed

lemma wf_push_all: "wf p \<Longrightarrow> wf (fst (push_all push p ss))"
  by (simp add: push_all_concat(1) wf_push)

end

lemma citation_spec_ok [simp]: "delimiters_ok citation_spec"
  by (simp add: delimiters_ok_def citation_spec_def CITATION_OPEN_def CITATION_CLOSE_def str_simps)

lemma citation_push_returns:
  assumes "tag_parser_wf citation_spec p"
  obtains p' inner where "inline_push_str p s = Some (p', inner)" "tag_parser_wf citation_spec p'"
    "citation_push_str p s = (p', map_extracted inner)"
proof -
  obtain p' inner where "inline_push_str p s = Some (p', inner)" "tag_parser_wf citation_spec p'"
    using inline_push_wf [OF assms, of s] .
  then show ?thesis by (intro that) (auto simp: citation_push_str_def)
qed

lemma citation_append:
  assumes "tag_parser_wf citation_spec p"
  shows "citation_push_str p (a @ b) =
    (let (p1, o1) = citation_push_str p a; (p2, o2) = citation_push_str p1 b in (p2, chunk_append o1 o2))"
proof -
  obtain p1 o1 where a: "inline_push_str p a = Some (p1, o1)" "tag_parser_wf citation_spec p1"
    "citation_push_str p a = (p1, map_extracted o1)"
    using citation_push_returns [OF assms] .
  obtain p2 o2 where b: "inline_push_str p1 b = Some (p2, o2)" "citation_push_str p1 b = (p2, map_extracted o2)"
    using citation_push_returns [OF a(2)] .
  from assms have "inline_push_str p (a @ b) = Some (p2, chunk_append o1 o2)"
    using inline_push_append [of citation_spec p a b] a b by (simp add: tag_parser_wf_def)
  with a b show ?thesis
    by (simp add: citation_push_str_def map_extracted_def chunk_append_def)
qed

interpretation citation: stream_text_parser citation_push_str visible_text extracted "tag_parser_wf citation_spec"
proof
  fix p :: "citation_tag inline_parser" and s a b
  assume wf: "tag_parser_wf citation_spec p"
  show "tag_parser_wf citation_spec (fst (citation_push_str p s))"
    using citation_push_returns [OF wf, of s] by (metis fst_conv)
  show "fst (citation_push_str p (a @ b)) = fst (citation_push_str (fst (citation_push_str p a)) b)"
    "visible_text (snd (citation_push_str p (a @ b))) =
      visible_text (snd (citation_push_str p a)) @ visible_text (snd (citation_push_str (fst (citation_push_str p a)) b))"
    "extracted (snd (citation_push_str p (a @ b))) =
      extracted (snd (citation_push_str p a)) @ extracted (snd (citation_push_str (fst (citation_push_str p a)) b))"
    using citation_append [OF wf, of a b] by (simp_all add: Let_def split_beta)
  show "fst (citation_push_str p []) = p"
    using wf by (simp add: tag_parser_wf_def citation_push_str_def)
qed

lemma citation_new_wf [simp]: "tag_parser_wf citation_spec citation_new"
  unfolding tag_parser_wf_def
  by (simp add: citation_new_def fits_spec_def inline_push_str_def)
    (subst push_loop.simps, simp add: find_next_open_single max_open_single Let_def chunk_default_def
      citation_spec_def CITATION_OPEN_def str_simps longest_suffix_prefix_len_def)

subsection \<open>What a citation parser computes\<close>

lemma citation_tags_nonempty: "CITATION_OPEN \<noteq> []" "CITATION_CLOSE \<noteq> []"
  by (simp_all add: CITATION_OPEN_def CITATION_CLOSE_def str_simps)

text \<open>The reference: the text outside the tags, and the bodies of the tags; a tag that is not closed
  has the rest of the text as its body.\<close>

function hide_citations :: "str \<Rightarrow> str \<times> str list" where
  "hide_citations s =
     (case find_sub CITATION_OPEN s of
        None \<Rightarrow> (s, [])
      | Some i \<Rightarrow>
          (let body = drop (i + length CITATION_OPEN) s in
           case find_sub CITATION_CLOSE body of
             None \<Rightarrow> (take i s, [body])
           | Some j \<Rightarrow>
               (let (v, e) = hide_citations (drop (j + length CITATION_CLOSE) body)
                in (take i s @ v, take j body # e))))"
  by auto
termination
proof (relation "measure length")
  fix s i body j
  assume i: "find_sub CITATION_OPEN s = Some i" and b: "body = drop (i + length CITATION_OPEN) s"
    and j: "find_sub CITATION_CLOSE body = Some j"
  have "length body < length s" unfolding b by (rule drop_found_shorter [OF i citation_tags_nonempty(1)])
  moreover have "length (drop (j + length CITATION_CLOSE) body) < length body"
    by (rule drop_found_shorter [OF j citation_tags_nonempty(2)])
  ultimately show "(drop (j + length CITATION_CLOSE) body, s) \<in> measure length" by simp
qed simp

declare hide_citations.simps [simp del]

definition collected ::
  "citation_tag active_tag option \<times> str \<times> citation_tag extracted_inline_tag stream_chunk \<Rightarrow> str \<times> str list" where
  "collected r = (case r of (active, pending, out) \<Rightarrow>
     (case active of
        None \<Rightarrow> (visible_text out @ pending, map ex_content (extracted out))
      | Some tag \<Rightarrow> (visible_text out, map ex_content (extracted out) @ [act_content tag @ pending])))"

definition expected ::
  "citation_tag active_tag option \<Rightarrow> str \<Rightarrow> citation_tag extracted_inline_tag stream_chunk \<Rightarrow> str \<times> str list" where
  "expected active s out =
     (case active of
        None \<Rightarrow> (visible_text out @ fst (hide_citations s), map ex_content (extracted out) @ snd (hide_citations s))
      | Some tag \<Rightarrow>
          (case find_sub CITATION_CLOSE s of
             None \<Rightarrow> (visible_text out, map ex_content (extracted out) @ [act_content tag @ s])
           | Some j \<Rightarrow>
               (let r = hide_citations (drop (j + length CITATION_CLOSE) s)
                in (visible_text out @ fst r, map ex_content (extracted out) @ (act_content tag @ take j s) # snd r))))"

lemma push_loop_expected:
  assumes "fits_spec citation_spec active" "push_loop [citation_spec] active s out = Some r"
  shows "collected r = expected active s out"
  using assms
proof (induction "length s" arbitrary: active s out rule: less_induct)
  case less
  have cs: "spec_open citation_spec = CITATION_OPEN" "spec_close citation_spec = CITATION_CLOSE"
    by (simp_all add: citation_spec_def)
  show ?case
  proof (cases active)
    case (Some tag)
    with less.prems(1) have c: "act_close tag = CITATION_CLOSE" by (simp add: fits_spec_def cs)
    show ?thesis
    proof (cases "find_sub CITATION_CLOSE s")
      case (Some j)
      have sh: "length (drop (j + length CITATION_CLOSE) s) < length s"
        by (rule drop_found_shorter [OF Some citation_tags_nonempty(2)])
      from less.prems(2) have "push_loop [citation_spec] None (drop (j + length CITATION_CLOSE) s)
          (out\<lparr>extracted := extracted out @ [\<lparr>ex_tag = act_tag tag, ex_content = act_content tag @ take j s\<rparr>]\<rparr>) = Some r"
        unfolding \<open>active = Some tag\<close> by (subst (asm) push_loop.simps) (simp add: c Some)
      from less.hyps [OF sh _ this] show ?thesis
        by (simp add: \<open>active = Some tag\<close> Some expected_def Let_def fits_spec_def)
    next
      case None
      from less.prems(2) show ?thesis unfolding Some
        by (subst (asm) push_loop.simps) (auto simp: c None Let_def expected_def collected_def)
    qed
  next
    case None
    show ?thesis
    proof (cases "find_sub CITATION_OPEN s")
      case (Some i)
      let ?tag = "\<lparr>act_tag = spec_tag citation_spec, act_close = CITATION_CLOSE, act_content = []\<rparr>"
      have sh: "length (drop (i + length CITATION_OPEN) s) < length s"
        by (rule drop_found_shorter [OF Some citation_tags_nonempty(1)])
      from less.prems(2) have "push_loop [citation_spec] (Some ?tag) (drop (i + length CITATION_OPEN) s)
          (out\<lparr>visible_text := visible_text out @ take i s\<rparr>) = Some r"
        unfolding None by (subst (asm) push_loop.simps) (simp add: cs Some find_next_open_single)
      from less.hyps [OF sh _ this] show ?thesis
        by (simp add: None Some expected_def Let_def fits_spec_def cs hide_citations.simps [of s] split_beta split: option.splits)
    next
      case nf: None
      from less.prems(2) show ?thesis unfolding None
        by (subst (asm) push_loop.simps)
          (auto simp: cs nf Let_def expected_def collected_def find_next_open_single max_open_single
            hide_citations.simps [of s])
    qed
  qed
qed

text \<open>A stream of pieces: push each, then finish.\<close>

definition citation_stream :: "str list \<Rightarrow> str \<times> str list" where
  "citation_stream pieces =
     (let (p, outs) = push_all citation_push_str citation_new pieces;
          (p', tail) = citation_finish p
      in (concat (map visible_text outs) @ visible_text tail, concat (map extracted outs) @ extracted tail))"

lemma citation_push_finish:
  "(let (p, out) = citation_push_str citation_new s; (p', tail) = citation_finish p
    in (visible_text out @ visible_text tail, extracted out @ extracted tail)) = hide_citations s"
proof -
  obtain p inner where i: "inline_push_str citation_new s = Some (p, inner)"
    and c: "citation_push_str citation_new s = (p, map_extracted inner)"
    using citation_push_returns [OF citation_new_wf, of s] by metis
  from i have l: "push_loop [citation_spec] None s chunk_default = Some (ip_active p, ip_pending p, inner)"
    by (auto simp: inline_push_str_def citation_new_def)
  have "collected (ip_active p, ip_pending p, inner) = hide_citations s"
    using push_loop_expected [OF _ l] by (simp add: fits_spec_def expected_def chunk_default_def)
  then show ?thesis
    by (simp add: c citation_finish_def inline_finish_def map_extracted_def collected_def split: option.splits)
qed

text \<open>C28. Whatever the pieces in which a text arrives, even when a piece ends inside a tag, the
  citation parser shows the text outside the citation tags and extracts the bodies of the tags, the
  last one even when its tag is never closed; this is also what \<open>strip_citations\<close> returns for the
  complete text.\<close>

theorem citations_hidden_in_any_pieces:
  "citation_stream pieces = hide_citations (concat pieces) \<and>
   strip_citations (concat pieces) = hide_citations (concat pieces)"
proof
  show "strip_citations (concat pieces) = hide_citations (concat pieces)"
    unfolding strip_citations_def by (rule citation_push_finish)
  show "citation_stream pieces = hide_citations (concat pieces)"
    unfolding citation_push_finish [of "concat pieces", symmetric] citation_stream_def
    using citation.push_all_concat [OF citation_new_wf, of pieces] by (simp add: Let_def split_beta)
qed

fun inline_push_all :: "'t inline_parser \<Rightarrow> str list \<Rightarrow> ('t inline_parser \<times> 't extracted_inline_tag stream_chunk list) option" where
  "inline_push_all p [] = Some (p, [])"
| "inline_push_all p (s # ss) =
     Option.bind (inline_push_str p s) (\<lambda>(p', out). map_option (\<lambda>(q, outs). (q, out # outs)) (inline_push_all p' ss))"

lemma inline_push_all_returns:
  assumes "list_all delimiters_ok (ip_specs p)" "active_ok (ip_active p)"
  shows "\<exists>q outs. inline_push_all p pieces = Some (q, outs) \<and> length outs = length pieces"
  using assms
proof (induction pieces arbitrary: p)
  case (Cons s ss)
  obtain active pending out where l: "push_loop (ip_specs p) (ip_active p) (ip_pending p @ s) chunk_default = Some (active, pending, out)"
    and a: "active_ok active"
    using push_loop_returns [OF Cons.prems] by blast
  from Cons.IH [of "p\<lparr>ip_pending := pending, ip_active := active\<rparr>"] a Cons.prems
  show ?case by (auto simp: inline_push_str_def l)
qed simp

text \<open>C29. The loop of \<open>push_str\<close> ends for every parser that \<open>new\<close> accepts, with any number of tags
  and whatever text arrives in whatever pieces: every push returns a chunk.\<close>

theorem inline_push_terminates:
  assumes "inline_parser_new specs = Some p"
  shows "\<exists>q outs. inline_push_all p pieces = Some (q, outs) \<and> length outs = length pieces"
  by (rule inline_push_all_returns)
    (use assms in \<open>auto simp: inline_parser_new_def active_ok_def split: if_splits\<close>)

theorem inline_push_terminates_witness:
  "\<exists>q outs. inline_push_all \<lparr>ip_specs = [\<lparr>spec_tag = True, spec_open = lit ''<a>'', spec_close = lit ''</a>''\<rparr>,
       \<lparr>spec_tag = False, spec_open = lit ''<b>'', spec_close = lit ''</b>''\<rparr>], ip_pending = [], ip_active = None\<rparr>
     [lit ''x<a>y</'', lit ''a>z<b>'', lit ''w''] = Some (q, outs) \<and> length outs = length [lit ''x<a>y</'', lit ''a>z<b>'', lit ''w'']"
  by (rule inline_push_terminates [of "[\<lparr>spec_tag = True, spec_open = lit ''<a>'', spec_close = lit ''</a>''\<rparr>,
       \<lparr>spec_tag = False, spec_open = lit ''<b>'', spec_close = lit ''</b>''\<rparr>]"])
    (simp add: inline_parser_new_def delimiters_ok_def str_simps)

end
