(* ===== verification/PlanText.thy ===== *)
theory PlanText
  imports HiddenTags
begin

text \<open>
  The line-based tag parser (\<open>utils/stream-parser/src/tagged_line_parser.rs\<close>), the parser of
  proposed-plan blocks built on it (\<open>proposed_plan.rs\<close>) and the parser of assistant text that
  chains it after the citation parser (\<open>assistant_text.rs\<close>).  The parser decides character by
  character and holds back a line as long as it can be a tag; the reference \<open>tag_lines\<close> looks at
  whole lines.  Segments are compared as sequences of \<open>line_event\<close>s, because the pieces in which a
  text arrives cut one segment into several.
\<close>

subsection \<open>The line parser\<close>

record 't tag_spec =
  ts_open :: str
  ts_close :: str
  ts_tag :: 't

datatype 't tagged_line_segment = Normal str | TagStart 't | TagDelta 't str | TagEnd 't

record 't line_parser =
  lp_specs :: "'t tag_spec list"
  active_tag :: "'t option"
  detect_tag :: bool
  line_buffer :: str

definition line_parser_new :: "'t tag_spec list \<Rightarrow> 't line_parser" where
  "line_parser_new specs = \<lparr>lp_specs = specs, active_tag = None, detect_tag = True, line_buffer = []\<rparr>"

definition push_segment :: "'t tagged_line_segment list \<Rightarrow> 't tagged_line_segment \<Rightarrow> 't tagged_line_segment list" where
  "push_segment segments segment =
     (case segment of
        Normal delta \<Rightarrow>
          (if delta = [] then segments
           else (case last_opt segments of
                   Some (Normal existing) \<Rightarrow> butlast segments @ [Normal (existing @ delta)]
                 | _ \<Rightarrow> segments @ [Normal delta]))
      | TagDelta tag delta \<Rightarrow>
          (if delta = [] then segments
           else (case last_opt segments of
                   Some (TagDelta existing_tag existing) \<Rightarrow>
                     (if existing_tag = tag then butlast segments @ [TagDelta existing_tag (existing @ delta)]
                      else segments @ [TagDelta tag delta])
                 | _ \<Rightarrow> segments @ [TagDelta tag delta]))
      | TagStart tag \<Rightarrow> segments @ [TagStart tag]
      | TagEnd tag \<Rightarrow> segments @ [TagEnd tag])"

definition push_text :: "'t line_parser \<Rightarrow> str \<Rightarrow> 't tagged_line_segment list \<Rightarrow> 't tagged_line_segment list" where
  "push_text p s segments =
     (case active_tag p of
        Some tag \<Rightarrow> push_segment segments (TagDelta tag s)
      | None \<Rightarrow> push_segment segments (Normal s))"

definition is_tag_prefix :: "'t line_parser \<Rightarrow> str \<Rightarrow> bool" where
  "is_tag_prefix p slug =
     list_ex (\<lambda>spec. starts_with (trim_end slug) (ts_open spec) \<or> starts_with (trim_end slug) (ts_close spec)) (lp_specs p)"

definition match_open :: "'t line_parser \<Rightarrow> str \<Rightarrow> 't option" where
  "match_open p slug = map_option ts_tag (find (\<lambda>spec. ts_open spec = slug) (lp_specs p))"

definition match_close :: "'t line_parser \<Rightarrow> str \<Rightarrow> 't option" where
  "match_close p slug = map_option ts_tag (find (\<lambda>spec. ts_close spec = slug) (lp_specs p))"

definition without_newline :: "str \<Rightarrow> str" where
  "without_newline line = (case strip_suffix [nl] line of Some l \<Rightarrow> l | None \<Rightarrow> line)"

definition finish_line ::
  "'t line_parser \<Rightarrow> 't tagged_line_segment list \<Rightarrow> 't line_parser \<times> 't tagged_line_segment list" where
  "finish_line p segments =
     (let line = line_buffer p;
          p0 = p\<lparr>line_buffer := [], detect_tag := True\<rparr>;
          slug = trim_end (trim_start (without_newline line));
          plain = (p0, push_text p0 line segments);
          close = (case match_close p slug of
                     Some tag \<Rightarrow>
                       if active_tag p = Some tag
                       then (p0\<lparr>active_tag := None\<rparr>, push_segment segments (TagEnd tag)) else plain
                   | None \<Rightarrow> plain)
      in case match_open p slug of
           Some tag \<Rightarrow>
             if active_tag p = None
             then (p0\<lparr>active_tag := Some tag\<rparr>, push_segment segments (TagStart tag)) else close
         | None \<Rightarrow> close)"

definition parse_char ::
  "uchar \<Rightarrow> 't line_parser \<times> 't tagged_line_segment list \<times> str \<Rightarrow> 't line_parser \<times> 't tagged_line_segment list \<times> str" where
  "parse_char ch st =
     (case st of (p, segments, run) \<Rightarrow>
        if detect_tag p then
          (let segments = (if run \<noteq> [] then push_text p run segments else segments);
               p = p\<lparr>line_buffer := line_buffer p @ [ch]\<rparr> in
           if ch = nl then (case finish_line p segments of (p, segments) \<Rightarrow> (p, segments, []))
           else (let slug = trim_start (line_buffer p) in
                 if slug = [] \<or> is_tag_prefix p slug then (p, segments, [])
                 else (p\<lparr>line_buffer := [], detect_tag := False\<rparr>, push_text p (line_buffer p) segments, [])))
        else if ch = nl then (p\<lparr>detect_tag := True\<rparr>, push_text p (run @ [ch]) segments, [])
        else (p, segments, run @ [ch]))"

definition parse_delta :: "'t line_parser \<Rightarrow> str \<Rightarrow> 't line_parser \<times> 't tagged_line_segment list" where
  "parse_delta p delta =
     (case fold parse_char delta (p, [], []) of
        (p, segments, run) \<Rightarrow> (p, if run \<noteq> [] then push_text p run segments else segments))"

definition line_parser_finish :: "'t line_parser \<Rightarrow> 't line_parser \<times> 't tagged_line_segment list" where
  "line_parser_finish p =
     (let buffered = line_buffer p;
          slug = trim_end (trim_start (without_newline buffered));
          p0 = p\<lparr>line_buffer := []\<rparr>;
          close = (case match_close p slug of
                     Some tag \<Rightarrow>
                       if active_tag p = Some tag
                       then (p0\<lparr>active_tag := None\<rparr>, push_segment [] (TagEnd tag)) else (p0, push_text p0 buffered [])
                   | None \<Rightarrow> (p0, push_text p0 buffered []));
          (p1, segments) =
            (if buffered \<noteq> [] then
               (case match_open p slug of
                  Some tag \<Rightarrow>
                    if active_tag p = None
                    then (p0\<lparr>active_tag := Some tag\<rparr>, push_segment [] (TagStart tag)) else close
                | None \<Rightarrow> close)
             else (p, []));
          segments = (case active_tag p1 of
                        Some tag \<Rightarrow> push_segment segments (TagEnd tag)
                      | None \<Rightarrow> segments)
      in (p1\<lparr>active_tag := None, detect_tag := True\<rparr>, segments))"

subsection \<open>Proposed plans\<close>

definition OPEN_TAG :: str where
  "OPEN_TAG = lit ''<proposed_plan>''"

definition CLOSE_TAG :: str where
  "CLOSE_TAG = lit ''</proposed_plan>''"

datatype plan_tag = ProposedPlan

datatype proposed_plan_segment =
  PlanNormal str | ProposedPlanStart | ProposedPlanDelta str | ProposedPlanEnd

definition plan_parser_new :: "plan_tag line_parser" where
  "plan_parser_new = line_parser_new [\<lparr>ts_open = OPEN_TAG, ts_close = CLOSE_TAG, ts_tag = ProposedPlan\<rparr>]"

fun map_segment :: "plan_tag tagged_line_segment \<Rightarrow> proposed_plan_segment" where
  "map_segment (Normal s) = PlanNormal s"
| "map_segment (TagStart ProposedPlan) = ProposedPlanStart"
| "map_segment (TagDelta ProposedPlan s) = ProposedPlanDelta s"
| "map_segment (TagEnd ProposedPlan) = ProposedPlanEnd"

fun normal_text :: "proposed_plan_segment \<Rightarrow> str" where
  "normal_text (PlanNormal s) = s"
| "normal_text _ = []"

definition map_segments :: "plan_tag tagged_line_segment list \<Rightarrow> proposed_plan_segment stream_chunk" where
  "map_segments segments =
     fold (\<lambda>segment out. let mapped = map_segment segment in
             \<lparr>visible_text = visible_text out @ normal_text mapped, extracted = extracted out @ [mapped]\<rparr>)
       segments chunk_default"

definition plan_push_str :: "plan_tag line_parser \<Rightarrow> str \<Rightarrow> plan_tag line_parser \<times> proposed_plan_segment stream_chunk" where
  "plan_push_str p chunk = (case parse_delta p chunk of (p, segments) \<Rightarrow> (p, map_segments segments))"

definition plan_finish :: "plan_tag line_parser \<Rightarrow> plan_tag line_parser \<times> proposed_plan_segment stream_chunk" where
  "plan_finish p = (case line_parser_finish p of (p, segments) \<Rightarrow> (p, map_segments segments))"

definition strip_proposed_plan_blocks :: "str \<Rightarrow> str" where
  "strip_proposed_plan_blocks s =
     (let (p, out) = plan_push_str plan_parser_new s in visible_text out @ visible_text (snd (plan_finish p)))"

fun plan_text_step :: "proposed_plan_segment \<Rightarrow> str \<times> bool \<Rightarrow> str \<times> bool" where
  "plan_text_step ProposedPlanStart (plan_text, saw) = ([], True)"
| "plan_text_step (ProposedPlanDelta delta) (plan_text, saw) = (plan_text @ delta, saw)"
| "plan_text_step ProposedPlanEnd st = st"
| "plan_text_step (PlanNormal s) st = st"

definition extract_proposed_plan_text :: "str \<Rightarrow> str option" where
  "extract_proposed_plan_text s =
     (let (p, out) = plan_push_str plan_parser_new s;
          (plan_text, saw_plan_block) = fold plan_text_step (extracted out @ extracted (snd (plan_finish p))) ([], False)
      in if saw_plan_block then Some plan_text else None)"

subsection \<open>Assistant text\<close>

record assistant_text_chunk =
  at_visible_text :: str
  citations :: "str list"
  plan_segments :: "proposed_plan_segment list"

definition assistant_chunk_is_empty :: "assistant_text_chunk \<Rightarrow> bool" where
  "assistant_chunk_is_empty c \<longleftrightarrow> at_visible_text c = [] \<and> citations c = [] \<and> plan_segments c = []"

record assistant_parser =
  plan_mode :: bool
  citation_parser :: "citation_tag inline_parser"
  plan_parser :: "plan_tag line_parser"

definition assistant_new :: "bool \<Rightarrow> assistant_parser" where
  "assistant_new mode = \<lparr>plan_mode = mode, citation_parser = citation_new, plan_parser = plan_parser_new\<rparr>"

definition parse_visible_text :: "assistant_parser \<Rightarrow> str \<Rightarrow> assistant_parser \<times> assistant_text_chunk" where
  "parse_visible_text p s =
     (if \<not> plan_mode p then (p, \<lparr>at_visible_text = s, citations = [], plan_segments = []\<rparr>)
      else (case plan_push_str (plan_parser p) s of
              (plan, chunk) \<Rightarrow>
                (p\<lparr>plan_parser := plan\<rparr>,
                 \<lparr>at_visible_text = visible_text chunk, citations = [], plan_segments = extracted chunk\<rparr>)))"

definition assistant_push_str :: "assistant_parser \<Rightarrow> str \<Rightarrow> assistant_parser \<times> assistant_text_chunk" where
  "assistant_push_str p chunk =
     (let (cit, citation_chunk) = citation_push_str (citation_parser p) chunk;
          (p, out) = parse_visible_text (p\<lparr>citation_parser := cit\<rparr>) (visible_text citation_chunk)
      in (p, out\<lparr>citations := extracted citation_chunk\<rparr>))"

definition assistant_finish :: "assistant_parser \<Rightarrow> assistant_parser \<times> assistant_text_chunk" where
  "assistant_finish p =
     (let (cit, citation_chunk) = citation_finish (citation_parser p);
          (p, out) = parse_visible_text (p\<lparr>citation_parser := cit\<rparr>) (visible_text citation_chunk);
          (p, out) =
            (if plan_mode p then
               (let (plan, tail) = plan_finish (plan_parser p) in
                (p\<lparr>plan_parser := plan\<rparr>,
                 if stream_chunk_is_empty tail then out
                 else out\<lparr>at_visible_text := at_visible_text out @ visible_text tail,
                          plan_segments := plan_segments out @ extracted tail\<rparr>))
             else (p, out))
      in (p, out\<lparr>citations := extracted citation_chunk\<rparr>))"

subsection \<open>Segments as events\<close>

datatype 't line_event = EvText "'t option" uchar | EvStart 't | EvEnd 't

fun segment_events :: "'t tagged_line_segment \<Rightarrow> 't line_event list" where
  "segment_events (Normal s) = map (EvText None) s"
| "segment_events (TagStart t) = [EvStart t]"
| "segment_events (TagDelta t s) = map (EvText (Some t)) s"
| "segment_events (TagEnd t) = [EvEnd t]"

definition events_of :: "'t tagged_line_segment list \<Rightarrow> 't line_event list" where
  "events_of segments = concat (map segment_events segments)"

lemma events_of_simps [simp]:
  "events_of [] = []"
  "events_of (xs @ ys) = events_of xs @ events_of ys"
  "events_of (x # xs) = segment_events x @ events_of xs"
  by (simp_all add: events_of_def)

lemma events_push_segment [simp]: "events_of (push_segment segments segment) = events_of segments @ segment_events segment"
proof (cases "last_opt segments")
  case None
  then show ?thesis by (cases segment) (auto simp: push_segment_def)
next
  case (Some l)
  then obtain ys where ys: "segments = ys @ [l]" by (auto simp: last_opt_Some)
  then show ?thesis by (cases segment; cases l) (auto simp: push_segment_def)
qed

lemma events_push_text [simp]: "events_of (push_text p s segments) = events_of segments @ map (EvText (active_tag p)) s"
  by (simp add: push_text_def split: option.splits)

text \<open>What a complete line does: it opens a block, closes the block that is open, or is text.\<close>

definition line_effect :: "'t tag_spec list \<Rightarrow> 't option \<Rightarrow> str \<Rightarrow> 't option \<times> 't line_event list" where
  "line_effect specs active line =
     (let opening = map_option ts_tag (find (\<lambda>spec. ts_open spec = trim line) specs);
          closing = map_option ts_tag (find (\<lambda>spec. ts_close spec = trim line) specs) in
      if opening \<noteq> None \<and> active = None then (opening, [EvStart (the opening)])
      else if closing \<noteq> None \<and> active = closing then (None, [EvEnd (the closing)])
      else (active, map (EvText active) line))"

lemma trim_without_newline: "trim (without_newline line) = trim line"
proof (cases "strip_suffix [nl] line")
  case (Some l)
  then have "line = l @ [nl]" by (simp add: strip_suffix_Some)
  moreover have "is_ws nl" by (simp add: is_ws_def nl_def)
  moreover have "trim_end (dropWhile is_ws l) = []" if "\<forall>x\<in>set l. is_ws x"
    using iffD2 [OF dropWhile_eq_Nil_conv that] by (simp only: trim_simps)
  ultimately show ?thesis
    using Some by (auto simp: without_newline_def trim_def trim_start_def dropWhile_append)
qed (simp add: without_newline_def)

definition fresh :: "'t tag_spec list \<Rightarrow> 't option \<Rightarrow> 't line_parser" where
  "fresh specs active = \<lparr>lp_specs = specs, active_tag = active, detect_tag = True, line_buffer = []\<rparr>"

lemma finish_line_effect:
  "fst (finish_line p segments) = fresh (lp_specs p) (fst (line_effect (lp_specs p) (active_tag p) (line_buffer p))) \<and>
   events_of (snd (finish_line p segments)) =
     events_of segments @ snd (line_effect (lp_specs p) (active_tag p) (line_buffer p))"
proof -
  have slug: "trim_end (trim_start (without_newline (line_buffer p))) = trim (line_buffer p)"
    using trim_without_newline [of "line_buffer p"] by (simp add: trim_def)
  show ?thesis
    unfolding finish_line_def slug Let_def line_effect_def match_open_def match_close_def
    by (cases p; cases "active_tag p") (auto simp: fresh_def split: option.splits)
qed

subsection \<open>One character at a time\<close>

definition line_step :: "'t line_parser \<Rightarrow> uchar \<Rightarrow> 't line_parser \<times> 't line_event list" where
  "line_step p ch =
     (case parse_char ch (p, [], []) of (p', segments, run) \<Rightarrow>
        (p', events_of segments @ map (EvText (active_tag p')) run))"

fun line_run :: "'t line_parser \<Rightarrow> str \<Rightarrow> 't line_parser \<times> 't line_event list" where
  "line_run p [] = (p, [])"
| "line_run p (ch # s) =
     (let (p1, e1) = line_step p ch; (p2, e2) = line_run p1 s in (p2, e1 @ e2))"

lemma line_run_append:
  "line_run p (a @ b) = (let (p1, e1) = line_run p a; (p2, e2) = line_run p1 b in (p2, e1 @ e2))"
  by (induction a arbitrary: p) (simp_all add: Let_def split_beta)

definition state_events :: "'t line_parser \<times> 't tagged_line_segment list \<times> str \<Rightarrow> 't line_event list" where
  "state_events st = (case st of (p, segments, run) \<Rightarrow> events_of segments @ map (EvText (active_tag p)) run)"

lemma parse_char_step:
  "fst (parse_char ch (p, segments, run)) = fst (line_step p ch) \<and>
   state_events (parse_char ch (p, segments, run)) = state_events (p, segments, run) @ snd (line_step p ch)"
  using finish_line_effect [of "p\<lparr>line_buffer := line_buffer p @ [ch]\<rparr>" "[]"]
    finish_line_effect [of "p\<lparr>line_buffer := line_buffer p @ [ch]\<rparr>" segments]
    finish_line_effect [of "p\<lparr>line_buffer := line_buffer p @ [ch]\<rparr>" "push_text p run segments"]
  by (auto simp: parse_char_def line_step_def state_events_def Let_def split_beta)

lemma fold_parse_char:
  "fst (fold parse_char s st) = fst (line_run (fst st) s) \<and>
   state_events (fold parse_char s st) = state_events st @ snd (line_run (fst st) s)"
proof (induction s arbitrary: st)
  case (Cons ch s)
  obtain p segments run where st: "st = (p, segments, run)" by (cases st)
  from Cons [of "parse_char ch st"] parse_char_step [of ch p segments run] show ?case
    by (simp add: st Let_def split_beta)
qed simp

lemma parse_delta_run:
  "fst (parse_delta p s) = fst (line_run p s) \<and> events_of (snd (parse_delta p s)) = snd (line_run p s)"
proof -
  obtain q segments run where f: "fold parse_char s (p, [], []) = (q, segments, run)"
    by (metis prod_cases3)
  with fold_parse_char [of s "(p, [], [])"] show ?thesis
    by (auto simp: parse_delta_def state_events_def)
qed

subsection \<open>One line at a time\<close>

lemma trim_prefix_of_tag:
  assumes "trim (x @ y) = t"
  shows "trim_start x = [] \<or> starts_with (trim_end (trim_start x)) t"
proof (cases "trim_start x = []")
  case False
  define z where "z = trim_start x"
  have "\<exists>c \<in> set x. \<not> is_ws c" using False by (auto simp: trim_start_def dropWhile_eq_Nil_conv)
  then have "trim_start (x @ y) = z @ y" by (auto simp: z_def trim_start_def)
  with assms have t: "t = trim_end (z @ y)" by (simp add: trim_def)
  obtain w where w: "z @ y = t @ w" "list_all is_ws w" using trim_end_prefix [of "z @ y"] t by auto
  obtain v where v: "z = trim_end z @ v" using trim_end_prefix by blast
  show ?thesis
  proof (cases "length z \<le> length t")
    case True
    with w(1) obtain u where "t = z @ u" by (auto simp: append_eq_append_conv2)
    with v have "t = trim_end z @ (v @ u)" by (metis append_assoc)
    then show ?thesis unfolding z_def [symmetric] starts_with_iff by blast
  next
    case False
    with w(1) obtain u where u: "z = t @ u" "w = u @ y" by (auto simp: append_eq_append_conv2)
    from u w(2) have "list_all is_ws u" by simp
    then have "trim_end z = trim_end t" unfolding u(1)
    proof (induction u rule: rev_induct)
      case (snoc c u)
      then show ?case using trim_end_snoc_ws [of c "t @ u"] by simp
    qed simp
    also have "\<dots> = t" using t by simp
    finally show ?thesis unfolding z_def [symmetric] starts_with_iff by simp
  qed
qed simp

definition not_a_tag :: "'t tag_spec list \<Rightarrow> str \<Rightarrow> bool" where
  "not_a_tag specs x \<longleftrightarrow> (\<forall>y. \<forall>spec \<in> set specs. ts_open spec \<noteq> trim (x @ y) \<and> ts_close spec \<noteq> trim (x @ y))"

lemma line_effect_not_a_tag:
  assumes "not_a_tag specs x"
  shows "line_effect specs active (x @ y) = (active, map (EvText active) (x @ y))"
proof -
  have "find (\<lambda>spec. ts_open spec = trim (x @ y)) specs = None" "find (\<lambda>spec. ts_close spec = trim (x @ y)) specs = None"
    using assms unfolding not_a_tag_def find_None_iff by blast+
  then show ?thesis by (simp add: line_effect_def)
qed

definition held :: "'t tag_spec list \<Rightarrow> 't option \<Rightarrow> str \<Rightarrow> 't line_parser" where
  "held specs active x = \<lparr>lp_specs = specs, active_tag = active, detect_tag = True, line_buffer = x\<rparr>"

definition passing :: "'t tag_spec list \<Rightarrow> 't option \<Rightarrow> 't line_parser" where
  "passing specs active = \<lparr>lp_specs = specs, active_tag = active, detect_tag = False, line_buffer = []\<rparr>"

lemma held_step:
  assumes "ch \<noteq> nl"
  shows "line_step (held specs active x) ch = (held specs active (x @ [ch]), []) \<or>
    line_step (held specs active x) ch = (passing specs active, map (EvText active) (x @ [ch])) \<and> not_a_tag specs (x @ [ch])"
proof (cases "trim_start (x @ [ch]) = [] \<or> is_tag_prefix (held specs active (x @ [ch])) (trim_start (x @ [ch]))")
  case True
  with assms show ?thesis
    by (auto simp: line_step_def parse_char_def held_def Let_def)
next
  case False
  then have "not_a_tag specs (x @ [ch])"
    using trim_prefix_of_tag [of "x @ [ch]"]
    by (fastforce simp: not_a_tag_def is_tag_prefix_def held_def list_ex_iff)
  with False assms show ?thesis
    by (auto simp: line_step_def parse_char_def held_def passing_def Let_def)
qed

lemma passing_step: "ch \<noteq> nl \<Longrightarrow> line_step (passing specs active) ch = (passing specs active, [EvText active ch])"
  by (simp add: line_step_def parse_char_def passing_def)

lemma not_a_tag_append: "not_a_tag specs x \<Longrightarrow> not_a_tag specs (x @ y)"
  by (simp add: not_a_tag_def)

lemma line_run_in_line:
  assumes "nl \<notin> set x"
  shows "line_run (fresh specs active) x = (held specs active x, []) \<or>
    line_run (fresh specs active) x = (passing specs active, map (EvText active) x) \<and> not_a_tag specs x"
  using assms
proof (induction x rule: rev_induct)
  case Nil
  then show ?case by (simp add: fresh_def held_def)
next
  case (snoc ch x)
  then have "ch \<noteq> nl" by auto
  from snoc held_step [OF this, of specs active x] passing_step [OF this, of specs active] show ?case
    by (auto simp: line_run_append not_a_tag_append)
qed

lemma line_run_line:
  assumes "nl \<notin> set x"
  shows "line_run (fresh specs active) (x @ [nl]) =
    (fresh specs (fst (line_effect specs active (x @ [nl]))), snd (line_effect specs active (x @ [nl])))"
  using line_run_in_line [OF assms, of specs active]
proof
  assume r: "line_run (fresh specs active) x = (held specs active x, [])"
  have "line_step (held specs active x) nl =
      (fresh specs (fst (line_effect specs active (x @ [nl]))), snd (line_effect specs active (x @ [nl])))"
    using finish_line_effect [of "held specs active (x @ [nl])" "[]"]
    by (auto simp: line_step_def parse_char_def held_def Let_def split_beta)
  with r show ?thesis by (simp add: line_run_append)
next
  assume r: "line_run (fresh specs active) x = (passing specs active, map (EvText active) x) \<and> not_a_tag specs x"
  then have "line_effect specs active (x @ [nl]) = (active, map (EvText active) (x @ [nl]))"
    by (intro line_effect_not_a_tag) simp
  with r show ?thesis
    by (simp add: line_run_append line_step_def parse_char_def passing_def fresh_def)
qed

subsection \<open>The reference on whole lines\<close>

fun lines_inclusive :: "str \<Rightarrow> str list" where
  "lines_inclusive [] = []"
| "lines_inclusive (c # s) =
     (if c = nl then [c] # lines_inclusive s
      else (case lines_inclusive s of [] \<Rightarrow> [[c]] | l # ls \<Rightarrow> (c # l) # ls))"

fun tag_lines :: "'t tag_spec list \<Rightarrow> 't option \<Rightarrow> str list \<Rightarrow> 't line_event list" where
  "tag_lines specs active [] = (case active of Some tag \<Rightarrow> [EvEnd tag] | None \<Rightarrow> [])"
| "tag_lines specs active (line # ls) =
     (let (active', evs) = line_effect specs active line in evs @ tag_lines specs active' ls)"

lemma lines_inclusive_line: "nl \<notin> set x \<Longrightarrow> lines_inclusive (x @ nl # s) = (x @ [nl]) # lines_inclusive s"
  by (induction x) auto

lemma lines_inclusive_no_nl: "nl \<notin> set x \<Longrightarrow> lines_inclusive x = (if x = [] then [] else [x])"
  by (induction x) auto

lemma held_finish:
  "events_of (snd (line_parser_finish (held specs active x))) = tag_lines specs active (lines_inclusive x)"
  if "nl \<notin> set x"
proof -
  have slug: "trim_end (trim_start (without_newline x)) = trim x"
    using trim_without_newline [of x] by (simp add: trim_def)
  show ?thesis
    unfolding line_parser_finish_def held_def lines_inclusive_no_nl [OF that]
    by (cases active)
      (auto simp: slug Let_def line_effect_def match_open_def match_close_def split: option.splits)
qed

lemma passing_finish:
  "events_of (snd (line_parser_finish (passing specs active))) = tag_lines specs active []"
  by (simp add: line_parser_finish_def passing_def Let_def split: option.splits)

lemma line_run_finish:
  "snd (line_run (fresh specs active) s) @ events_of (snd (line_parser_finish (fst (line_run (fresh specs active) s)))) =
     tag_lines specs active (lines_inclusive s)"
proof (induction "length s" arbitrary: s active rule: less_induct)
  case less
  show ?case
  proof (cases "nl \<in> set s")
    case True
    then obtain x t where s: "s = x @ nl # t" "nl \<notin> set x" by (meson split_list_first)
    have "s = (x @ [nl]) @ t" using s by simp
    moreover from less [of t "fst (line_effect specs active (x @ [nl]))"] s(1)
    have "snd (line_run (fresh specs (fst (line_effect specs active (x @ [nl])))) t) @
      events_of (snd (line_parser_finish (fst (line_run (fresh specs (fst (line_effect specs active (x @ [nl])))) t)))) =
      tag_lines specs (fst (line_effect specs active (x @ [nl]))) (lines_inclusive t)" by simp
    ultimately show ?thesis
      using lines_inclusive_line [OF s(2), of t] line_run_append [of "fresh specs active" "x @ [nl]" t]
      by (simp add: line_run_line [OF s(2)] Let_def split_beta)
  next
    case False
    from line_run_in_line [OF False, of specs active] show ?thesis
    proof
      assume "line_run (fresh specs active) s = (held specs active s, [])"
      then show ?thesis by (simp add: held_finish [OF False])
    next
      assume r: "line_run (fresh specs active) s = (passing specs active, map (EvText active) s) \<and> not_a_tag specs s"
      then have "line_effect specs active s = (active, map (EvText active) s)"
        using line_effect_not_a_tag [of specs s active "[]"] by simp
      with r show ?thesis by (simp add: passing_finish lines_inclusive_no_nl [OF False])
    qed
  qed
qed

subsection \<open>Plans\<close>

fun plan_segment_events :: "proposed_plan_segment \<Rightarrow> plan_tag line_event list" where
  "plan_segment_events (PlanNormal s) = map (EvText None) s"
| "plan_segment_events ProposedPlanStart = [EvStart ProposedPlan]"
| "plan_segment_events (ProposedPlanDelta s) = map (EvText (Some ProposedPlan)) s"
| "plan_segment_events ProposedPlanEnd = [EvEnd ProposedPlan]"

definition plan_events :: "proposed_plan_segment list \<Rightarrow> plan_tag line_event list" where
  "plan_events segments = concat (map plan_segment_events segments)"

fun event_visible :: "plan_tag line_event \<Rightarrow> str" where
  "event_visible (EvText None c) = [c]"
| "event_visible _ = []"

definition visible_events :: "plan_tag line_event list \<Rightarrow> str" where
  "visible_events evs = concat (map event_visible evs)"

lemma visible_events_append [simp]: "visible_events (a @ b) = visible_events a @ visible_events b"
  by (simp add: visible_events_def)

lemma plan_events_append [simp]: "plan_events (a @ b) = plan_events a @ plan_events b"
  by (simp add: plan_events_def)

lemma map_segments_eq:
  "map_segments segments = \<lparr>visible_text = concat (map (normal_text \<circ> map_segment) segments), extracted = map map_segment segments\<rparr>"
proof -
  have "fold (\<lambda>segment out. let mapped = map_segment segment in
      \<lparr>visible_text = visible_text out @ normal_text mapped, extracted = extracted out @ [mapped]\<rparr>) segments c =
    \<lparr>visible_text = visible_text c @ concat (map (normal_text \<circ> map_segment) segments),
     extracted = extracted c @ map map_segment segments\<rparr>" for c :: "proposed_plan_segment stream_chunk"
    by (induction segments arbitrary: c) (simp_all add: Let_def)
  from this [of chunk_default] show ?thesis by (simp add: map_segments_def chunk_default_def)
qed

lemma plan_segment_events_map [simp]: "plan_segment_events (map_segment x) = segment_events x"
  by (cases x rule: map_segment.cases) auto

lemma plan_events_map_segments: "plan_events (extracted (map_segments segments)) = events_of segments"
  by (simp add: map_segments_eq plan_events_def events_of_def comp_def)

lemma visible_segment: "normal_text (map_segment x) = visible_events (segment_events x)"
proof -
  have "concat (map event_visible (map (EvText None) s)) = s" "concat (map event_visible (map (EvText (Some t)) s)) = []" for s t
    by (induction s) simp_all
  then show ?thesis by (cases x rule: map_segment.cases) (simp_all add: visible_events_def)
qed

lemma visible_map_segments: "visible_text (map_segments segments) = visible_events (events_of segments)"
proof -
  have "concat (map (normal_text \<circ> map_segment) segments) = visible_events (events_of segments)"
    by (induction segments) (simp_all add: visible_segment visible_events_def events_of_def)
  then show ?thesis by (simp add: map_segments_eq)
qed

lemma plan_push_run:
  "fst (plan_push_str p s) = fst (line_run p s)"
  "visible_text (snd (plan_push_str p s)) = visible_events (snd (line_run p s))"
  "plan_events (extracted (snd (plan_push_str p s))) = snd (line_run p s)"
  using parse_delta_run [of p s]
  by (simp_all add: plan_push_str_def split_beta visible_map_segments plan_events_map_segments)

interpretation plan: stream_text_parser plan_push_str visible_text "\<lambda>c. plan_events (extracted c)" "\<lambda>_. True"
  by unfold_locales (simp_all add: plan_push_run line_run_append Let_def split_beta)

definition plan_specs :: "plan_tag tag_spec list" where
  "plan_specs = [\<lparr>ts_open = OPEN_TAG, ts_close = CLOSE_TAG, ts_tag = ProposedPlan\<rparr>]"

definition plan_reference :: "str \<Rightarrow> plan_tag line_event list" where
  "plan_reference s = tag_lines plan_specs None (lines_inclusive s)"

lemma plan_parser_new_fresh: "plan_parser_new = fresh plan_specs None"
  by (simp add: plan_parser_new_def line_parser_new_def fresh_def plan_specs_def)

lemma plan_finish_events:
  "plan_events (extracted (snd (plan_finish p))) = events_of (snd (line_parser_finish p))"
  "visible_text (snd (plan_finish p)) = visible_events (events_of (snd (line_parser_finish p)))"
  by (simp_all add: plan_finish_def split_beta plan_events_map_segments visible_map_segments)

lemma plan_push_finish:
  "plan_events (extracted (snd (plan_push_str plan_parser_new s))) @
     plan_events (extracted (snd (plan_finish (fst (plan_push_str plan_parser_new s))))) = plan_reference s"
  "visible_text (snd (plan_push_str plan_parser_new s)) @
     visible_text (snd (plan_finish (fst (plan_push_str plan_parser_new s)))) = visible_events (plan_reference s)"
  using line_run_finish [of plan_specs None s, folded plan_reference_def, symmetric]
  by (simp_all add: plan_push_run plan_finish_events plan_parser_new_fresh)

fun plan_event_step :: "plan_tag line_event \<Rightarrow> str \<times> bool \<Rightarrow> str \<times> bool" where
  "plan_event_step (EvStart t) (plan_text, saw) = ([], True)"
| "plan_event_step (EvText (Some t) c) (plan_text, saw) = (plan_text @ [c], saw)"
| "plan_event_step _ st = st"

lemma fold_plan_events: "fold plan_text_step segments st = fold plan_event_step (plan_events segments) st"
proof -
  have t: "fold plan_event_step (map (EvText (Some t)) s) st = (fst st @ s, snd st)"
    "fold plan_event_step (map (EvText None) s) st = st" for s t and st :: "str \<times> bool"
    by (induction s arbitrary: st; case_tac st; simp)+
  have "fold plan_event_step (plan_segment_events x) st = plan_text_step x st" for x and st :: "str \<times> bool"
    by (cases st; cases x) (simp_all add: t)
  then show ?thesis
    by (induction segments arbitrary: st) (simp_all add: plan_events_def)
qed

subsection \<open>Assistant text\<close>

definition assistant_wf :: "assistant_parser \<Rightarrow> bool" where
  "assistant_wf p \<longleftrightarrow> tag_parser_wf citation_spec (citation_parser p)"

lemma assistant_push_parts:
  "citation_parser (fst (assistant_push_str p s)) = fst (citation_push_str (citation_parser p) s)"
  "citations (snd (assistant_push_str p s)) = extracted (snd (citation_push_str (citation_parser p) s))"
  "plan_mode (fst (assistant_push_str p s)) = plan_mode p"
  "plan_parser (fst (assistant_push_str p s)) =
     (if plan_mode p then fst (plan_push_str (plan_parser p) (visible_text (snd (citation_push_str (citation_parser p) s))))
      else plan_parser p)"
  "at_visible_text (snd (assistant_push_str p s)) =
     (let v = visible_text (snd (citation_push_str (citation_parser p) s)) in
      if plan_mode p then visible_text (snd (plan_push_str (plan_parser p) v)) else v)"
  "plan_segments (snd (assistant_push_str p s)) =
     (if plan_mode p then extracted (snd (plan_push_str (plan_parser p) (visible_text (snd (citation_push_str (citation_parser p) s)))))
      else [])"
  by (simp_all add: assistant_push_str_def parse_visible_text_def Let_def split_beta)

lemma assistant_parser_eqI:
  "plan_mode p = plan_mode q \<Longrightarrow> citation_parser p = citation_parser q \<Longrightarrow> plan_parser p = plan_parser q \<Longrightarrow> p = (q :: assistant_parser)"
  by (cases p; cases q) simp

lemmas citation_laws = citation.state_append citation.shown_append citation.found_append citation.wf_push
  citation.state_Nil citation.shown_Nil
lemmas plan_laws = plan.state_append [OF TrueI] plan.shown_append [OF TrueI] plan.found_append [OF TrueI]
  plan.state_Nil [OF TrueI]

lemma assistant_laws:
  assumes "assistant_wf p"
  shows "assistant_wf (fst (assistant_push_str p s))"
    "fst (assistant_push_str p (a @ b)) = fst (assistant_push_str (fst (assistant_push_str p a)) b)"
    "at_visible_text (snd (assistant_push_str p (a @ b))) = at_visible_text (snd (assistant_push_str p a)) @
       at_visible_text (snd (assistant_push_str (fst (assistant_push_str p a)) b))"
    "citations (snd (assistant_push_str p (a @ b))) = citations (snd (assistant_push_str p a)) @
       citations (snd (assistant_push_str (fst (assistant_push_str p a)) b))"
    "plan_events (plan_segments (snd (assistant_push_str p (a @ b)))) = plan_events (plan_segments (snd (assistant_push_str p a))) @
       plan_events (plan_segments (snd (assistant_push_str (fst (assistant_push_str p a)) b)))"
    "fst (assistant_push_str p []) = p"
  using assms unfolding assistant_wf_def
  by (auto intro!: assistant_parser_eqI simp: assistant_push_parts citation_laws plan_laws Let_def plan_events_def [of "[]"])

interpretation assistant_citations: stream_text_parser assistant_push_str at_visible_text citations assistant_wf
  by unfold_locales (fact assistant_laws)+

interpretation assistant_plan: stream_text_parser assistant_push_str at_visible_text "\<lambda>c. plan_events (plan_segments c)" assistant_wf
  by unfold_locales (fact assistant_laws)+

lemma assistant_finish_parts:
  "citations (snd (assistant_finish p)) = extracted (snd (citation_finish (citation_parser p)))"
  "plan_mode p \<Longrightarrow> at_visible_text (snd (assistant_finish p)) =
     (let (plan, c) = plan_push_str (plan_parser p) (visible_text (snd (citation_finish (citation_parser p))))
      in visible_text c @ visible_text (snd (plan_finish plan)))"
  "plan_mode p \<Longrightarrow> plan_segments (snd (assistant_finish p)) =
     (let (plan, c) = plan_push_str (plan_parser p) (visible_text (snd (citation_finish (citation_parser p))))
      in extracted c @ extracted (snd (plan_finish plan)))"
  "\<not> plan_mode p \<Longrightarrow> at_visible_text (snd (assistant_finish p)) = visible_text (snd (citation_finish (citation_parser p)))"
  "\<not> plan_mode p \<Longrightarrow> plan_segments (snd (assistant_finish p)) = []"
  by (auto simp: assistant_finish_def parse_visible_text_def stream_chunk_is_empty_def Let_def split_beta)

definition assistant_stream :: "bool \<Rightarrow> str list \<Rightarrow> str \<times> str list \<times> plan_tag line_event list" where
  "assistant_stream mode pieces =
     (let (p, outs) = push_all assistant_push_str (assistant_new mode) pieces;
          all = outs @ [snd (assistant_finish p)]
      in (concat (map at_visible_text all), concat (map citations all), plan_events (concat (map plan_segments all))))"

lemma assistant_new_wf: "assistant_wf (assistant_new mode)"
  by (simp add: assistant_wf_def assistant_new_def)

lemma plan_events_concat: "plan_events (concat xs) = concat (map plan_events xs)"
  by (induction xs) (simp_all add: plan_events_def)

lemma assistant_stream_push:
  "assistant_stream mode pieces =
     (let (p, out) = assistant_push_str (assistant_new mode) (concat pieces); tail = snd (assistant_finish p)
      in (at_visible_text out @ at_visible_text tail, citations out @ citations tail,
          plan_events (plan_segments out) @ plan_events (plan_segments tail)))"
  using assistant_citations.push_all_concat [OF assistant_new_wf, of mode pieces]
    assistant_plan.push_all_concat(3) [OF assistant_new_wf, of mode pieces]
  by (simp add: assistant_stream_def Let_def split_beta plan_events_concat comp_def)

lemma hide_citations_parts:
  "fst (hide_citations s) = visible_text (snd (citation_push_str citation_new s)) @
     visible_text (snd (citation_finish (fst (citation_push_str citation_new s))))"
  "snd (hide_citations s) = extracted (snd (citation_push_str citation_new s)) @
     extracted (snd (citation_finish (fst (citation_push_str citation_new s))))"
  unfolding citation_push_finish [symmetric] by (simp_all add: Let_def split_beta)

text \<open>C27. Whatever the pieces in which a text with proposed-plan blocks arrives, and although every
  line is released character by character as soon as it cannot be a tag any more, the plan parser
  produces what looking at whole lines gives: a line that is only the opening tag opens a block, a
  line that is only the closing tag closes it, everything else is text of the block or visible text,
  and a block that is still open at the end is closed there.\<close>

theorem plan_stream_by_lines:
  "(let (p, outs) = push_all plan_push_str plan_parser_new pieces;
        all = outs @ [snd (plan_finish p)]
    in plan_events (concat (map extracted all)) = plan_reference (concat pieces) \<and>
       concat (map visible_text all) = visible_events (plan_reference (concat pieces)))"
  using plan.push_all_concat [OF TrueI, of plan_parser_new pieces] plan_push_finish [of "concat pieces"]
  by (simp add: Let_def split_beta plan_events_concat comp_def)

text \<open>On a complete text, \<open>strip_proposed_plan_blocks\<close> keeps exactly the visible lines, and
  \<open>extract_proposed_plan_text\<close> returns the text of the last block, or nothing without one.\<close>

theorem extract_plan_by_lines:
  "strip_proposed_plan_blocks s = visible_events (plan_reference s) \<and>
   extract_proposed_plan_text s =
     (case fold plan_event_step (plan_reference s) ([], False) of (plan, saw) \<Rightarrow> if saw then Some plan else None)"
  using plan_push_finish [of s]
  by (simp add: strip_proposed_plan_blocks_def extract_proposed_plan_text_def Let_def split_beta
      fold_plan_events del: fold_append)

text \<open>C25. The two parsers chained over assistant text, whatever the pieces: the citations are those of
  the complete text, and in plan mode the visible text and the plan are those of the text left when
  the citations are taken out, even when a citation stands inside a plan tag.\<close>

theorem assistant_stream_composes:
  "assistant_stream mode pieces =
     (let (v, cs) = hide_citations (concat pieces) in
      if mode then (visible_events (plan_reference v), cs, plan_reference v) else (v, cs, []))"
proof -
  let ?s = "concat pieces"
  let ?c = "citation_push_str citation_new ?s"
  let ?v1 = "visible_text (snd ?c)" and ?v2 = "visible_text (snd (citation_finish (fst ?c)))"
  have v: "fst (hide_citations ?s) = ?v1 @ ?v2" by (rule hide_citations_parts(1))
  have n: "plan_mode (assistant_new m) = m" "citation_parser (assistant_new m) = citation_new"
    "plan_parser (assistant_new m) = plan_parser_new" for m by (simp_all add: assistant_new_def)
  note parts = assistant_push_parts assistant_finish_parts n
  show ?thesis
  proof (cases mode)
    case True
    then show ?thesis
      using plan_push_finish [of "?v1 @ ?v2"]
      unfolding assistant_stream_push
      by (simp add: Let_def split_beta parts v hide_citations_parts(2) plan_laws)
  next
    case False
    then show ?thesis
      unfolding assistant_stream_push
      by (simp add: Let_def split_beta parts v hide_citations_parts(2) plan_events_def)
  qed
qed

end
