(* ===== verification/Utf8Stream.thy ===== *)
theory Utf8Stream
  imports Utf8 PlanText
begin

text \<open>
  The wrapper that feeds a text parser with raw bytes, \<open>utils/stream-parser/src/utf8_stream.rs\<close>.
  It holds back the bytes of a code point that is not complete yet.  The wrapped parser is any parser
  that keeps the interface \<open>stream_text_parser\<close>; the properties are for the citation parser.
\<close>

datatype utf8_stream_error = InvalidUtf8 nat nat | IncompleteUtf8AtEof

record 'p utf8_stream_parser =
  us_inner :: 'p
  pending_utf8 :: "byte list"

definition utf8_stream_new :: "'p \<Rightarrow> 'p utf8_stream_parser" where
  "utf8_stream_new p = \<lparr>us_inner = p, pending_utf8 = []\<rparr>"

definition push_bytes ::
  "('p \<Rightarrow> str \<Rightarrow> 'p \<times> 'x stream_chunk) \<Rightarrow> 'p utf8_stream_parser \<Rightarrow> byte list
    \<Rightarrow> 'p utf8_stream_parser \<times> (utf8_stream_error + 'x stream_chunk)" where
  "push_bytes push st chunk =
     (let old_len = length (pending_utf8 st);
          pending = pending_utf8 st @ chunk in
      case from_utf8 pending of
        Inr s \<Rightarrow> (case push (us_inner st) s of (p, out) \<Rightarrow> (\<lparr>us_inner = p, pending_utf8 = []\<rparr>, Inr out))
      | Inl err \<Rightarrow>
          (case error_len err of
             Some n \<Rightarrow> (st\<lparr>pending_utf8 := take old_len pending\<rparr>, Inl (InvalidUtf8 (valid_up_to err) n))
           | None \<Rightarrow>
               if valid_up_to err = 0 then (st\<lparr>pending_utf8 := pending\<rparr>, Inr chunk_default)
               else (case from_utf8 (take (valid_up_to err) pending) of
                       Inr s \<Rightarrow>
                         (case push (us_inner st) s of
                            (p, out) \<Rightarrow> (\<lparr>us_inner = p, pending_utf8 = drop (valid_up_to err) pending\<rparr>, Inr out))
                     | Inl prefix_err \<Rightarrow>
                         (st\<lparr>pending_utf8 := take old_len pending\<rparr>,
                          Inl (InvalidUtf8 (valid_up_to prefix_err)
                                 (case error_len prefix_err of Some n \<Rightarrow> n | None \<Rightarrow> 0))))))"

definition eof_error :: "utf8_error \<Rightarrow> utf8_stream_error" where
  "eof_error err = (case error_len err of Some n \<Rightarrow> InvalidUtf8 (valid_up_to err) n | None \<Rightarrow> IncompleteUtf8AtEof)"

text \<open>The second match on \<open>from_utf8\<close> in \<open>finish\<close> repeats the first one on the same bytes, so its
  error branch is dead; one match stands for both.\<close>

definition utf8_stream_finish ::
  "('p \<Rightarrow> str \<Rightarrow> 'p \<times> 'x stream_chunk) \<Rightarrow> ('p \<Rightarrow> 'p \<times> 'x stream_chunk) \<Rightarrow> 'p utf8_stream_parser
    \<Rightarrow> 'p utf8_stream_parser \<times> (utf8_stream_error + 'x stream_chunk)" where
  "utf8_stream_finish push fin st =
     (let flush = (\<lambda>p out. case fin p of (p', tail) \<Rightarrow>
                     (\<lparr>us_inner = p', pending_utf8 = []\<rparr>,
                      Inr (out\<lparr>visible_text := visible_text out @ visible_text tail,
                               extracted := extracted out @ extracted tail\<rparr>))) in
      if pending_utf8 st = [] then flush (us_inner st) chunk_default
      else (case from_utf8 (pending_utf8 st) of
              Inl err \<Rightarrow> (st, Inl (eof_error err))
            | Inr s \<Rightarrow> (case push (us_inner st) s of (p, out) \<Rightarrow> flush p out)))"

definition into_inner :: "'p utf8_stream_parser \<Rightarrow> utf8_stream_error + 'p" where
  "into_inner st =
     (if pending_utf8 st = [] then Inr (us_inner st)
      else (case from_utf8 (pending_utf8 st) of Inr _ \<Rightarrow> Inr (us_inner st) | Inl err \<Rightarrow> Inl (eof_error err)))"

definition into_inner_lossy :: "'p utf8_stream_parser \<Rightarrow> 'p" where
  "into_inner_lossy st = us_inner st"

subsection \<open>Prefixes of valid UTF-8\<close>

lemma third_byte_prefix:
  assumes "third_byte (x @ y) k n = Decoded c rest"
    and "\<And>b t. k b (t @ y) = Decoded c rest \<Longrightarrow> (\<exists>r. k b t = Decoded c r \<and> rest = r @ y) \<or> k b t = Undecodable None"
  shows "(\<exists>r. third_byte x k n = Decoded c r \<and> rest = r @ y) \<or> third_byte x k n = Undecodable None"
  using assms by (cases x) (auto split: if_splits)

lemma decode_next_prefix:
  assumes d: "decode_next (x @ y) = Decoded c rest"
  shows "(\<exists>r. decode_next x = Decoded c r \<and> rest = r @ y) \<or> decode_next x = Undecodable None"
proof (cases x)
  case (Cons b0 t)
  note d = d [unfolded Cons append_Cons decode_next.simps(2)]
  consider "b0 < 0x80" | "0xC2 \<le> b0" "b0 \<le> 0xDF" | "0xE0 \<le> b0" "b0 \<le> 0xEF" | "0xF0 \<le> b0" "b0 \<le> 0xF4"
    using d by (auto split: if_splits)
  then show ?thesis
  proof cases
    case 1
    with d show ?thesis by (auto simp: Cons decode_next.simps(2))
  next
    case 2
    with d have "third_byte (t @ y) (\<lambda>b1 t. Decoded ((b0 - 0xC0) * 64 + (b1 - 0x80)) t) 1 = Decoded c rest" by simp
    from third_byte_prefix [OF this] 2 show ?thesis by (auto simp: Cons decode_next.simps(2))
  next
    case 3
    show ?thesis
    proof (cases t)
      case (Cons b1 t1)
      with 3 d have s: "second_of_3 b0 b1"
        and "third_byte (t1 @ y) (\<lambda>b2 t. Decoded ((b0 - 0xE0) * 4096 + (b1 - 0x80) * 64 + (b2 - 0x80)) t) 2 = Decoded c rest"
        by (auto split: if_splits)
      from third_byte_prefix [OF this(2)] s 3 Cons show ?thesis
        by (auto simp: \<open>x = b0 # t\<close> decode_next.simps(2))
    qed (use 3 Cons in \<open>simp add: decode_next.simps(2)\<close>)
  next
    case 4
    show ?thesis
    proof (cases t)
      case (Cons b1 t1)
      with 4 d have s: "second_of_4 b0 b1"
        and "third_byte (t1 @ y) (\<lambda>b2 t2. third_byte t2 (\<lambda>b3 t.
            Decoded ((b0 - 0xF0) * 262144 + (b1 - 0x80) * 4096 + (b2 - 0x80) * 64 + (b3 - 0x80)) t) 3) 2 = Decoded c rest"
        by (auto split: if_splits)
      from third_byte_prefix [OF this(2) third_byte_prefix] s 4 Cons show ?thesis
        by (auto simp: \<open>x = b0 # t\<close> decode_next.simps(2))
    qed (use 4 Cons in \<open>simp add: decode_next.simps(2)\<close>)
  qed
qed simp

text \<open>A prefix of the bytes of a text is the bytes of a prefix of the text and then the start of one
  code point.\<close>

definition incomplete :: "byte list \<Rightarrow> bool" where
  "incomplete r \<longleftrightarrow> r = [] \<or> decode_next r = Undecodable None"

lemma into_bytes_simps [simp]:
  "into_bytes [] = []"
  "into_bytes (c # s) = encode_char c @ into_bytes s"
  "into_bytes (s @ t) = into_bytes s @ into_bytes t"
  by (simp_all add: into_bytes_def)

lemma prefix_into_bytes:
  assumes "list_all is_scalar s" "into_bytes s = x @ y"
  obtains s1 s2 r where "s = s1 @ s2" "x = into_bytes s1 @ r" "incomplete r" "y = [] \<Longrightarrow> r = []"
  using assms
proof (induction s arbitrary: x thesis)
  case Nil
  then show ?case using Nil.prems(1) [of "[]" "[]" "[]"] by (simp add: incomplete_def)
next
  case (Cons c s)
  show ?case
  proof (cases "length (encode_char c) \<le> length x")
    case True
    with Cons.prems(3) obtain x' where x': "x = encode_char c @ x'" "into_bytes s = x' @ y"
      by (auto simp: append_eq_append_conv2)
    with Cons.IH [of x'] Cons.prems(2) obtain s1 s2 r
      where "s = s1 @ s2" "x' = into_bytes s1 @ r" "incomplete r" "y = [] \<Longrightarrow> r = []" by auto
    with x' Cons.prems(1) [of "c # s1" s2 r] show ?thesis by simp
  next
    case False
    have d: "decode_next (x @ y) = Decoded c (into_bytes s)"
      using Cons.prems(2,3) decode_encode [of c "into_bytes s"] by simp
    have "\<nexists>r. decode_next x = Decoded c r"
      using False decode_next_sound [of x c] by fastforce
    with decode_next_prefix [OF d] have "incomplete x" by (auto simp: incomplete_def)
    moreover have "y \<noteq> []" using False Cons.prems(3) by (metis append_Nil2 into_bytes_simps(2) le_add1 length_append)
    ultimately show ?thesis using Cons.prems(1) [of "[]" "c # s" x] by simp
  qed
qed

lemma from_utf8_incomplete:
  assumes "list_all is_scalar s" "incomplete r"
  shows "from_utf8 (into_bytes s @ r) =
    (if r = [] then Inr s else Inl \<lparr>valid_up_to = length (into_bytes s), error_len = None\<rparr>)"
  using validate_into_bytes [OF assms(1), of 0 r] assms(2)
  by (auto simp: from_utf8_def incomplete_def validate.simps [of _ r])

lemma incomplete_into_bytes:
  assumes "list_all is_scalar s" "incomplete (into_bytes s)"
  shows "s = []"
proof (cases s)
  case (Cons c t)
  with assms decode_encode [of c "into_bytes t"] show ?thesis by (simp add: incomplete_def)
qed

lemma into_bytes_eq_Nil [simp]: "into_bytes s = [] \<longleftrightarrow> s = []"
  by (cases s) simp_all

subsection \<open>Any parser behind the wrapper\<close>

fun push_bytes_all ::
  "('p \<Rightarrow> str \<Rightarrow> 'p \<times> 'x stream_chunk) \<Rightarrow> 'p utf8_stream_parser \<Rightarrow> byte list list
    \<Rightarrow> 'p utf8_stream_parser \<times> (utf8_stream_error + 'x stream_chunk list)" where
  "push_bytes_all push st [] = (st, Inr [])"
| "push_bytes_all push st (c # cs) =
     (case push_bytes push st c of
        (st1, Inl e) \<Rightarrow> (st1, Inl e)
      | (st1, Inr out) \<Rightarrow>
          (case push_bytes_all push st1 cs of (st2, r) \<Rightarrow> (st2, map_sum id (Cons out) r)))"

locale utf8_inner = stream_text_parser push visible_text found wf
  for push :: "'p \<Rightarrow> str \<Rightarrow> 'p \<times> 'x stream_chunk" and found :: "'x stream_chunk \<Rightarrow> 'e list" and wf :: "'p \<Rightarrow> bool" +
  assumes found_default: "found chunk_default = []"
begin

lemma push_bytes_step:
  assumes wf: "wf p" and sc: "list_all is_scalar s" and inc: "incomplete q" and q: "q @ chunk @ rest = into_bytes s"
  obtains s1 s2 r out where "s = s1 @ s2" "into_bytes s2 = r @ rest" "incomplete r"
    "push_bytes push \<lparr>us_inner = p, pending_utf8 = q\<rparr> chunk = (\<lparr>us_inner = fst (push p s1), pending_utf8 = r\<rparr>, Inr out)"
    "visible_text out = visible_text (snd (push p s1))" "found out = found (snd (push p s1))"
proof -
  obtain s1 s2 r where s: "s = s1 @ s2" and x: "q @ chunk = into_bytes s1 @ r" and r: "incomplete r"
    using prefix_into_bytes [OF sc, of "q @ chunk" rest] q by (metis append_assoc)
  from q x s have s2: "into_bytes s2 = r @ rest" by (metis append_assoc into_bytes_simps(3) same_append_eq)
  have sc1: "list_all is_scalar s1" using sc s by simp
  note f = from_utf8_incomplete [OF sc1 r] from_utf8_into_bytes [OF sc1]
  have "\<exists>out. push_bytes push \<lparr>us_inner = p, pending_utf8 = q\<rparr> chunk = (\<lparr>us_inner = fst (push p s1), pending_utf8 = r\<rparr>, Inr out) \<and>
    visible_text out = visible_text (snd (push p s1)) \<and> found out = found (snd (push p s1))"
  proof (cases "r = [] \<or> s1 \<noteq> []")
    case True
    then show ?thesis by (auto simp: push_bytes_def x f split_beta)
  next
    case False
    then show ?thesis
      using state_Nil [OF wf] shown_Nil [OF wf] found_Nil [OF wf] found_default f
      by (simp add: push_bytes_def x) (simp add: chunk_default_def)
  qed
  with s s2 r that show ?thesis by blast
qed

lemma push_bytes_all_text:
  assumes "wf p" "list_all is_scalar s" "incomplete q" "q @ concat pieces = into_bytes s"
  shows "\<exists>outs. push_bytes_all push \<lparr>us_inner = p, pending_utf8 = q\<rparr> pieces =
      (\<lparr>us_inner = fst (push p s), pending_utf8 = []\<rparr>, Inr outs) \<and>
    concat (map visible_text outs) = visible_text (snd (push p s)) \<and> concat (map found outs) = found (snd (push p s))"
  using assms
proof (induction pieces arbitrary: p q s)
  case Nil
  then have "s = []" using incomplete_into_bytes [of s] by simp
  with Nil show ?case by (simp add: state_Nil shown_Nil found_Nil)
next
  case (Cons c cs)
  from Cons.prems(4) have q: "q @ c @ concat cs = into_bytes s" by simp
  obtain s1 s2 r out where s: "s = s1 @ s2" and r: "into_bytes s2 = r @ concat cs" "incomplete r"
    and push: "push_bytes push \<lparr>us_inner = p, pending_utf8 = q\<rparr> c = (\<lparr>us_inner = fst (push p s1), pending_utf8 = r\<rparr>, Inr out)"
    and out: "visible_text out = visible_text (snd (push p s1))" "found out = found (snd (push p s1))"
    using push_bytes_step [OF Cons.prems(1-3) q] .
  have "list_all is_scalar s2" using Cons.prems(2) s by simp
  from Cons.IH [OF wf_push [OF Cons.prems(1)] this r(2) r(1) [symmetric], of s1]
  show ?case
    using out Cons.prems(1) by (auto simp: push s state_append shown_append found_append)
qed

end

interpretation utf8_citation: utf8_inner citation_push_str extracted "tag_parser_wf citation_spec"
  by unfold_locales (simp add: chunk_default_def)

interpretation utf8_plan: utf8_inner plan_push_str "\<lambda>c. plan_events (extracted c)" "\<lambda>_. True"
  by unfold_locales (simp add: chunk_default_def plan_events_def)

text \<open>C26. The bytes of a text may arrive cut anywhere, inside code points too: no push fails, the
  end-of-stream flush succeeds, and the citation parser behind the wrapper gives what it gives for the
  complete text.\<close>

theorem byte_stream_delivers_text:
  assumes "list_all is_scalar s" and "concat pieces = into_bytes s"
  shows "\<exists>st outs st' tail.
    push_bytes_all citation_push_str (utf8_stream_new citation_new) pieces = (st, Inr outs) \<and>
    utf8_stream_finish citation_push_str citation_finish st = (st', Inr tail) \<and>
    (concat (map visible_text outs) @ visible_text tail, concat (map extracted outs) @ extracted tail) = hide_citations s"
proof -
  let ?p = "fst (citation_push_str citation_new s)"
  have "incomplete []" by (simp add: incomplete_def)
  from utf8_citation.push_bytes_all_text [OF citation_new_wf assms(1) this, of pieces] assms(2)
  obtain outs where o: "push_bytes_all citation_push_str (utf8_stream_new citation_new) pieces =
      (\<lparr>us_inner = ?p, pending_utf8 = []\<rparr>, Inr outs)"
    "concat (map visible_text outs) = visible_text (snd (citation_push_str citation_new s))"
    "concat (map extracted outs) = extracted (snd (citation_push_str citation_new s))"
    by (auto simp: utf8_stream_new_def)
  have "utf8_stream_finish citation_push_str citation_finish \<lparr>us_inner = ?p, pending_utf8 = []\<rparr> =
      (\<lparr>us_inner = fst (citation_finish ?p), pending_utf8 = []\<rparr>, Inr (snd (citation_finish ?p)))"
    by (cases "snd (citation_finish ?p)") (simp add: utf8_stream_finish_def split_beta chunk_default_def)
  with o show ?thesis
    by (simp add: citation_push_finish [of s, symmetric] Let_def split_beta)
qed

theorem byte_stream_delivers_text_witness:
  "\<exists>st outs st' tail.
    push_bytes_all citation_push_str (utf8_stream_new citation_new) [[0xC3], [0xA9, 0x41, 0xE2], [0x82, 0xAC]] = (st, Inr outs) \<and>
    utf8_stream_finish citation_push_str citation_finish st = (st', Inr tail) \<and>
    (concat (map visible_text outs) @ visible_text tail, concat (map extracted outs) @ extracted tail) = hide_citations [0xE9, 0x41, 0x20AC]"
  by (rule byte_stream_delivers_text) (simp_all add: is_scalar_def encode_char_def)

text \<open>A push that reports invalid UTF-8 leaves the wrapper as it was before the push: the wrapped
  parser has seen nothing of the rejected bytes, whatever parser it is.\<close>

theorem rejected_bytes_rolled_back:
  assumes "push_bytes push st chunk = (st', Inl e)"
  shows "st' = st \<and> (\<exists>pos n. e = InvalidUtf8 pos n)"
  using assms
  by (cases st) (auto simp: push_bytes_def Let_def split_beta split: sum.splits option.splits if_splits)

theorem rejected_bytes_rolled_back_witness:
  "fst (push_bytes citation_push_str (utf8_stream_new citation_new) [0x41, 0xFF]) = utf8_stream_new citation_new \<and>
   (\<exists>pos n. InvalidUtf8 1 1 = InvalidUtf8 pos n)"
proof -
  have "decode_next [0x41, 0xFF] = Decoded 0x41 [0xFF]" "decode_next [0xFF] = Undecodable (Some 1)"
    by (simp_all add: decode_next.simps(2))
  then have "from_utf8 [0x41, 0xFF] = Inl \<lparr>valid_up_to = 1, error_len = Some 1\<rparr>"
    by (simp add: from_utf8_def validate.simps [of _ "[0x41, 0xFF]"] validate.simps [of _ "[0xFF]"])
  then have "push_bytes citation_push_str (utf8_stream_new citation_new) [0x41, 0xFF] =
      (utf8_stream_new citation_new, Inl (InvalidUtf8 1 1))"
    by (simp add: push_bytes_def utf8_stream_new_def)
  from this rejected_bytes_rolled_back [OF this] show ?thesis by simp
qed

end
