(* ===== verification/Usize.thy ===== *)
theory Usize
  imports Prelude
begin

text \<open>
  The unsigned machine integer \<open>usize\<close> of a 64-bit target as a natural number with its bound written
  out, and the saturating operations the sources use.  \<open>saturating_sub\<close> is the subtraction of the
  natural numbers; \<open>u64\<close> has the same bound.
\<close>

definition usize_max :: nat where
  "usize_max = 2 ^ 64 - 1"

definition saturating_add :: "nat \<Rightarrow> nat \<Rightarrow> nat" where
  "saturating_add a b = min (a + b) usize_max"

definition saturating_mul :: "nat \<Rightarrow> nat \<Rightarrow> nat" where
  "saturating_mul a b = min (a * b) usize_max"

lemma saturating_add_exact [simp]: "a + b \<le> usize_max \<Longrightarrow> saturating_add a b = a + b"
  by (simp add: saturating_add_def)

lemma saturating_add_capped: "saturating_add (min a usize_max) b = min (a + b) usize_max"
  by (auto simp: saturating_add_def min_def)

lemma saturating_add_le: "saturating_add a b \<le> usize_max"
  by (simp add: saturating_add_def)

lemma half_twice_le: "m \<le> usize_max \<Longrightarrow> a \<le> m - m div 2 \<Longrightarrow> b < m - m div 2 \<Longrightarrow> a + b \<le> usize_max"
proof -
  assume m: "m \<le> usize_max" and ab: "a \<le> m - m div 2" "b < m - m div 2"
  have odd: "\<not> 2 dvd usize_max" by (simp add: usize_max_def)
  show ?thesis
  proof (cases "2 dvd m")
    case True
    then have "m < usize_max" using m odd by (cases "m = usize_max") auto
    with True ab show ?thesis by auto
  next
    case False
    then have "m - m div 2 = m div 2 + 1" "2 * (m div 2) + 1 = m" by presburger+
    with ab m show ?thesis by linarith
  qed
qed

end
