(* ===== verification/HeadTail.thy ===== *)
theory HeadTail
  imports Usize
begin

text \<open>
  The capped buffer for the output of a running command,
  \<open>core/src/unified_exec/head_tail_buffer.rs\<close>.  The reference is one line: of everything that was
  written, the buffer holds the first half budget and the last half budget.
\<close>

type_synonym bytes = "int list"

record head_tail_buffer =
  max_bytes :: nat
  head_budget :: nat
  tail_budget :: nat
  ht_head :: "bytes list"
  ht_tail :: "bytes list"
  head_bytes :: nat
  tail_bytes :: nat
  omitted_bytes :: nat

definition UNIFIED_EXEC_OUTPUT_MAX_BYTES :: nat where
  "UNIFIED_EXEC_OUTPUT_MAX_BYTES = 1024 * 1024"

definition head_tail_new :: "nat \<Rightarrow> head_tail_buffer" where
  "head_tail_new n =
     \<lparr>max_bytes = n, head_budget = n div 2, tail_budget = n - n div 2, ht_head = [], ht_tail = [],
      head_bytes = 0, tail_bytes = 0, omitted_bytes = 0\<rparr>"

definition head_tail_default :: head_tail_buffer where
  "head_tail_default = head_tail_new UNIFIED_EXEC_OUTPUT_MAX_BYTES"

definition retained_bytes :: "head_tail_buffer \<Rightarrow> nat" where
  "retained_bytes b = saturating_add (head_bytes b) (tail_bytes b)"

text \<open>The loop of \<open>trim_tail_to_budget\<close> on the queue, the two counters and the excess.\<close>

fun trim_loop :: "nat \<Rightarrow> bytes list \<Rightarrow> nat \<Rightarrow> nat \<Rightarrow> bytes list \<times> nat \<times> nat" where
  "trim_loop excess [] kept omitted = ([], kept, omitted)"
| "trim_loop excess (front # rest) kept omitted =
     (if excess = 0 then (front # rest, kept, omitted)
      else if length front \<le> excess then
        trim_loop (excess - length front) rest (kept - length front) (saturating_add omitted (length front))
      else (drop excess front # rest, kept - excess, saturating_add omitted excess))"

definition trim_tail_to_budget :: "head_tail_buffer \<Rightarrow> head_tail_buffer" where
  "trim_tail_to_budget b =
     (case trim_loop (tail_bytes b - tail_budget b) (ht_tail b) (tail_bytes b) (omitted_bytes b) of
        (t, kept, omitted) \<Rightarrow> b\<lparr>ht_tail := t, tail_bytes := kept, omitted_bytes := omitted\<rparr>)"

definition push_to_tail :: "head_tail_buffer \<Rightarrow> bytes \<Rightarrow> head_tail_buffer" where
  "push_to_tail b chunk =
     (if tail_budget b = 0 then b\<lparr>omitted_bytes := saturating_add (omitted_bytes b) (length chunk)\<rparr>
      else if tail_budget b \<le> length chunk then
        (let kept = drop (length chunk - tail_budget b) chunk;
             dropped = length chunk - length kept
         in b\<lparr>omitted_bytes := saturating_add (saturating_add (omitted_bytes b) (tail_bytes b)) dropped,
              tail_bytes := length kept, ht_tail := [kept]\<rparr>)
      else trim_tail_to_budget
             (b\<lparr>tail_bytes := saturating_add (tail_bytes b) (length chunk), ht_tail := ht_tail b @ [chunk]\<rparr>))"

definition push_chunk :: "head_tail_buffer \<Rightarrow> bytes \<Rightarrow> head_tail_buffer" where
  "push_chunk b chunk =
     (if max_bytes b = 0 then b\<lparr>omitted_bytes := saturating_add (omitted_bytes b) (length chunk)\<rparr>
      else if head_bytes b < head_budget b then
        (let remaining_head = head_budget b - head_bytes b in
         if length chunk \<le> remaining_head then
           b\<lparr>head_bytes := saturating_add (head_bytes b) (length chunk), ht_head := ht_head b @ [chunk]\<rparr>
         else
           (let head_part = take remaining_head chunk;
                tail_part = drop remaining_head chunk;
                b = (if head_part \<noteq> [] then
                       b\<lparr>head_bytes := saturating_add (head_bytes b) (length head_part),
                         ht_head := ht_head b @ [head_part]\<rparr>
                     else b)
            in push_to_tail b tail_part))
      else push_to_tail b chunk)"

definition snapshot_chunks :: "head_tail_buffer \<Rightarrow> bytes list" where
  "snapshot_chunks b = ht_head b @ ht_tail b"

definition to_bytes :: "head_tail_buffer \<Rightarrow> bytes" where
  "to_bytes b = concat (ht_head b) @ concat (ht_tail b)"

definition drain_chunks :: "head_tail_buffer \<Rightarrow> head_tail_buffer \<times> bytes list" where
  "drain_chunks b =
     (b\<lparr>ht_head := [], ht_tail := [], head_bytes := 0, tail_bytes := 0, omitted_bytes := 0\<rparr>, ht_head b @ ht_tail b)"

subsection \<open>The buffer after any output\<close>

definition last_bytes :: "nat \<Rightarrow> bytes \<Rightarrow> bytes" where
  "last_bytes n xs = drop (length xs - n) xs"

lemma length_last_bytes [simp]: "length (last_bytes n xs) = min n (length xs)"
  by (simp add: last_bytes_def)

lemma last_bytes_append:
  "last_bytes n (xs @ ys) = (if n \<le> length ys then last_bytes n ys else last_bytes (n - length ys) xs @ ys)"
  by (auto simp: last_bytes_def)

lemma last_bytes_last_bytes: "last_bytes n (last_bytes n xs @ ys) = last_bytes n (xs @ ys)"
  by (cases "length xs \<le> n") (auto simp: last_bytes_def add.commute)

text \<open>The state after the output \<open>d\<close>, in any pieces.\<close>

definition holds :: "nat \<Rightarrow> bytes \<Rightarrow> head_tail_buffer \<Rightarrow> bool" where
  "holds n d b \<longleftrightarrow>
     max_bytes b = n \<and> head_budget b = n div 2 \<and> tail_budget b = n - n div 2 \<and>
     concat (ht_head b) = take (n div 2) d \<and> concat (ht_tail b) = last_bytes (n - n div 2) (drop (n div 2) d) \<and>
     head_bytes b = length (concat (ht_head b)) \<and> tail_bytes b = length (concat (ht_tail b)) \<and>
     omitted_bytes b = min (length d - length (concat (ht_head b)) - length (concat (ht_tail b))) usize_max"

lemma trim_loop_spec:
  assumes "kept = length (concat t)" "excess \<le> kept" "trim_loop excess t kept (min om usize_max) = (t', kept', om')"
  shows "concat t' = drop excess (concat t) \<and> kept' = length (concat t') \<and> om' = min (om + excess) usize_max"
  using assms
proof (induction excess t kept "min om usize_max" arbitrary: om rule: trim_loop.induct)
  case (1 excess kept om)
  then show ?case by auto
next
  case (2 excess front rest kept om)
  show ?case
  proof (cases "excess = 0")
    case True
    with 2 show ?thesis by auto
  next
    case nz: False
    show ?thesis
    proof (cases "length front \<le> excess")
      case True
      have "trim_loop (excess - length front) rest (kept - length front) (min (om + length front) usize_max) = (t', kept', om')"
        using 2(4) nz True by (simp add: saturating_add_capped)
      from 2(1) [OF nz True saturating_add_capped _ _ this] 2(2,3) nz True show ?thesis by auto
    next
      case False
      with 2(2-) nz show ?thesis by (auto simp: saturating_add_capped)
    qed
  qed
qed

lemma last_bytes_0 [simp]: "last_bytes 0 xs = []"
  by (simp add: last_bytes_def)

lemma push_to_tail_spec:
  assumes t: "concat (ht_tail b) = last_bytes (tail_budget b) r" "tail_bytes b = length (concat (ht_tail b))"
    and om: "omitted_bytes b = min om usize_max"
    and fits: "length c < tail_budget b \<Longrightarrow> tail_bytes b + length c \<le> usize_max"
  shows "\<exists>t' om'. push_to_tail b c = b\<lparr>ht_tail := t', tail_bytes := length (concat t'), omitted_bytes := min om' usize_max\<rparr> \<and>
    concat t' = last_bytes (tail_budget b) (r @ c) \<and> om' + length (concat t') = om + tail_bytes b + length c"
proof -
  consider "tail_budget b = 0" | "0 < tail_budget b" "tail_budget b \<le> length c" | "length c < tail_budget b" by linarith
  then show ?thesis
  proof cases
    case 1
    with t om show ?thesis
      by (intro exI [of _ "ht_tail b"] exI [of _ "om + length c"])
        (cases b, auto simp: push_to_tail_def saturating_add_capped)
  next
    case 2
    let ?k = "drop (length c - tail_budget b) c"
    have "last_bytes (tail_budget b) (r @ c) = ?k" using 2 by (simp add: last_bytes_append last_bytes_def)
    with 2 om show ?thesis
      by (intro exI [of _ "[?k]"] exI [of _ "om + tail_bytes b + (length c - tail_budget b)"])
        (auto simp: push_to_tail_def Let_def saturating_add_capped)
  next
    case 3
    let ?n = "tail_bytes b + length c"
    obtain t' k' om' where l: "trim_loop (?n - tail_budget b) (ht_tail b @ [c]) ?n (min om usize_max) = (t', k', om')"
      by (metis prod_cases3)
    have l': "concat t' = drop (?n - tail_budget b) (concat (ht_tail b) @ c)" "k' = length (concat t')"
      "om' = min (om + (?n - tail_budget b)) usize_max"
      using trim_loop_spec [OF _ _ l] t(2) by auto
    have "concat t' = last_bytes (tail_budget b) (last_bytes (tail_budget b) r @ c)"
      using l'(1) t by (simp add: last_bytes_def [of _ "_ @ c"])
    then have c: "concat t' = last_bytes (tail_budget b) (r @ c)" by (simp only: last_bytes_last_bytes)
    have "om + (?n - tail_budget b) + length (concat t') = om + tail_bytes b + length c"
      using l'(1) t(2) by simp
    with c 3 l l' fits [OF 3] om show ?thesis
      by (intro exI [of _ t'] exI [of _ "om + (?n - tail_budget b)"])
        (auto simp: push_to_tail_def trim_tail_to_budget_def)
  qed
qed

lemma holds_new: "holds n [] (head_tail_new n)"
  by (simp add: holds_def head_tail_new_def last_bytes_def)

lemma holds_push:
  assumes h: "holds n d b" and n: "n \<le> usize_max"
  shows "holds n (d @ c) (push_chunk b c)"
proof -
  from h have bud: "max_bytes b = n" "head_budget b = n div 2" "tail_budget b = n - n div 2"
    and hd: "concat (ht_head b) = take (n div 2) d" and tl: "concat (ht_tail b) = last_bytes (n - n div 2) (drop (n div 2) d)"
    and hb: "head_bytes b = min (n div 2) (length d)" and tb: "tail_bytes b = length (concat (ht_tail b))"
    by (simp_all add: holds_def min.commute)
  define om where "om = length d - head_bytes b - tail_bytes b"
  have om: "omitted_bytes b = min om usize_max" using h by (simp add: om_def holds_def)
  have tbl: "tail_bytes b \<le> n - n div 2" by (simp add: tb tl)
  have sum: "om + tail_bytes b + head_bytes b = length d" by (simp add: om_def tb tl hb)
  have tail: "\<exists>t' om'. push_to_tail b' x = b'\<lparr>ht_tail := t', tail_bytes := length (concat t'), omitted_bytes := min om' usize_max\<rparr> \<and>
      concat t' = last_bytes (n - n div 2) (drop (n div 2) d @ x) \<and> om' + length (concat t') = om + tail_bytes b + length x"
    if "ht_tail b' = ht_tail b" "tail_bytes b' = tail_bytes b" "omitted_bytes b' = omitted_bytes b"
      "tail_budget b' = n - n div 2" for b' x
    using push_to_tail_spec [of b' "drop (n div 2) d" om x] half_twice_le [OF n tbl] tl tb om that by simp
  consider "n = 0" | "0 < n" "length d < n div 2" "length c \<le> n div 2 - length d"
    | "0 < n" "length d < n div 2" "n div 2 - length d < length c" | "0 < n" "n div 2 \<le> length d" by linarith
  then show ?thesis
  proof cases
    case 1
    then have "push_chunk b c = b\<lparr>omitted_bytes := min (om + length c) usize_max\<rparr>"
      using om by (simp add: push_chunk_def bud saturating_add_capped)
    then show ?thesis using 1 bud hd tl hb tb by (simp add: holds_def om_def del: concat_eq_Nil_conv)
  next
    case 2
    have "length d + length c \<le> usize_max" using n 2 by linarith
    then have "push_chunk b c = b\<lparr>head_bytes := length d + length c, ht_head := ht_head b @ [c]\<rparr>"
      using 2 by (simp add: push_chunk_def bud hb Let_def)
    moreover have "om = 0" using sum hb 2 by simp
    ultimately show ?thesis using 2 bud hd tl tb om by (simp add: holds_def last_bytes_def)
  next
    case 3
    let ?k = "n div 2 - length d"
    let ?b = "b\<lparr>head_bytes := n div 2, ht_head := ht_head b @ [take ?k c]\<rparr>"
    have "n div 2 \<le> usize_max" "c \<noteq> []" using n 3 by auto
    then have push: "push_chunk b c = push_to_tail ?b (drop ?k c)"
      using 3 by (simp add: push_chunk_def bud hb Let_def)
    have same: "ht_tail ?b = ht_tail b" "tail_bytes ?b = tail_bytes b" "omitted_bytes ?b = omitted_bytes b"
      "tail_budget ?b = n - n div 2" using bud by simp_all
    obtain t' om' where t': "push_to_tail ?b (drop ?k c) =
        ?b\<lparr>ht_tail := t', tail_bytes := length (concat t'), omitted_bytes := min om' usize_max\<rparr>"
      "concat t' = last_bytes (n - n div 2) (drop (n div 2) d @ drop ?k c)"
      "om' + length (concat t') = om + tail_bytes b + length (drop ?k c)"
      using tail [OF same] by blast
    have hd': "concat (ht_head b @ [take ?k c]) = take (n div 2) (d @ c)" and len: "length (take (n div 2) (d @ c)) = n div 2"
      and dr: "drop (n div 2) (d @ c) = drop (n div 2) d @ drop ?k c"
      using 3 hd by simp_all
    have "om' = length (d @ c) - n div 2 - length (concat t')"
      using t'(3) sum hb 3 by simp
    moreover have "max_bytes (push_chunk b c) = n" "head_budget (push_chunk b c) = n div 2"
      "tail_budget (push_chunk b c) = n - n div 2" "ht_head (push_chunk b c) = ht_head b @ [take ?k c]" "ht_tail (push_chunk b c) = t'"
      "head_bytes (push_chunk b c) = n div 2" "tail_bytes (push_chunk b c) = length (concat t')"
      "omitted_bytes (push_chunk b c) = min om' usize_max" unfolding push t'(1) using bud by simp_all
    ultimately show ?thesis
      unfolding holds_def by (simp only: hd' len dr t'(2) simp_thms)
  next
    case 4
    then have push: "push_chunk b c = push_to_tail b c" by (simp add: push_chunk_def bud hb)
    obtain t' om' where t': "push_to_tail b c = b\<lparr>ht_tail := t', tail_bytes := length (concat t'), omitted_bytes := min om' usize_max\<rparr>"
      "concat t' = last_bytes (n - n div 2) (drop (n div 2) d @ c)"
      "om' + length (concat t') = om + tail_bytes b + length c"
      using tail [OF refl refl refl bud(3), of c] by blast
    have hd': "concat (ht_head b) = take (n div 2) (d @ c)" and len: "length (take (n div 2) (d @ c)) = n div 2"
      and dr: "drop (n div 2) (d @ c) = drop (n div 2) d @ c" and hb': "head_bytes b = n div 2"
      using 4 hd hb by simp_all
    have "om' = length (d @ c) - n div 2 - length (concat t')"
      using t'(3) sum hb' by simp
    moreover have "max_bytes (push_chunk b c) = n" "head_budget (push_chunk b c) = n div 2"
      "tail_budget (push_chunk b c) = n - n div 2" "ht_head (push_chunk b c) = ht_head b" "ht_tail (push_chunk b c) = t'"
      "head_bytes (push_chunk b c) = n div 2" "tail_bytes (push_chunk b c) = length (concat t')"
      "omitted_bytes (push_chunk b c) = min om' usize_max" unfolding push t'(1) using bud hb' by simp_all
    ultimately show ?thesis
      unfolding holds_def by (simp only: hd' len dr t'(2) simp_thms)
  qed
qed

lemma holds_fold:
  assumes "holds n d b" "n \<le> usize_max"
  shows "holds n (d @ concat chunks) (fold (\<lambda>c b. push_chunk b c) chunks b)"
  using assms(1)
proof (induction chunks arbitrary: d b)
  case (Cons c cs)
  from Cons.IH [OF holds_push [OF Cons.prems assms(2)]] show ?case by simp
qed simp

lemma length_head_tail: "length (take (n div 2) d @ last_bytes (n - n div 2) (drop (n div 2) d)) = min n (length d)"
proof -
  have "n div 2 \<le> n" by simp
  then show ?thesis unfolding length_append length_take length_last_bytes length_drop by linarith
qed

text \<open>C30. Whatever chunks a command writes, the buffer holds the first half of its budget and the last
  half of it and nothing else, never more than \<open>max_bytes\<close> bytes, and it counts every byte it dropped;
  output that fits is kept whole.\<close>

theorem head_tail_bounded:
  assumes "n \<le> usize_max"
  shows "(let b = fold (\<lambda>c b. push_chunk b c) chunks (head_tail_new n); d = concat chunks in
     to_bytes b = take (n div 2) d @ last_bytes (n - n div 2) (drop (n div 2) d) \<and>
     concat (snapshot_chunks b) = to_bytes b \<and>
     length (to_bytes b) = min n (length d) \<and> retained_bytes b = length (to_bytes b) \<and>
     omitted_bytes b = min (length d - length (to_bytes b)) usize_max \<and>
     (length d \<le> n \<longrightarrow> to_bytes b = d) \<and>
     fst (drain_chunks b) = head_tail_new n)"
proof -
  define b where "b = fold (\<lambda>c b. push_chunk b c) chunks (head_tail_new n)"
  have h: "holds n (concat chunks) b" using holds_fold [OF holds_new assms, of chunks] by (simp add: b_def)
  have hd: "concat (ht_head b) = take (n div 2) (concat chunks)"
    and tl: "concat (ht_tail b) = last_bytes (n - n div 2) (drop (n div 2) (concat chunks))"
    and cnt: "head_bytes b = length (concat (ht_head b))" "tail_bytes b = length (concat (ht_tail b))"
    and om: "omitted_bytes b = min (length (concat chunks) - length (concat (ht_head b)) - length (concat (ht_tail b))) usize_max"
    and bud: "max_bytes b = n" "head_budget b = n div 2" "tail_budget b = n - n div 2"
    using h by (simp_all only: holds_def)
  have to: "to_bytes b = take (n div 2) (concat chunks) @ last_bytes (n - n div 2) (drop (n div 2) (concat chunks))"
    by (simp only: to_bytes_def hd tl)
  then have len: "length (to_bytes b) = min n (length (concat chunks))" by (simp only: length_head_tail)
  have cat: "length (to_bytes b) = head_bytes b + tail_bytes b" by (simp only: to_bytes_def cnt length_append)
  have "retained_bytes b = length (to_bytes b)"
    using len assms unfolding retained_bytes_def cat [symmetric] by (simp add: saturating_add_def cat [symmetric])
  moreover have "to_bytes b = concat chunks" if "length (concat chunks) \<le> n"
    unfolding to using that by (simp add: last_bytes_def)
  moreover have "fst (drain_chunks b) = head_tail_new n"
    using bud by (cases b) (simp add: drain_chunks_def head_tail_new_def)
  moreover have "omitted_bytes b = min (length (concat chunks) - length (to_bytes b)) usize_max"
    unfolding om cat cnt [symmetric] by simp
  moreover have "concat (snapshot_chunks b) = to_bytes b" by (simp add: snapshot_chunks_def to_bytes_def)
  ultimately show ?thesis
    using to len unfolding b_def [symmetric] Let_def by blast
qed

theorem head_tail_bounded_witness:
  "to_bytes (fold (\<lambda>c b. push_chunk b c) [[1, 2, 3], [4, 5], [6, 7, 8]] (head_tail_new 5)) = [1, 2, 6, 7, 8] \<and>
   omitted_bytes (fold (\<lambda>c b. push_chunk b c) [[1, 2, 3], [4, 5], [6, 7, 8]] (head_tail_new 5)) = 3"
proof -
  have "(5::nat) \<le> usize_max" by (simp add: usize_max_def)
  from head_tail_bounded [OF this, of "[[1, 2, 3], [4, 5], [6, 7, 8]]"] show ?thesis
    by (simp add: Let_def last_bytes_def usize_max_def del: fold_simps)
qed

end
