(* ===== verification/Truncate.thy ===== *)
theory Truncate
  imports Usize
begin

text \<open>
  Truncation of long texts in the middle (\<open>utils/string/src/truncate.rs\<close>, and
  \<open>take_bytes_at_char_boundary\<close> of \<open>utils/string/src/lib.rs\<close>) and of the outputs of tools
  (\<open>utils/output-truncation/src/lib.rs\<close>) under the policies of \<open>protocol/src/protocol.rs\<close>.  Positions
  are counted in bytes, as the source counts them.
\<close>

subsection \<open>Slices at byte positions\<close>

text \<open>\<open>&s[..n]\<close> and \<open>&s[n..]\<close> for a position \<open>n\<close> that is a character boundary.\<close>

fun take_bytes :: "nat \<Rightarrow> str \<Rightarrow> str" where
  "take_bytes n [] = []"
| "take_bytes n (c # s) = (if len_utf8 c \<le> n then c # take_bytes (n - len_utf8 c) s else [])"

fun drop_bytes :: "nat \<Rightarrow> str \<Rightarrow> str" where
  "drop_bytes n [] = []"
| "drop_bytes n (c # s) = (if len_utf8 c \<le> n then drop_bytes (n - len_utf8 c) s else c # s)"

text \<open>The loop over \<open>char_indices\<close> that finds the last boundary within the budget.\<close>

fun boundary_loop :: "nat \<Rightarrow> nat \<Rightarrow> str \<Rightarrow> nat \<Rightarrow> nat" where
  "boundary_loop maxb i [] last_ok = last_ok"
| "boundary_loop maxb i (ch # s) last_ok =
     (let nb = i + len_utf8 ch in if maxb < nb then last_ok else boundary_loop maxb nb s nb)"

definition take_bytes_at_char_boundary :: "str \<Rightarrow> nat \<Rightarrow> str" where
  "take_bytes_at_char_boundary s maxb =
     (if utf8_len s \<le> maxb then s else take_bytes (boundary_loop maxb 0 s 0) s)"

subsection \<open>Truncating the middle\<close>

definition APPROX_BYTES_PER_TOKEN :: nat where
  "APPROX_BYTES_PER_TOKEN = 4"

definition approx_token_count :: "str \<Rightarrow> nat" where
  "approx_token_count s = saturating_add (utf8_len s) (APPROX_BYTES_PER_TOKEN - 1) div APPROX_BYTES_PER_TOKEN"

definition approx_bytes_for_tokens :: "nat \<Rightarrow> nat" where
  "approx_bytes_for_tokens tokens = saturating_mul tokens APPROX_BYTES_PER_TOKEN"

definition approx_tokens_from_byte_count :: "nat \<Rightarrow> nat" where
  "approx_tokens_from_byte_count n = saturating_add n (APPROX_BYTES_PER_TOKEN - 1) div APPROX_BYTES_PER_TOKEN"

definition split_budget :: "nat \<Rightarrow> nat \<times> nat" where
  "split_budget budget = (budget div 2, budget - budget div 2)"

definition format_truncation_marker :: "bool \<Rightarrow> nat \<Rightarrow> str" where
  "format_truncation_marker use_tokens removed_count =
     (if use_tokens then [0x2026] @ nat_digits removed_count @ lit '' tokens truncated'' @ [0x2026]
      else [0x2026] @ nat_digits removed_count @ lit '' chars truncated'' @ [0x2026])"

definition removed_units :: "bool \<Rightarrow> nat \<Rightarrow> nat \<Rightarrow> nat" where
  "removed_units use_tokens removed_bytes removed_chars =
     (if use_tokens then approx_tokens_from_byte_count removed_bytes else removed_chars)"

definition assemble_truncated_output :: "str \<Rightarrow> str \<Rightarrow> str \<Rightarrow> str" where
  "assemble_truncated_output before after marker = before @ marker @ after"

record split_state =
  char_idx :: nat
  prefix_end :: nat
  suffix_start :: nat
  removed_chars :: nat
  suffix_started :: bool

definition split_step :: "nat \<Rightarrow> nat \<Rightarrow> uchar \<Rightarrow> split_state \<Rightarrow> split_state" where
  "split_step beginning_bytes tail_start_target ch st =
     (let idx = char_idx st; char_end = idx + len_utf8 ch; st = st\<lparr>char_idx := char_end\<rparr> in
      if char_end \<le> beginning_bytes then st\<lparr>prefix_end := char_end\<rparr>
      else if tail_start_target \<le> idx then
        (if \<not> suffix_started st then st\<lparr>suffix_start := idx, suffix_started := True\<rparr> else st)
      else st\<lparr>removed_chars := saturating_add (removed_chars st) 1\<rparr>)"

definition split_string :: "str \<Rightarrow> nat \<Rightarrow> nat \<Rightarrow> nat \<times> str \<times> str" where
  "split_string s beginning_bytes end_bytes =
     (if s = [] then (0, [], [])
      else
        (let len = utf8_len s;
             st = fold (split_step beginning_bytes (len - end_bytes)) s
                    \<lparr>char_idx = 0, prefix_end = 0, suffix_start = len, removed_chars = 0, suffix_started = False\<rparr>;
             start = (if suffix_start st < prefix_end st then prefix_end st else suffix_start st)
         in (removed_chars st, take_bytes (prefix_end st) s, drop_bytes start s)))"

definition truncate_with_byte_estimate :: "str \<Rightarrow> nat \<Rightarrow> bool \<Rightarrow> str" where
  "truncate_with_byte_estimate s n use_tokens =
     (if s = [] then []
      else
        (let total_chars = length s in
         if n = 0 then format_truncation_marker use_tokens (removed_units use_tokens (utf8_len s) total_chars)
         else if utf8_len s \<le> n then s
         else
           (let (left_budget, right_budget) = split_budget n;
                (removed, left, right) = split_string s left_budget right_budget;
                marker = format_truncation_marker use_tokens (removed_units use_tokens (utf8_len s - n) removed)
            in assemble_truncated_output left right marker)))"

definition truncate_middle_chars :: "str \<Rightarrow> nat \<Rightarrow> str" where
  "truncate_middle_chars s n = truncate_with_byte_estimate s n False"

definition truncate_middle_with_token_budget :: "str \<Rightarrow> nat \<Rightarrow> str \<times> nat option" where
  "truncate_middle_with_token_budget s max_tokens =
     (if s = [] then ([], None)
      else if 0 < max_tokens \<and> utf8_len s \<le> approx_bytes_for_tokens max_tokens then (s, None)
      else
        (let truncated = truncate_with_byte_estimate s (approx_bytes_for_tokens max_tokens) True;
             total_tokens = approx_token_count s
         in if truncated = s then (truncated, None) else (truncated, Some total_tokens)))"

subsection \<open>Tool outputs\<close>

datatype truncation_policy = Bytes nat | Tokens nat

definition token_budget :: "truncation_policy \<Rightarrow> nat" where
  "token_budget policy = (case policy of Bytes n \<Rightarrow> approx_tokens_from_byte_count n | Tokens n \<Rightarrow> n)"

definition byte_budget :: "truncation_policy \<Rightarrow> nat" where
  "byte_budget policy = (case policy of Bytes n \<Rightarrow> n | Tokens n \<Rightarrow> approx_bytes_for_tokens n)"

datatype 'd content_item = InputText str | InputImage str "'d option" | EncryptedContent str

definition truncate_text :: "str \<Rightarrow> truncation_policy \<Rightarrow> str" where
  "truncate_text content policy =
     (case policy of
        Bytes n \<Rightarrow> truncate_middle_chars content n
      | Tokens n \<Rightarrow> fst (truncate_middle_with_token_budget content n))"

definition formatted_truncate_text :: "str \<Rightarrow> truncation_policy \<Rightarrow> str" where
  "formatted_truncate_text content policy =
     (if utf8_len content \<le> byte_budget policy then content
      else lit ''Total output lines: '' @ nat_digits (length (str_lines content)) @ [nl, nl] @ truncate_text content policy)"

fun item_text :: "'d content_item \<Rightarrow> str option" where
  "item_text (InputText s) = Some s"
| "item_text (InputImage _ _) = None"
| "item_text (EncryptedContent _) = None"

definition combine_texts :: "str list \<Rightarrow> str" where
  "combine_texts texts = fold (\<lambda>s combined. (if combined \<noteq> [] then combined @ [nl] else combined) @ s) texts []"

definition formatted_truncate_text_content_items_with_policy ::
  "'d content_item list \<Rightarrow> truncation_policy \<Rightarrow> 'd content_item list \<times> nat option" where
  "formatted_truncate_text_content_items_with_policy items policy =
     (let text_segments = List.map_filter item_text items in
      if text_segments = [] then (items, None)
      else
        (let combined = combine_texts text_segments in
         if utf8_len combined \<le> byte_budget policy then (items, None)
         else (InputText (formatted_truncate_text combined policy) # filter (\<lambda>i. item_text i = None) items,
               Some (approx_token_count combined))))"

fun items_loop ::
  "truncation_policy \<Rightarrow> 'd content_item list \<Rightarrow> 'd content_item list \<Rightarrow> nat \<Rightarrow> nat \<Rightarrow> 'd content_item list \<times> nat" where
  "items_loop policy [] out remaining omitted = (out, omitted)"
| "items_loop policy (InputText s # items) out remaining omitted =
     (if remaining = 0 then items_loop policy items out remaining (omitted + 1)
      else
        (let cost = (case policy of Bytes _ \<Rightarrow> utf8_len s | Tokens _ \<Rightarrow> approx_token_count s) in
         if cost \<le> remaining then items_loop policy items (out @ [InputText s]) (remaining - cost) omitted
         else
           (let snippet_policy = (case policy of Bytes _ \<Rightarrow> Bytes remaining | Tokens _ \<Rightarrow> Tokens remaining);
                snippet = truncate_text s snippet_policy
            in if snippet = [] then items_loop policy items out 0 (omitted + 1)
               else items_loop policy items (out @ [InputText snippet]) 0 omitted)))"
| "items_loop policy (InputImage url detail # items) out remaining omitted =
     items_loop policy items (out @ [InputImage url detail]) remaining omitted"
| "items_loop policy (EncryptedContent s # items) out remaining omitted =
     items_loop policy items (out @ [EncryptedContent s]) remaining omitted"

definition truncate_function_output_items_with_policy ::
  "'d content_item list \<Rightarrow> truncation_policy \<Rightarrow> 'd content_item list" where
  "truncate_function_output_items_with_policy items policy =
     (let budget = (case policy of Bytes _ \<Rightarrow> byte_budget policy | Tokens _ \<Rightarrow> token_budget policy);
          (out, omitted) = items_loop policy items [] budget 0
      in if 0 < omitted
         then out @ [InputText (lit ''[omitted '' @ nat_digits omitted @ lit '' text items ...]'')] else out)"

text \<open>\<open>i64::MAX\<close> is \<open>2 ^ 63 - 1\<close>; a positive \<open>i64\<close> always fits \<open>usize\<close>.\<close>

definition approx_tokens_from_byte_count_i64 :: "int \<Rightarrow> int" where
  "approx_tokens_from_byte_count_i64 n =
     (if n \<le> 0 then 0 else min (int (approx_tokens_from_byte_count (nat n))) (2 ^ 63 - 1))"

subsection \<open>Where the cuts are\<close>

lemma len_utf8_pos [simp]: "0 < len_utf8 c" "len_utf8 c \<noteq> 0"
  by (simp_all add: len_utf8_def)

lemma utf8_len_simps [simp]:
  "utf8_len [] = 0"
  "utf8_len (c # s) = len_utf8 c + utf8_len s"
  "utf8_len (a @ b) = utf8_len a + utf8_len b"
  by (simp_all add: utf8_len_def)

lemma take_bytes_append: "take_bytes (utf8_len a) (a @ b) = a"
proof (induction a)
  case Nil
  then show ?case by (cases b) simp_all
qed simp

lemma drop_bytes_append: "drop_bytes (utf8_len a) (a @ b) = b"
proof (induction a)
  case Nil
  then show ?case by (cases b) simp_all
qed simp

lemma greedy_prefix:
  "\<exists>l r. s = l @ r \<and> utf8_len l \<le> n \<and> (r \<noteq> [] \<longrightarrow> n < utf8_len l + len_utf8 (hd r))"
proof (induction s arbitrary: n)
  case (Cons c s)
  show ?case
  proof (cases "len_utf8 c \<le> n")
    case True
    obtain l r where "s = l @ r" "utf8_len l \<le> n - len_utf8 c" "r \<noteq> [] \<longrightarrow> n - len_utf8 c < utf8_len l + len_utf8 (hd r)"
      using Cons by blast
    with True show ?thesis by (intro exI [of _ "c # l"] exI [of _ r]) auto
  next
    case False
    then show ?thesis by (intro exI [of _ "[]"] exI [of _ "c # s"]) simp
  qed
qed simp

lemma split_at_target:
  "\<exists>m r. s = m @ r \<and> (m \<noteq> [] \<longrightarrow> i + utf8_len (butlast m) < t) \<and> (r \<noteq> [] \<longrightarrow> t \<le> i + utf8_len m)"
proof (induction s arbitrary: i)
  case (Cons c s)
  show ?case
  proof (cases "i < t")
    case True
    obtain m r where "s = m @ r" "m \<noteq> [] \<longrightarrow> i + len_utf8 c + utf8_len (butlast m) < t" "r \<noteq> [] \<longrightarrow> t \<le> i + len_utf8 c + utf8_len m"
      using Cons by blast
    with True show ?thesis by (intro exI [of _ "c # m"] exI [of _ r]) auto
  next
    case False
    then show ?thesis by (intro exI [of _ "[]"] exI [of _ "c # s"]) simp
  qed
qed simp

lemma fold_split_left:
  assumes "i + utf8_len l \<le> b"
  shows "fold (split_step b t) l \<lparr>char_idx = i, prefix_end = pe, suffix_start = ss, removed_chars = k, suffix_started = st\<rparr> =
    \<lparr>char_idx = i + utf8_len l, prefix_end = (if l = [] then pe else i + utf8_len l), suffix_start = ss,
     removed_chars = k, suffix_started = st\<rparr>"
  using assms by (induction l arbitrary: i pe) (auto simp: split_step_def Let_def)

lemma fold_split_mid:
  assumes "m \<noteq> [] \<longrightarrow> b < i + len_utf8 (hd m) \<and> i + utf8_len (butlast m) < t"
  shows "fold (split_step b t) m
      \<lparr>char_idx = i, prefix_end = pe, suffix_start = ss, removed_chars = min k usize_max, suffix_started = st\<rparr> =
    \<lparr>char_idx = i + utf8_len m, prefix_end = pe, suffix_start = ss, removed_chars = min (k + length m) usize_max, suffix_started = st\<rparr>"
  using assms
proof (induction m arbitrary: i k)
  case (Cons c m)
  have "m \<noteq> [] \<longrightarrow> b < i + len_utf8 c + len_utf8 (hd m) \<and> i + len_utf8 c + utf8_len (butlast m) < t"
    using Cons.prems by auto
  from Cons.IH [OF this, of "k + 1"] Cons.prems show ?case
    by (auto simp: split_step_def Let_def saturating_add_capped add.assoc split: if_splits)
qed simp

lemma fold_split_right:
  assumes "r \<noteq> [] \<longrightarrow> b < i + len_utf8 (hd r) \<and> t \<le> i"
  shows "fold (split_step b t) r \<lparr>char_idx = i, prefix_end = pe, suffix_start = ss, removed_chars = k, suffix_started = st\<rparr> =
    \<lparr>char_idx = i + utf8_len r, prefix_end = pe, suffix_start = (if r = [] \<or> st then ss else i),
     removed_chars = k, suffix_started = (st \<or> r \<noteq> [])\<rparr>"
  using assms
proof (induction r arbitrary: i ss st)
  case (Cons c r)
  have "r \<noteq> [] \<longrightarrow> b < i + len_utf8 c + len_utf8 (hd r) \<and> t \<le> i + len_utf8 c"
    using Cons.prems by auto
  from Cons.IH [OF this] Cons.prems show ?case
    by (simp add: split_step_def Let_def add.assoc)
qed simp

lemma split_string_spec:
  obtains l m r where "s = l @ m @ r" "split_string s b e = (min (length m) usize_max, l, r)"
    "utf8_len l \<le> b" "utf8_len r \<le> e" "m \<noteq> [] \<longrightarrow> b < utf8_len l + len_utf8 (hd m) \<and> e < len_utf8 (last m) + utf8_len r"
proof -
  let ?t = "utf8_len s - e"
  obtain l q where lq: "s = l @ q" "utf8_len l \<le> b" "q \<noteq> [] \<longrightarrow> b < utf8_len l + len_utf8 (hd q)"
    using greedy_prefix by blast
  obtain m r where mr: "q = m @ r" "m \<noteq> [] \<longrightarrow> utf8_len l + utf8_len (butlast m) < ?t" "r \<noteq> [] \<longrightarrow> ?t \<le> utf8_len l + utf8_len m"
    using split_at_target by blast
  have s: "s = l @ m @ r" using lq mr by simp
  have hm: "m \<noteq> [] \<longrightarrow> b < utf8_len l + len_utf8 (hd m) \<and> utf8_len l + utf8_len (butlast m) < ?t"
    using lq mr by auto
  have hr: "r \<noteq> [] \<longrightarrow> b < utf8_len l + utf8_len m + len_utf8 (hd r) \<and> ?t \<le> utf8_len l + utf8_len m"
    using lq mr by (cases m) auto
  have "fold (split_step b ?t) s
      \<lparr>char_idx = 0, prefix_end = 0, suffix_start = utf8_len s, removed_chars = min 0 usize_max, suffix_started = False\<rparr> =
    \<lparr>char_idx = utf8_len l + utf8_len m + utf8_len r, prefix_end = utf8_len l,
     suffix_start = (if r = [] then utf8_len s else utf8_len l + utf8_len m),
     removed_chars = min (length m) usize_max, suffix_started = (r \<noteq> [])\<rparr>"
    (is "fold ?f s ?st = _")
  proof -
    have "fold ?f l ?st = \<lparr>char_idx = utf8_len l, prefix_end = utf8_len l, suffix_start = utf8_len s,
        removed_chars = min 0 usize_max, suffix_started = False\<rparr>"
      using fold_split_left [of 0 l b ?t 0] lq(2) by simp
    then have "fold ?f s ?st = fold ?f r (fold ?f m \<lparr>char_idx = utf8_len l, prefix_end = utf8_len l, suffix_start = utf8_len s,
        removed_chars = min 0 usize_max, suffix_started = False\<rparr>)"
      by (subst s) (simp only: fold_append comp_apply)
    then show ?thesis
      unfolding fold_split_mid [OF hm] fold_split_right [OF hr] by simp
  qed
  moreover have "take_bytes (utf8_len l) s = l" unfolding s by (rule take_bytes_append)
  moreover have "drop_bytes (utf8_len l + utf8_len m) s = r"
    using drop_bytes_append [of "l @ m" r] s by simp
  moreover have "drop_bytes (utf8_len s) s = []" using drop_bytes_append [of s "[]"] by simp
  ultimately have "split_string s b e = (min (length m) usize_max, l, r)"
    using s by (auto simp: split_string_def Let_def)
  moreover have "utf8_len r \<le> e" using mr(3) s by (cases "r = []") auto
  moreover have "e < len_utf8 (last m) + utf8_len r" if "m \<noteq> []"
  proof -
    have "utf8_len m = utf8_len (butlast m) + len_utf8 (last m)"
      using that by (metis append_butlast_last_id utf8_len_simps add.right_neutral)
    with mr(2) s that show ?thesis by simp
  qed
  ultimately show ?thesis using that s lq(2) hm by blast
qed

lemma length_le_utf8_len: "length s \<le> utf8_len s"
proof (induction s)
  case (Cons c s)
  then show ?case by (simp add: len_utf8_def)
qed simp

lemma utf8_len_eq_0 [simp]: "utf8_len s = 0 \<longleftrightarrow> s = []"
  by (cases s) simp_all

text \<open>A text cut in the middle: which part goes, and how tight the cuts are.\<close>

definition cut_middle :: "str \<Rightarrow> nat \<Rightarrow> (nat \<Rightarrow> str) \<Rightarrow> str \<Rightarrow> bool" where
  "cut_middle s n marker result \<longleftrightarrow>
     (\<exists>left mid right. s = left @ mid @ right \<and> mid \<noteq> [] \<and> result = left @ marker (length mid) @ right \<and>
        utf8_len left \<le> n div 2 \<and> utf8_len right \<le> n - n div 2 \<and>
        n div 2 < utf8_len left + len_utf8 (hd mid) \<and> n - n div 2 < len_utf8 (last mid) + utf8_len right)"

lemma truncate_with_byte_estimate_spec:
  assumes "utf8_len s \<le> usize_max" "n < utf8_len s"
  shows "cut_middle s n (\<lambda>k. format_truncation_marker tok (removed_units tok (utf8_len s - n) k))
    (truncate_with_byte_estimate s n tok)"
proof -
  have ne: "s \<noteq> []" using assms(2) by auto
  obtain l m r where s: "s = l @ m @ r" and sp: "split_string s (n div 2) (n - n div 2) = (min (length m) usize_max, l, r)"
    and b: "utf8_len l \<le> n div 2" "utf8_len r \<le> n - n div 2"
      "m \<noteq> [] \<longrightarrow> n div 2 < utf8_len l + len_utf8 (hd m) \<and> n - n div 2 < len_utf8 (last m) + utf8_len r"
    by (rule split_string_spec)
  have m: "m \<noteq> []" using b(1,2) s assms(2) by auto
  have "length m \<le> usize_max" using length_le_utf8_len [of m] s assms(1) by simp
  then have sp: "split_string s (n div 2) (n - n div 2) = (length m, l, r)" using sp by simp
  show ?thesis
  proof (cases "n = 0")
    case True
    with b(1,2) have "l = []" "r = []" using length_le_utf8_len [of l] length_le_utf8_len [of r] by auto
    with True m ne b(3) s show ?thesis
      unfolding cut_middle_def
      by (intro exI [of _ "[]"] exI [of _ m]) (auto simp: truncate_with_byte_estimate_def Let_def)
  next
    case False
    with ne assms(2) have "truncate_with_byte_estimate s n tok =
        l @ format_truncation_marker tok (removed_units tok (utf8_len s - n) (length m)) @ r"
      by (simp add: truncate_with_byte_estimate_def Let_def split_budget_def sp assemble_truncated_output_def)
    with s m b show ?thesis unfolding cut_middle_def by blast
  qed
qed

definition counts_tokens :: "truncation_policy \<Rightarrow> bool" where
  "counts_tokens policy = (case policy of Bytes _ \<Rightarrow> False | Tokens _ \<Rightarrow> True)"

lemma truncate_text_estimate:
  "truncate_text s policy = (if utf8_len s \<le> byte_budget policy then s
     else truncate_with_byte_estimate s (byte_budget policy) (counts_tokens policy))"
proof (cases policy)
  case (Bytes n)
  then show ?thesis
    by (auto simp: truncate_text_def truncate_middle_chars_def byte_budget_def counts_tokens_def
        truncate_with_byte_estimate_def utf8_len_def)
next
  case (Tokens n)
  have "approx_bytes_for_tokens 0 = 0" by (simp add: approx_bytes_for_tokens_def saturating_mul_def)
  with Tokens show ?thesis
    by (auto simp: truncate_text_def truncate_middle_with_token_budget_def byte_budget_def counts_tokens_def Let_def)
qed

text \<open>C31. Truncating a text under a policy leaves a text within the byte budget alone. Otherwise it
  removes one contiguous part from the middle and nothing else, puts the marker with the number of
  removed characters (or the estimated tokens) in its place, keeps at most half of the budget on
  either side, and keeps as many whole characters there as fit.\<close>

theorem truncate_text_cuts_middle:
  assumes "utf8_len s \<le> usize_max"
  shows "(utf8_len s \<le> byte_budget policy \<longrightarrow> truncate_text s policy = s) \<and>
    (byte_budget policy < utf8_len s \<longrightarrow>
       cut_middle s (byte_budget policy)
         (\<lambda>k. format_truncation_marker (counts_tokens policy)
                (removed_units (counts_tokens policy) (utf8_len s - byte_budget policy) k))
         (truncate_text s policy))"
  using truncate_with_byte_estimate_spec [OF assms, of "byte_budget policy"]
  by (simp add: truncate_text_estimate)

theorem truncate_text_cuts_middle_witness:
  "truncate_text (lit ''abc'') (Bytes 5) = lit ''abc'' \<and>
   cut_middle (lit ''abcdefgh'') 5 (\<lambda>k. format_truncation_marker False (removed_units False 3 k))
     (truncate_text (lit ''abcdefgh'') (Bytes 5))"
  using truncate_text_cuts_middle [of "lit ''abc''" "Bytes 5"] truncate_text_cuts_middle [of "lit ''abcdefgh''" "Bytes 5"]
  by (simp add: usize_max_def lit_simps len_utf8_def byte_budget_def counts_tokens_def numeral_3_eq_3)

text \<open>The marker is not part of the budget: whatever the budget, a text that is cut takes at least the
  23 bytes of the shortest marker.\<close>

lemma truncate_exceeds_budget:
  assumes "utf8_len s \<le> usize_max" "n < utf8_len s"
  shows "23 \<le> utf8_len (truncate_middle_chars s n)"
proof -
  have "nat_digits k \<noteq> []" for k by (subst nat_digits.simps) simp
  then have "1 \<le> utf8_len (nat_digits k)" for k
    by (metis One_nat_def Suc_leI neq0_conv utf8_len_eq_0)
  then have m: "23 \<le> utf8_len (format_truncation_marker False k)" for k
    by (simp add: format_truncation_marker_def lit_simps len_utf8_def)
  obtain left k right where "truncate_middle_chars s n = left @ format_truncation_marker False k @ right"
    using truncate_with_byte_estimate_spec [OF assms, of False]
    unfolding cut_middle_def truncate_middle_chars_def by blast
  with m [of k] show ?thesis by simp
qed

text \<open>The prefix for a byte budget is the longest prefix of whole characters within it.\<close>

lemma take_bytes_at_char_boundary_longest:
  "\<exists>rest. s = take_bytes_at_char_boundary s n @ rest \<and> utf8_len (take_bytes_at_char_boundary s n) \<le> n \<and>
     (rest \<noteq> [] \<longrightarrow> n < utf8_len (take_bytes_at_char_boundary s n) + len_utf8 (hd rest))"
proof -
  obtain l r where lr: "s = l @ r" "utf8_len l \<le> n" "r \<noteq> [] \<longrightarrow> n < utf8_len l + len_utf8 (hd r)"
    using greedy_prefix by blast
  have "boundary_loop n i (l @ r) i = i + utf8_len l"
    if "i + utf8_len l \<le> n" "r \<noteq> [] \<longrightarrow> n < i + utf8_len l + len_utf8 (hd r)" for i
    using that
  proof (induction l arbitrary: i)
    case Nil
    then show ?case by (cases r) simp_all
  next
    case (Cons c l)
    from Cons.IH [of "i + len_utf8 c"] Cons.prems show ?case by (simp add: add.assoc)
  qed
  from this [of 0] lr have "boundary_loop n 0 s 0 = utf8_len l" by simp
  then have "take_bytes (boundary_loop n 0 s 0) s = l" using lr(1) take_bytes_append by simp
  moreover have "r = []" if "utf8_len s \<le> n" using that lr by (cases r) auto
  ultimately have "take_bytes_at_char_boundary s n = l"
    using lr(1) by (auto simp: take_bytes_at_char_boundary_def)
  with lr show ?thesis by auto
qed

subsection \<open>Items of a tool output\<close>

definition not_text :: "'d content_item \<Rightarrow> bool" where
  "not_text i \<longleftrightarrow> item_text i = None"

lemma items_loop_not_text:
  "filter not_text (fst (items_loop policy items out remaining omitted)) = filter not_text out @ filter not_text items"
  by (induction policy items out remaining omitted rule: items_loop.induct) (simp_all add: Let_def not_text_def)

definition text_cost :: "truncation_policy \<Rightarrow> 'd content_item \<Rightarrow> nat" where
  "text_cost policy i =
     (case item_text i of
        None \<Rightarrow> 0
      | Some s \<Rightarrow> (case policy of Bytes _ \<Rightarrow> utf8_len s | Tokens _ \<Rightarrow> approx_token_count s))"

lemma items_loop_fits:
  "sum_list (map (text_cost policy) items) < remaining \<Longrightarrow> items_loop policy items out remaining omitted = (out @ items, omitted)"
  by (induction policy items out remaining omitted rule: items_loop.induct)
    (auto simp: Let_def text_cost_def split: truncation_policy.splits)

definition policy_budget :: "truncation_policy \<Rightarrow> nat" where
  "policy_budget policy = (case policy of Bytes n \<Rightarrow> n | Tokens n \<Rightarrow> n)"

text \<open>Truncating the items of a tool output, piecewise or as one text, keeps every image and every
  encrypted item, in order; an output whose texts stay below the budget is not changed.\<close>

theorem truncation_keeps_other_items:
  "filter not_text (truncate_function_output_items_with_policy items policy) = filter not_text items \<and>
   filter not_text (fst (formatted_truncate_text_content_items_with_policy items policy)) = filter not_text items \<and>
   (sum_list (map (text_cost policy) items) < policy_budget policy \<longrightarrow>
      truncate_function_output_items_with_policy items policy = items)"
proof (intro conjI impI)
  show "filter not_text (truncate_function_output_items_with_policy items policy) = filter not_text items"
    using items_loop_not_text [of policy items "[]"]
    by (simp add: truncate_function_output_items_with_policy_def Let_def split_beta not_text_def)
  show "filter not_text (fst (formatted_truncate_text_content_items_with_policy items policy)) = filter not_text items"
    by (simp add: formatted_truncate_text_content_items_with_policy_def Let_def not_text_def [abs_def])
  assume "sum_list (map (text_cost policy) items) < policy_budget policy"
  then show "truncate_function_output_items_with_policy items policy = items"
    using items_loop_fits [of policy items "policy_budget policy" "[]" 0]
    by (cases policy)
      (simp_all add: truncate_function_output_items_with_policy_def Let_def policy_budget_def byte_budget_def token_budget_def)
qed

theorem truncation_keeps_other_items_witness:
  "filter not_text (truncate_function_output_items_with_policy [InputText (lit ''ab''), InputImage (lit ''u'') (Some ())] (Bytes 5)) =
     filter not_text [InputText (lit ''ab''), InputImage (lit ''u'') (Some ())] \<and>
   filter not_text (fst (formatted_truncate_text_content_items_with_policy [InputText (lit ''ab''), InputImage (lit ''u'') (Some ())] (Bytes 5))) =
     filter not_text [InputText (lit ''ab''), InputImage (lit ''u'') (Some ())] \<and>
   truncate_function_output_items_with_policy [InputText (lit ''ab''), InputImage (lit ''u'') (Some ())] (Bytes 5) =
     [InputText (lit ''ab''), InputImage (lit ''u'') (Some ())]"
  using truncation_keeps_other_items [of "[InputText (lit ''ab''), InputImage (lit ''u'') (Some ())]" "Bytes 5"]
  by (simp add: text_cost_def policy_budget_def lit_simps len_utf8_def)

end
