(* ===== verification/Spec2Isabelle.thy ===== *)
theory Spec2Isabelle
  imports PatchGrammar PatchSafety Utf8Stream HeadTail Truncate
begin

text \<open>
  A verification library for the Rust workspace under \<open>src/codex-rs\<close>.

  \<^item> \<open>Prelude\<close>: Rust strings, results and slices.
  \<^item> \<open>SeekSequence\<close>, \<open>PatchParser\<close>, \<open>PatchGrammar\<close>, \<open>PatchReplace\<close>, \<open>PatchStreaming\<close>: the
    \<open>apply-patch\<close> crate.
\<close>

end
